(* ===== verification/Prelude.thy ===== *)
theory Prelude
  imports
    Main
    "HOL-Library.AList"
    "HOL-Library.Char_ord"
    "HOL-Library.List_Lexorder"
    "HOL-Library.Multiset"
    "HOL-Library.Sublist"
begin

text \<open>
  What every component shares: the result type of fallible Go functions, Go maps as
  association lists in iteration order, the transition systems that model goroutines and the
  interface of an invariant, and the collections of rewrite rules the component proofs use.
\<close>

section \<open>Collections\<close>

named_theorems result_simps \<open>equations that invert a successful fallible call\<close>
named_theorems gomap_simps \<open>lookups in Go maps after updates\<close>
named_theorems sched_simps \<open>unfolding of the scheduler's state predicates\<close>

section \<open>Fallible functions\<close>

text \<open>
  A Go function returning a value and an \<open>error\<close> is a sum: \<open>Inl\<close> the error, \<open>Inr\<close> the value.
\<close>

definition bind_result :: "'e + 'a \<Rightarrow> ('a \<Rightarrow> 'e + 'b) \<Rightarrow> 'e + 'b" where
  "bind_result m f = (case m of Inl e \<Rightarrow> Inl e | Inr x \<Rightarrow> f x)"

lemma bind_result_simps [simp]:
  "bind_result (Inl e) f = Inl e"
  "bind_result (Inr x) f = f x"
  by (simp_all add: bind_result_def)

lemma bind_result_Inr_iff [result_simps]:
  "bind_result m f = Inr y \<longleftrightarrow> (\<exists>x. m = Inr x \<and> f x = Inr y)"
  by (cases m) auto

lemma bind_result_cong [fundef_cong]:
  "m = m' \<Longrightarrow> (\<And>x. m' = Inr x \<Longrightarrow> f x = g x) \<Longrightarrow> bind_result m f = bind_result m' g"
  by (cases m') auto

definition is_ok :: "'e + 'a \<Rightarrow> bool" where
  "is_ok r = (case r of Inl _ \<Rightarrow> False | Inr _ \<Rightarrow> True)"

lemma is_ok_simps [simp]: "is_ok (Inr x)" "\<not> is_ok (Inl e)"
  by (simp_all add: is_ok_def)

lemma is_ok_iff: "is_ok r \<longleftrightarrow> (\<exists>x. r = Inr x)"
  by (cases r) auto

text \<open>Mapping a fallible function over a slice stops at the first error.\<close>

fun map_result :: "('a \<Rightarrow> 'e + 'b) \<Rightarrow> 'a list \<Rightarrow> 'e + 'b list" where
  "map_result f [] = Inr []"
| "map_result f (x # xs) =
     bind_result (f x) (\<lambda>y. bind_result (map_result f xs) (\<lambda>ys. Inr (y # ys)))"

lemma map_result_Inr_iff:
  "map_result f xs = Inr ys \<longleftrightarrow> list_all2 (\<lambda>x y. f x = Inr y) xs ys"
proof (induction xs arbitrary: ys)
  case Nil
  then show ?case by auto
next
  case (Cons x xs)
  show ?case
    by (cases ys) (auto simp: bind_result_Inr_iff Cons.IH)
qed

lemma map_result_total:
  "(\<And>x. x \<in> set xs \<Longrightarrow> \<exists>y. f x = Inr y) \<Longrightarrow> \<exists>ys. map_result f xs = Inr ys"
proof (induction xs)
  case (Cons x xs)
  obtain y where "f x = Inr y"
    using Cons.prems [of x] by auto
  moreover obtain ys where "map_result f xs = Inr ys"
    using Cons.IH Cons.prems by auto
  ultimately show ?case
    by simp
qed simp

lemma map_result_length: "map_result f xs = Inr ys \<Longrightarrow> length ys = length xs"
  by (auto simp: map_result_Inr_iff dest: list_all2_lengthD)

section \<open>Go maps\<close>

text \<open>
  A Go map is an association list with distinct keys. The order of the list is the order in
  which a \<open>range\<close> loop visits the keys, which Go leaves open: a property stated for every
  such list covers every iteration order. A nil map is the empty list.
\<close>

type_synonym ('k, 'v) gomap = "('k \<times> 'v) list"

definition gomap_ok :: "('k, 'v) gomap \<Rightarrow> bool" where
  "gomap_ok m \<longleftrightarrow> distinct (map fst m)"

text \<open>\<open>put_all\<close> is the loop \<open>for k, v := range src { dst[k] = v }\<close>.\<close>

definition put_all :: "('k, 'v) gomap \<Rightarrow> ('k, 'v) gomap \<Rightarrow> ('k, 'v) gomap" where
  "put_all dst src = fold (\<lambda>(k, v) m. AList.update k v m) src dst"

lemma put_all_simps [simp]:
  "put_all dst [] = dst"
  "put_all dst ((k, v) # src) = put_all (AList.update k v dst) src"
  by (simp_all add: put_all_def)

lemma gomap_ok_Nil [simp]: "gomap_ok []"
  by (simp add: gomap_ok_def)

lemma gomap_ok_update [simp]: "gomap_ok m \<Longrightarrow> gomap_ok (AList.update k v m)"
  by (simp add: gomap_ok_def distinct_update)

lemma gomap_ok_put_all [simp]: "gomap_ok dst \<Longrightarrow> gomap_ok (put_all dst src)"
  by (induction src arbitrary: dst) auto

lemma map_of_put_all [gomap_simps]:
  "gomap_ok src \<Longrightarrow>
   map_of (put_all dst src) k = (case map_of src k of None \<Rightarrow> map_of dst k | Some v \<Rightarrow> Some v)"
proof (induction src arbitrary: dst)
  case Nil
  then show ?case by simp
next
  case (Cons kv src)
  obtain k' v' where kv: "kv = (k', v')" by (cases kv)
  have ok: "gomap_ok src" and "map_of src k' = None"
    using Cons.prems kv by (auto simp: gomap_ok_def map_of_eq_None_iff)
  then show ?case
    using kv Cons.IH [OF ok, of "AList.update k' v' dst"]
    by (cases "k = k'"; cases "map_of src k") (simp_all add: update_conv')
qed

lemma map_of_Some_set: "map_of m k = Some v \<Longrightarrow> (k, v) \<in> set m"
  by (rule map_of_SomeD)

lemma gomap_lookup_iff: "gomap_ok m \<Longrightarrow> map_of m k = Some v \<longleftrightarrow> (k, v) \<in> set m"
  by (simp add: gomap_ok_def)

text \<open>Two iteration orders of one map answer every lookup alike.\<close>

lemma gomap_order_irrelevant:
  assumes "gomap_ok m" and "mset m = mset m'"
  shows "gomap_ok m'" and "map_of m' k = map_of m k"
proof -
  have ms: "mset (map fst m) = mset (map fst m')"
    using assms(2) by (metis mset_map)
  then show ok: "gomap_ok m'"
    using assms(1) mset_eq_imp_distinct_iff [OF ms] by (simp add: gomap_ok_def)
  have s: "set m = set m'"
    using assms(2) by (rule mset_eq_setD)
  show "map_of m' k = map_of m k"
    using gomap_lookup_iff [OF assms(1)] gomap_lookup_iff [OF ok] s
    by (metis option.exhaust)
qed

section \<open>Transition systems\<close>

text \<open>
  Concurrent code is a step relation on a state. The states a run can be in are those
  reachable from an initial one; the interface of an invariant is that the initial states
  have it and that every step keeps it.
\<close>

inductive reachable :: "('s \<Rightarrow> bool) \<Rightarrow> ('s \<Rightarrow> 's \<Rightarrow> bool) \<Rightarrow> 's \<Rightarrow> bool"
  for init :: "'s \<Rightarrow> bool" and step :: "'s \<Rightarrow> 's \<Rightarrow> bool" where
  reach_init: "init s \<Longrightarrow> reachable init step s"
| reach_step: "reachable init step s \<Longrightarrow> step s t \<Longrightarrow> reachable init step t"

locale invariant_system =
  fixes init :: "'s \<Rightarrow> bool"
    and step :: "'s \<Rightarrow> 's \<Rightarrow> bool"
    and inv :: "'s \<Rightarrow> bool"
  assumes inv_init: "init s \<Longrightarrow> inv s"
    and inv_step: "inv s \<Longrightarrow> step s t \<Longrightarrow> inv t"
begin

lemma inv_reachable: "reachable init step s \<Longrightarrow> inv s"
  by (induction rule: reachable.induct) (auto intro: inv_init inv_step)

lemma inv_steps: "step\<^sup>*\<^sup>* s t \<Longrightarrow> inv s \<Longrightarrow> inv t"
  by (induction rule: rtranclp_induct) (auto intro: inv_step)

end

text \<open>
  A system with a measure that every step decreases stops: no run is infinite, so a state from
  which no step is possible is reached.
\<close>

locale terminating_system = invariant_system +
  fixes rank :: "'s \<Rightarrow> nat"
  assumes rank_step: "inv s \<Longrightarrow> step s t \<Longrightarrow> rank t < rank s"
begin

lemma reaches_final:
  "inv s \<Longrightarrow> \<exists>t. step\<^sup>*\<^sup>* s t \<and> (\<forall>u. \<not> step t u)"
proof (induction "rank s" arbitrary: s rule: less_induct)
  case less
  show ?case
  proof (cases "\<exists>t. step s t")
    case False
    then show ?thesis by blast
  next
    case True
    then obtain t where t: "step s t" by blast
    have "rank t < rank s" and "inv t"
      using less.prems t rank_step inv_step by blast+
    then obtain u where "step\<^sup>*\<^sup>* t u" and "\<forall>v. \<not> step u v"
      using less.hyps by blast
    then show ?thesis
      using t by (meson converse_rtranclp_into_rtranclp)
  qed
qed

lemma steps_bounded: "(step ^^ n) s t \<Longrightarrow> inv s \<Longrightarrow> n + rank t \<le> rank s"
proof (induction n arbitrary: t)
  case 0
  then show ?case by simp
next
  case (Suc n)
  then obtain u where u: "(step ^^ n) s u" "step u t" by auto
  have "inv u"
    using u(1) Suc.prems(2) by (blast intro: inv_steps dest: relpowp_imp_rtranclp)
  then show ?case
    using Suc.IH [OF u(1) Suc.prems(2)] rank_step [OF _ u(2)] by simp
qed

end

end
