(* ===== verification/Go_Strings.thy ===== *)
theory Go_Strings
  imports Prelude
begin

text \<open>
  The part of Go's \<open>strings\<close>, \<open>bytes\<close>, \<open>strconv\<close> and \<open>fmt\<close> packages that the program calls.
  A Go string is a sequence of bytes, here a \<^typ>\<open>string\<close> (a list of 8-bit characters). The lemmas
  relate each operation to the list library: searching to \<^const>\<open>sublist\<close>, replacing to joining the
  pieces between the occurrences.
\<close>

section \<open>Searching\<close>

definition has_prefix :: "'a list \<Rightarrow> 'a list \<Rightarrow> bool" where
  "has_prefix s p \<longleftrightarrow> take (length p) s = p"

definition has_suffix :: "'a list \<Rightarrow> 'a list \<Rightarrow> bool" where
  "has_suffix s p \<longleftrightarrow> drop (length s - length p) s = p"

fun contains :: "'a list \<Rightarrow> 'a list \<Rightarrow> bool" where
  "contains [] p = (p = [])"
| "contains (c # s) p = (has_prefix (c # s) p \<or> contains s p)"

definition trim_suffix :: "'a list \<Rightarrow> 'a list \<Rightarrow> 'a list" where
  "trim_suffix s p = (if has_suffix s p then take (length s - length p) s else s)"

lemma has_prefix_iff: "has_prefix s p \<longleftrightarrow> prefix p s"
  by (metis append_eq_conv_conj has_prefix_def prefix_def take_is_prefix)

lemma has_prefix_append [simp]: "has_prefix (p @ s) p"
  by (simp add: has_prefix_def)

lemma has_suffix_iff: "has_suffix s p \<longleftrightarrow> suffix p s"
  by (metis append_eq_conv_conj append_take_drop_id has_suffix_def length_drop length_append
      suffix_def add_diff_cancel_right')

lemma contains_iff: "contains s p \<longleftrightarrow> sublist p s"
  by (induction s) (auto simp: has_prefix_iff sublist_Cons_right)

lemma contains_appendI: "contains a p \<Longrightarrow> contains (a @ b) p" "contains b p \<Longrightarrow> contains (a @ b) p"
  by (auto simp: contains_iff sublist_append)

lemma contains_length: "contains s p \<Longrightarrow> length p \<le> length s"
  by (auto simp: contains_iff dest: sublist_length_le)

text \<open>
  Where a marker's first and last characters do not occur in \<open>t\<close>, an occurrence of \<open>t\<close> in text
  around the marker cannot straddle it.
\<close>

lemma contains_around_marker:
  assumes "mk \<noteq> []" and "hd mk \<notin> set t" and "last mk \<notin> set t"
    and occ: "contains (a @ mk @ b) t"
  shows "contains a t \<or> contains mk t \<or> contains b t"
proof (cases "contains a t")
  case False
  have "sublist t a \<or> sublist t (mk @ b) \<or> (\<exists>u v. t = u @ v \<and> suffix u a \<and> prefix v (mk @ b))"
    using occ by (simp add: contains_iff sublist_append)
  then consider "sublist t (mk @ b)"
    | u v where "t = u @ v" "suffix u a" "prefix v (mk @ b)"
    using False by (auto simp: contains_iff)
  then have "sublist t (mk @ b)"
  proof cases
    case 1
    then show ?thesis .
  next
    case 2
    then have "v = [] \<or> hd v = hd mk"
      using assms(1) by (metis hd_append2 prefix_def)
    then have "v = []"
      using 2(1) assms(2) by (metis Un_iff hd_in_set set_append)
    then have "sublist t a"
      using 2 by (simp add: suffix_imp_sublist)
    then show ?thesis
      using False by (simp add: contains_iff)
  qed
  then consider "sublist t mk" | "sublist t b"
    | u v where "t = u @ v" "suffix u mk" "prefix v b"
    by (auto simp: sublist_append)
  then show ?thesis
  proof cases
    case 3
    then have "u = [] \<or> last u = last mk"
      by (metis last_appendR suffix_def)
    then have "u = []"
      using 3(1) assms(3) by (metis Un_iff last_in_set set_append)
    then show ?thesis
      using 3 by (simp add: contains_iff prefix_imp_sublist)
  qed (simp_all add: contains_iff)
qed simp

section \<open>Splitting, joining, replacing\<close>

text \<open>\<open>strings.Split\<close> and \<open>strings.ReplaceAll\<close>, for the non-empty separators the program uses.\<close>

function split_str :: "'a list \<Rightarrow> 'a list \<Rightarrow> 'a list list" where
  "split_str s sep =
     (case s of [] \<Rightarrow> [[]]
      | c # s' \<Rightarrow>
          if sep \<noteq> [] \<and> has_prefix s sep then [] # split_str (drop (length sep) s) sep
          else (c # hd (split_str s' sep)) # tl (split_str s' sep))"
  by pat_completeness auto
termination
  by (relation "measure (\<lambda>(s, sep). length s)") auto

function replace_all :: "'a list \<Rightarrow> 'a list \<Rightarrow> 'a list \<Rightarrow> 'a list" where
  "replace_all s old new =
     (case s of [] \<Rightarrow> []
      | c # s' \<Rightarrow>
          if old \<noteq> [] \<and> has_prefix s old then new @ replace_all (drop (length old) s) old new
          else c # replace_all s' old new)"
  by pat_completeness auto
termination
  by (relation "measure (\<lambda>(s, old, new). length s)") auto

declare split_str.simps [simp del] replace_all.simps [simp del]

fun join :: "'a list list \<Rightarrow> 'a list \<Rightarrow> 'a list" where
  "join [] sep = []"
| "join [x] sep = x"
| "join (x # y # xs) sep = x @ sep @ join (y # xs) sep"

lemma split_str_Nil [simp]: "split_str [] sep = [[]]"
  by (subst split_str.simps) simp

lemma split_str_hit:
  "s \<noteq> [] \<Longrightarrow> sep \<noteq> [] \<Longrightarrow> has_prefix s sep \<Longrightarrow>
   split_str s sep = [] # split_str (drop (length sep) s) sep"
  by (subst split_str.simps) (auto split: list.splits)

lemma split_str_miss:
  "\<not> (sep \<noteq> [] \<and> has_prefix (c # s) sep) \<Longrightarrow>
   split_str (c # s) sep = (c # hd (split_str s sep)) # tl (split_str s sep)"
  by (subst split_str.simps) auto

lemma replace_all_Nil [simp]: "replace_all [] old new = []"
  by (subst replace_all.simps) simp

lemma replace_all_hit:
  "s \<noteq> [] \<Longrightarrow> old \<noteq> [] \<Longrightarrow> has_prefix s old \<Longrightarrow>
   replace_all s old new = new @ replace_all (drop (length old) s) old new"
  by (subst replace_all.simps) (auto split: list.splits)

lemma replace_all_miss:
  "\<not> (old \<noteq> [] \<and> has_prefix (c # s) old) \<Longrightarrow>
   replace_all (c # s) old new = c # replace_all s old new"
  by (subst replace_all.simps) auto

lemma split_str_neq_Nil [simp]: "split_str s sep \<noteq> []"
  by (subst split_str.simps) (auto split: list.splits)

lemma join_Cons: "xs \<noteq> [] \<Longrightarrow> join (x # xs) sep = x @ sep @ join xs sep"
  by (cases xs) auto

lemma join_Cons_hd: "join ((c # x) # xs) sep = c # join (x # xs) sep"
  by (cases xs) auto

lemma replace_all_conv_join:
  "old \<noteq> [] \<Longrightarrow> replace_all s old new = join (split_str s old) new"
proof (induction s old new rule: replace_all.induct)
  case (1 s old new)
  show ?case
  proof (cases s)
    case Nil
    then show ?thesis by simp
  next
    case (Cons c s')
    show ?thesis
    proof (cases "has_prefix s old")
      case True
      then show ?thesis
        using 1 Cons by (simp add: replace_all_hit split_str_hit join_Cons)
    next
      case False
      have IH: "replace_all s' old new = join (split_str s' old) new"
        using "1.IH"(2) [OF Cons] False "1.prems" by simp
      then show ?thesis
        using False Cons
        by (simp add: replace_all_miss split_str_miss join_Cons_hd)
    qed
  qed
qed

lemma has_prefix_append_drop: "has_prefix s p \<Longrightarrow> p @ drop (length p) s = s"
  by (metis append_take_drop_id has_prefix_def)

lemma join_split: "sep \<noteq> [] \<Longrightarrow> join (split_str s sep) sep = s"
proof (induction s sep rule: split_str.induct)
  case (1 s sep)
  show ?case
  proof (cases s)
    case (Cons c s')
    show ?thesis
    proof (cases "has_prefix s sep")
      case True
      then show ?thesis
        using "1.IH"(1) [OF Cons] "1.prems" Cons
        by (simp add: split_str_hit join_Cons has_prefix_append_drop)
    next
      case False
      then have "join (split_str s' sep) sep = s'"
        using "1.IH"(2) [OF Cons] "1.prems" by simp
      then show ?thesis
        using False Cons by (simp add: split_str_miss join_Cons_hd)
    qed
  qed simp
qed

lemma split_str_first_prefix: "prefix (hd (split_str s sep)) s"
proof (induction s sep rule: split_str.induct)
  case (1 s sep)
  show ?case
  proof (cases s)
    case (Cons c s')
    then show ?thesis
      using "1.IH"(2) [OF Cons]
      by (cases "sep \<noteq> [] \<and> has_prefix s sep") (auto simp: split_str_hit split_str_miss)
  qed simp
qed

lemma split_str_pieces:
  "sep \<noteq> [] \<Longrightarrow> p \<in> set (split_str s sep) \<Longrightarrow> \<not> contains p sep \<and> sublist p s"
proof (induction s sep arbitrary: p rule: split_str.induct)
  case (1 s sep)
  show ?case
  proof (cases s)
    case Nil
    then show ?thesis using 1 by simp
  next
    case (Cons c s')
    show ?thesis
    proof (cases "has_prefix s sep")
      case True
      then have "p = [] \<or> p \<in> set (split_str (drop (length sep) s) sep)"
        using "1.prems" Cons by (simp add: split_str_hit)
      then show ?thesis
      proof
        assume p: "p \<in> set (split_str (drop (length sep) s) sep)"
        have "\<not> contains p sep \<and> sublist p (drop (length sep) s)"
          using "1.IH"(1) [OF Cons _ "1.prems"(1) p] True "1.prems"(1) by simp
        then show ?thesis
          by (meson sublist_drop sublist_order.order_trans)
      qed (use "1.prems" in simp)
    next
      case False
      let ?ps = "split_str s' sep"
      have IH: "\<And>q. q \<in> set ?ps \<Longrightarrow> \<not> contains q sep \<and> sublist q s'"
        using "1.IH"(2) [OF Cons] False "1.prems"(1) by simp
      have "p = c # hd ?ps \<or> p \<in> set ?ps"
        using "1.prems" Cons False
        by (auto simp: split_str_miss dest: list.set_sel(2) [rotated])
      then show ?thesis
      proof
        assume p: "p = c # hd ?ps"
        have "prefix p s"
          using p Cons split_str_first_prefix by simp
        moreover have "\<not> contains (hd ?ps) sep"
          using IH by simp
        ultimately show ?thesis
          using False p
          by (metis contains.simps(2) contains_iff has_prefix_iff prefix_imp_sublist
              prefix_order.order_trans)
      next
        assume "p \<in> set ?ps"
        then show ?thesis
          using IH Cons by (auto simp: sublist_Cons_right)
      qed
    qed
  qed
qed

lemma contains_join_marker:
  assumes "mk \<noteq> []" and "hd mk \<notin> set t" and "last mk \<notin> set t"
    and "contains (join ps mk) t" and "t \<noteq> []"
  shows "contains mk t \<or> (\<exists>p \<in> set ps. contains p t)"
  using assms
proof (induction ps mk rule: join.induct)
  case (3 x y xs sep)
  then show ?case
    using contains_around_marker [OF "3.prems"(1-3), of x "join (y # xs) sep"] by auto
qed auto

text \<open>
  Replacing every occurrence of \<open>old\<close> by a marker: a word whose characters avoid the marker's
  ends occurs in the result only where it occurred before, or inside the marker.
\<close>

lemma contains_replace_all:
  assumes "old \<noteq> []" and "mk \<noteq> []" and "hd mk \<notin> set t" and "last mk \<notin> set t" and "t \<noteq> []"
    and "contains (replace_all s old mk) t"
  shows "contains mk t \<or> (contains s t \<and> t \<noteq> old)"
proof -
  have "contains mk t \<or> (\<exists>p \<in> set (split_str s old). contains p t)"
    using contains_join_marker [OF assms(2-4) _ assms(5)] assms(1,6) by (simp add: replace_all_conv_join)
  then show ?thesis
    using split_str_pieces [OF assms(1)] by (metis contains_iff sublist_order.order_trans)
qed

lemma replace_all_absent: "\<not> contains s old \<Longrightarrow> replace_all s old new = s"
proof (induction s)
  case (Cons c s)
  then show ?case by (simp add: replace_all_miss)
qed simp

section \<open>Cutting and trimming\<close>

text \<open>\<open>strings.Cut\<close> at a one-byte separator; \<open>None\<close> when it is absent.\<close>

definition strings_cut :: "'a list \<Rightarrow> 'a \<Rightarrow> ('a list \<times> 'a list) option" where
  "strings_cut s c = (if c \<in> set s then Some (takeWhile (\<lambda>x. x \<noteq> c) s, tl (dropWhile (\<lambda>x. x \<noteq> c) s)) else None)"

lemma strings_cut_append: "c \<notin> set k \<Longrightarrow> strings_cut (k @ c # v) c = Some (k, v)"
  by (induction k) (auto simp: strings_cut_def)

lemma strings_cut_SomeD: "strings_cut s c = Some (k, v) \<Longrightarrow> s = k @ c # v \<and> c \<notin> set k"
proof -
  assume a: "strings_cut s c = Some (k, v)"
  then have c: "c \<in> set s" and k: "k = takeWhile (\<lambda>x. x \<noteq> c) s"
    and v: "v = tl (dropWhile (\<lambda>x. x \<noteq> c) s)"
    by (auto simp: strings_cut_def split: if_splits)
  have ne: "dropWhile (\<lambda>x. x \<noteq> c) s \<noteq> []"
    using c by auto
  then have "dropWhile (\<lambda>x. x \<noteq> c) s = c # v"
    using v hd_dropWhile [OF ne] by (metis list.collapse)
  then show ?thesis
    using k takeWhile_dropWhile_id [of "\<lambda>x. x \<noteq> c" s] by (auto dest: set_takeWhileD)
qed

text \<open>\<open>strings.TrimRight(s, "\n")\<close>.\<close>

definition trim_right :: "char \<Rightarrow> string \<Rightarrow> string" where
  "trim_right c s = rev (dropWhile (\<lambda>x. x = c) (rev s))"

text \<open>
  \<open>strings.TrimSpace\<close> removes Unicode white space, which in UTF-8 is one of these byte
  sequences: the six ASCII ones, U+0085, U+00A0, U+1680, U+2000 to U+200A, U+2028, U+2029,
  U+202F, U+205F and U+3000.
\<close>

definition byte :: "nat \<Rightarrow> char" where
  "byte n = char_of n"

definition white_space :: "string list" where
  "white_space =
     map (\<lambda>n. [byte n]) [9, 10, 11, 12, 13, 32] @
     [[byte 194, byte 133], [byte 194, byte 160], [byte 225, byte 154, byte 128]] @
     map (\<lambda>n. [byte 226, byte 128, byte n])
       [128, 129, 130, 131, 132, 133, 134, 135, 136, 137, 138, 168, 169, 175] @
     [[byte 226, byte 129, byte 159], [byte 227, byte 128, byte 128]]"

function drop_words :: "string list \<Rightarrow> string \<Rightarrow> string" where
  "drop_words ws s =
     (case find (\<lambda>w. w \<noteq> [] \<and> has_prefix s w) ws of
        None \<Rightarrow> s
      | Some w \<Rightarrow> drop_words ws (drop (length w) s))"
  by pat_completeness auto
termination
proof (relation "measure (\<lambda>(ws, s). length s)", simp, clarsimp simp: find_Some_iff)
  fix ws :: "string list" and s :: string and i
  assume "ws ! i \<noteq> []" and "has_prefix s (ws ! i)"
  then have "s \<noteq> []"
    by (auto simp: has_prefix_def)
  then show "length s - length (ws ! i) < length s"
    using \<open>ws ! i \<noteq> []\<close> by simp
qed

declare drop_words.simps [simp del]

definition trim_space :: "string \<Rightarrow> string" where
  "trim_space s = rev (drop_words (map rev white_space) (rev (drop_words white_space s)))"

section \<open>Formatting\<close>

text \<open>\<open>strconv.Itoa\<close> and the \<open>%d\<close> verb.\<close>

definition digit_char :: "nat \<Rightarrow> char" where
  "digit_char n = byte (48 + n mod 10)"

fun nat_string :: "nat \<Rightarrow> string" where
  "nat_string n = (if n < 10 then [digit_char n] else nat_string (n div 10) @ [digit_char n])"

declare nat_string.simps [simp del]

definition itoa :: "int \<Rightarrow> string" where
  "itoa i = (if i < 0 then ''-'' @ nat_string (nat (- i)) else nat_string (nat i))"

text \<open>Reading decimal digits back; printing an integer loses nothing.\<close>

definition digit_val :: "char \<Rightarrow> nat" where
  "digit_val c = of_char c - 48"

definition nat_of_string :: "string \<Rightarrow> nat" where
  "nat_of_string s = foldl (\<lambda>n c. 10 * n + digit_val c) 0 s"

lemma digit_val_digit_char [simp]: "digit_val (digit_char n) = n mod 10"
proof -
  have "n mod 10 < 10" by simp
  then have "48 + n mod 10 < 256" by linarith
  then show ?thesis
    by (simp add: digit_val_def digit_char_def byte_def)
qed

lemma nat_of_string_nat_string: "nat_of_string (nat_string n) = n"
proof (induction n rule: nat_string.induct)
  case (1 n)
  then show ?case
    by (subst nat_string.simps) (simp add: nat_of_string_def)
qed

lemma digit_char_not_minus: "digit_char n \<noteq> CHR ''-''"
proof -
  have "digit_val (digit_char n) < 10" by simp
  show ?thesis
  proof
    assume a: "digit_char n = CHR ''-''"
    then have "of_char (digit_char n) = (45 :: nat)" by simp
    moreover have "of_char (digit_char n) = (48 + n mod 10 :: nat)"
      using mod_less_divisor [of 10 n] by (simp add: digit_char_def byte_def)
    ultimately show False by simp
  qed
qed

lemma nat_string_hd: "\<exists>m s. nat_string n = digit_char m # s"
proof (induction n rule: nat_string.induct)
  case (1 n)
  show ?case
  proof (cases "n < 10")
    case True
    then show ?thesis by (subst nat_string.simps) auto
  next
    case False
    with 1 show ?thesis by (subst nat_string.simps) auto
  qed
qed

lemma itoa_inject: "itoa i = itoa j \<longleftrightarrow> i = j"
proof
  assume eq: "itoa i = itoa j"
  have m: "nat_string n \<noteq> ''-'' @ s" for n s
    using nat_string_hd [of n] digit_char_not_minus
    by (metis append_Cons list.inject)
  have "(i < 0) = (j < 0)"
    using eq m by (auto simp: itoa_def split: if_splits) (metis append_Cons append_Nil)+
  then show "i = j"
    using eq nat_of_string_nat_string
    by (auto simp: itoa_def split: if_splits) (metis eq_nat_nat_iff linorder_not_less
        neg_le_0_iff_le neg_equal_iff_equal order_less_imp_le nat_0_le)+
qed simp

text \<open>
  The \<open>%q\<close> verb (\<open>strconv.Quote\<close>): a double-quoted literal with Go's escapes. Bytes from 128
  on are kept as they are, as \<open>strconv.Quote\<close> does for the UTF-8 encoding of a printable rune.
\<close>

definition hex_char :: "nat \<Rightarrow> char" where
  "hex_char n = (if n < 10 then byte (48 + n) else byte (87 + n))"

definition quote_char :: "char \<Rightarrow> string" where
  "quote_char c =
     (let n = of_char c :: nat in
      if n = 34 then [byte 92, byte 34]
      else if n = 92 then [byte 92, byte 92]
      else if n = 7 then [byte 92, CHR ''a'']
      else if n = 8 then [byte 92, CHR ''b'']
      else if n = 9 then [byte 92, CHR ''t'']
      else if n = 10 then [byte 92, CHR ''n'']
      else if n = 11 then [byte 92, CHR ''v'']
      else if n = 12 then [byte 92, CHR ''f'']
      else if n = 13 then [byte 92, CHR ''r'']
      else if n < 32 \<or> n = 127 then [byte 92, CHR ''x'', hex_char (n div 16), hex_char (n mod 16)]
      else [c])"

definition fmt_q :: "string \<Rightarrow> string" where
  "fmt_q s = [byte 34] @ concat (map quote_char s) @ [byte 34]"

end
