(* ===== verification/Domain.thy ===== *)
theory Domain
  imports Go_Strings
begin

text \<open>
  Package \<open>internal/domain\<close>: the statuses and failure categories of hosts and steps, classified
  failures, credentials, endpoints and resolved targets. Go errors are a datatype whose
  constructors are the error values the program inspects with \<open>errors.Is\<close> and \<open>errors.As\<close>.
\<close>

section \<open>Statuses and categories\<close>

datatype Status = StatusSuccess | StatusFailed | StatusSkipped | StatusCancelled

fun status_string :: "Status \<Rightarrow> string" where
  "status_string StatusSuccess = ''SUCCESS''"
| "status_string StatusFailed = ''FAILED''"
| "status_string StatusSkipped = ''SKIPPED''"
| "status_string StatusCancelled = ''CANCELLED''"

datatype Category =
    CatConnectionTimeout | CatConnectionRefused | CatDNSFailure | CatAuthFailed
  | CatHostKeyMismatch | CatHostKeyUnknown | CatHandshakeFailed | CatSessionFailed
  | CatCommandTimeout | CatCommandFailed | CatTemplateError | CatCancelled | CatInternalError

fun category_string :: "Category \<Rightarrow> string" where
  "category_string CatConnectionTimeout = ''CONNECTION_TIMEOUT''"
| "category_string CatConnectionRefused = ''CONNECTION_REFUSED''"
| "category_string CatDNSFailure = ''DNS_FAILURE''"
| "category_string CatAuthFailed = ''AUTH_FAILED''"
| "category_string CatHostKeyMismatch = ''HOST_KEY_MISMATCH''"
| "category_string CatHostKeyUnknown = ''HOST_KEY_UNKNOWN''"
| "category_string CatHandshakeFailed = ''SSH_HANDSHAKE_FAILED''"
| "category_string CatSessionFailed = ''SESSION_FAILED''"
| "category_string CatCommandTimeout = ''COMMAND_TIMEOUT''"
| "category_string CatCommandFailed = ''COMMAND_FAILED''"
| "category_string CatTemplateError = ''TEMPLATE_ERROR''"
| "category_string CatCancelled = ''CANCELLED''"
| "category_string CatInternalError = ''INTERNAL_ERROR''"

instantiation Category :: enum
begin

definition enum_Category_def:
  "enum_class.enum =
     [CatConnectionTimeout, CatConnectionRefused, CatDNSFailure, CatAuthFailed,
      CatHostKeyMismatch, CatHostKeyUnknown, CatHandshakeFailed, CatSessionFailed,
      CatCommandTimeout, CatCommandFailed, CatTemplateError, CatCancelled, CatInternalError]"

definition enum_all_Category_def:
  "enum_class.enum_all P = list_all P (enum_class.enum :: Category list)"

definition enum_ex_Category_def:
  "enum_class.enum_ex P = list_ex P (enum_class.enum :: Category list)"

instance
proof
  show univ: "(UNIV :: Category set) = set enum_class.enum"
    unfolding enum_Category_def by (auto intro: Category.exhaust)
  show "distinct (enum_class.enum :: Category list)"
    unfolding enum_Category_def by simp
  fix P :: "Category \<Rightarrow> bool"
  show "enum_class.enum_all P \<longleftrightarrow> Ball UNIV P"
    unfolding enum_all_Category_def univ by (simp add: list_all_iff)
  show "enum_class.enum_ex P \<longleftrightarrow> Bex UNIV P"
    unfolding enum_ex_Category_def univ by (simp add: list_ex_iff)
qed

end

fun Retryable :: "Category \<Rightarrow> bool" where
  "Retryable CatConnectionTimeout = True"
| "Retryable CatConnectionRefused = True"
| "Retryable CatHandshakeFailed = True"
| "Retryable CatSessionFailed = True"
| "Retryable _ = False"

section \<open>Failures and errors\<close>

record Failure =
  Category :: Category
  Reason :: string

abbreviation Fail :: "Category \<Rightarrow> string \<Rightarrow> Failure" where
  "Fail c r \<equiv> \<lparr>Category = c, Reason = r\<rparr>"

definition Failure_Error :: "Failure \<Rightarrow> string" where
  "Failure_Error f = category_string (Category f) @ '': '' @ Reason f"

text \<open>
  Error values. \<open>EMsg\<close> is an error known by its text only; \<open>EWrap\<close> wraps another error and
  prints as its own text (\<open>fmt.Errorf\<close> with \<open>%w\<close>, \<open>net.OpError\<close>); its flag is what its
  \<open>Timeout\<close> method answers where it has one.
\<close>

datatype Errno = ECONNREFUSED | EHOSTUNREACH | ENETUNREACH | ETIMEDOUT | EOTHER

datatype go_error =
    EFailure Failure
  | EMsg string
  | ECanceled
  | EDeadlineExceeded
  | EEOF
  | EErrno Errno string
  | EDNS bool string string
  | EKey "string list"
  | EOpenChannel string
  | EExit int
  | EExitMissing
  | EWrap string "bool option" go_error

fun err_chain :: "go_error \<Rightarrow> go_error list" where
  "err_chain (EWrap m t e) = EWrap m t e # err_chain e"
| "err_chain e = [e]"

fun err_string :: "go_error \<Rightarrow> string" where
  "err_string (EFailure f) = Failure_Error f"
| "err_string (EMsg m) = m"
| "err_string ECanceled = ''context canceled''"
| "err_string EDeadlineExceeded = ''context deadline exceeded''"
| "err_string EEOF = ''EOF''"
| "err_string (EErrno _ m) = m"
| "err_string (EDNS _ name m) = ''lookup '' @ name @ '': '' @ m"
| "err_string (EKey want) =
     (if want = [] then ''knownhosts: key is unknown'' else ''knownhosts: key mismatch'')"
| "err_string (EOpenChannel m) = m"
| "err_string (EExit n) = ''Process exited with status '' @ itoa n"
| "err_string EExitMissing = ''wait: remote command exited without exit status or exit signal''"
| "err_string (EWrap m _ _) = m"

definition errors_is :: "go_error \<Rightarrow> go_error \<Rightarrow> bool" where
  "errors_is e target \<longleftrightarrow> target \<in> set (err_chain e)"

definition as_failure :: "go_error \<Rightarrow> Failure option" where
  "as_failure e = List.find (\<lambda>_. True) (List.map_filter (\<lambda>x. case x of EFailure f \<Rightarrow> Some f | _ \<Rightarrow> None) (err_chain e))"

text \<open>\<open>AsFailure\<close>; its nil case is the caller's \<open>if err != nil\<close>.\<close>

definition AsFailure :: "go_error \<Rightarrow> Failure" where
  "AsFailure e = (case as_failure e of Some f \<Rightarrow> f | None \<Rightarrow> Fail CatInternalError (err_string e))"

lemma AsFailure_EFailure [simp]: "AsFailure (EFailure f) = f"
  by (simp add: AsFailure_def as_failure_def map_filter_def)

lemma AsFailure_EWrap: "as_failure (EWrap m t e) = as_failure e"
  by (simp add: as_failure_def map_filter_def)

lemma as_failure_None_iff: "as_failure e = None \<longleftrightarrow> (\<forall>f. EFailure f \<notin> set (err_chain e))"
  by (induction e) (auto simp: as_failure_def map_filter_def)

section \<open>Credentials, endpoints, targets\<close>

record Credential =
  cred_Name :: string
  cred_Type :: string
  cred_Username :: string
  cred_PasswordEnv :: string
  cred_KeyFile :: string
  cred_PassphraseEnv :: string
  cred_SudoPasswordEnv :: string

record Endpoint =
  ep_Name :: string
  ep_Address :: string
  ep_Port :: int
  ep_Username :: string
  ep_Credential :: Credential

text \<open>\<open>Target\<close> embeds \<open>Endpoint\<close>, so it extends the record.\<close>

record Target = Endpoint +
  tg_Group :: string
  tg_Tags :: "string list"
  tg_Variables :: "(string, string) gomap"
  tg_Bastion :: "Endpoint option"

text \<open>\<open>net.JoinHostPort\<close> brackets an address with a colon (IPv6).\<close>

definition JoinHostPort :: "string \<Rightarrow> string \<Rightarrow> string" where
  "JoinHostPort host port =
     (if CHR '':'' \<in> set host then ''['' @ host @ '']:'' @ port else host @ '':'' @ port)"

definition Addr :: "'a Endpoint_scheme \<Rightarrow> string" where
  "Addr e = JoinHostPort (ep_Address e) (itoa (ep_Port e))"

definition SensitiveMask :: string where
  "SensitiveMask = ''[SENSITIVE]''"

lemma nat_string_no_colon: "CHR '':'' \<notin> set (nat_string n)"
proof (induction n rule: nat_string.induct)
  case (1 n)
  have d: "digit_char m \<noteq> CHR '':''" for m
  proof
    assume "digit_char m = CHR '':''"
    then have "digit_val (digit_char m) = 10" by (simp add: digit_val_def)
    then show False using mod_less_divisor [of 10 m] by simp
  qed
  show ?case
    using 1 d [symmetric] by (subst nat_string.simps) auto
qed

lemma itoa_no_colon: "CHR '':'' \<notin> set (itoa i)"
  by (simp add: itoa_def nat_string_no_colon)

lemma append_colon_inject:
  assumes "c \<notin> set p" and "c \<notin> set q" and "a @ c # p = b @ c # q"
  shows "a = b \<and> p = q"
proof -
  have eq: "rev p @ c # rev a = rev q @ c # rev b"
    using arg_cong [OF assms(3), of rev] by simp
  have "strings_cut (rev p @ c # rev a) c = Some (rev p, rev a)"
    using assms(1) by (intro strings_cut_append) simp
  moreover have "strings_cut (rev q @ c # rev b) c = Some (rev q, rev b)"
    using assms(2) by (intro strings_cut_append) simp
  ultimately have "Some (rev p, rev a) = Some (rev q, rev b)"
    unfolding eq by metis
  then show ?thesis by simp
qed

lemma JoinHostPort_inject:
  assumes "CHR '':'' \<notin> set p" and "CHR '':'' \<notin> set p'"
    and "JoinHostPort h p = JoinHostPort h' p'"
  shows "h = h' \<and> p = p'"
proof -
  let ?w = "\<lambda>h. if CHR '':'' \<in> set h then ''['' @ h @ '']'' else h"
  have j: "JoinHostPort h p = ?w h @ CHR '':'' # p" for h p
    by (simp add: JoinHostPort_def)
  have "?w h @ CHR '':'' # p = ?w h' @ CHR '':'' # p'"
    using assms(3) by (simp only: j)
  from append_colon_inject [OF assms(1,2) this]
  have w: "?w h = ?w h'" and p: "p = p'" by blast+
  have "(CHR '':'' \<in> set h) = (CHR '':'' \<in> set h')"
    using arg_cong [OF w, of "\<lambda>x. CHR '':'' \<in> set x"] by (simp split: if_splits)
  with w have "h = h'"
    by (cases "CHR '':'' \<in> set h") simp_all
  with p show ?thesis by simp
qed

text \<open>
  The dial address determines the endpoint: two endpoints with the same \<open>host:port\<close> string
  have the same address and the same port, IPv6 literals included.
\<close>

theorem Addr_inject:
  "Addr (e :: Endpoint) = Addr (e' :: Endpoint) \<longleftrightarrow> ep_Address e = ep_Address e' \<and> ep_Port e = ep_Port e'"
proof
  assume "Addr e = Addr e'"
  from JoinHostPort_inject [OF itoa_no_colon itoa_no_colon this [unfolded Addr_def]]
  show "ep_Address e = ep_Address e' \<and> ep_Port e = ep_Port e'"
    by (simp add: itoa_inject)
qed (simp add: Addr_def)

end
