(* ===== verification/Job_Types.thy ===== *)
theory Job_Types
  imports Domain
begin

text \<open>
  The data of \<open>internal/job/job.go\<close>: a job file with its variables, defaults and steps. Durations
  are nanoseconds. A pointer field that may be nil and a slice whose nil value is told apart from
  an empty one (\<open>reflect.DeepEqual\<close> on \<open>Expect\<close>) are options.
\<close>

type_synonym duration = int

definition Second :: duration where
  "Second = 1000000000"

definition Minute :: duration where
  "Minute = 60 * Second"

definition Hour :: duration where
  "Hour = 60 * Minute"

lemmas duration_defs = Second_def Minute_def Hour_def

definition MaxFileSize :: int where "MaxFileSize = 2 ^ 20"
definition MaxCopySize :: int where "MaxCopySize = 10 * 2 ^ 20"
definition MaxRetries :: int where "MaxRetries = 10"
definition MaxTimeout :: duration where "MaxTimeout = 24 * Hour"
definition MaxRegexLen :: nat where "MaxRegexLen = 1024"
definition DefaultMode :: string where "DefaultMode = ''0644''"

record Variable =
  var_Required :: bool
  var_Default :: "string option"
  var_Sensitive :: bool
  var_Description :: string

record Defaults =
  def_Timeout :: duration
  def_Retries :: int
  def_RetryDelay :: duration
  def_Sudo :: bool

record Copy =
  copy_Src :: string
  copy_Dest :: string
  copy_Mode :: string
  copy_Template :: bool
  copy_body :: "string option"

record Expect =
  ex_ExitCode :: "int option"
  ex_Contains :: "string list option"
  ex_NotContains :: "string list option"
  ex_Regex :: string

record Step =
  st_Name :: string
  st_Description :: string
  st_Command :: string
  st_Script :: string
  st_Copy :: "Copy option"
  st_Sudo :: "bool option"
  st_Expect :: Expect
  st_Timeout :: duration
  st_Retries :: "int option"
  st_RetryDelay :: duration
  st_ContinueOnError :: bool
  st_Sensitive :: bool
  st_Reboot :: bool
  st_Disconnect :: bool
  st_ReconnectTimeout :: duration
  st_FireAndForget :: bool
  st_scriptBody :: string

record Job =
  job_Name :: string
  job_Description :: string
  job_Version :: string
  job_MaxFailures :: string
  job_Variables :: "(string, Variable) gomap"
  job_Defaults :: Defaults
  job_Steps :: "Step list"
  job_Hash :: string
  job_Path :: string

text \<open>The zero \<open>Expect\<close> and the elements of a possibly nil \<open>StringList\<close>.\<close>

definition Expect_zero :: Expect where
  "Expect_zero = \<lparr>ex_ExitCode = None, ex_Contains = None, ex_NotContains = None, ex_Regex = ''''\<rparr>"

definition elems :: "'a list option \<Rightarrow> 'a list" where
  "elems l = (case l of None \<Rightarrow> [] | Some xs \<Rightarrow> xs)"

lemma elems_simps [simp]: "elems None = []" "elems (Some xs) = xs"
  by (simp_all add: elems_def)

text \<open>The aggregated error of validation is its list of issues; \<open>Error\<close> prints it.\<close>

type_synonym issues = "string list"

definition ValidationError_Error :: "issues \<Rightarrow> string" where
  "ValidationError_Error iss = ''job invalid: '' @ join iss ''; ''"

end
