(* ===== verification/Variables.thy ===== *)
theory Variables
  imports Job_Types
begin

text \<open>
  \<open>internal/job/variables.go\<close>: the template syntax \<open>{{ .name }}\<close>, its references and rendering,
  the check of variable values, and the resolution of a host's variables from their sources.

  The regular expressions of the source match without backtracking (the character classes that
  follow each other are disjoint), so each is a left-to-right scanner: \<open>match_ref\<close> is \<open>refPattern\<close>
  anchored at the current position, \<open>find_refs\<close> and \<open>find_opens\<close> are the \<open>FindAll\<close> loops.
\<close>

section \<open>Template scanning\<close>

definition is_re_space :: "char \<Rightarrow> bool" where
  "is_re_space c \<longleftrightarrow> of_char c \<in> ({9, 10, 12, 13, 32} :: nat set)"

definition is_alpha_us :: "char \<Rightarrow> bool" where
  "is_alpha_us c \<longleftrightarrow> (CHR ''A'' \<le> c \<and> c \<le> CHR ''Z'') \<or> (CHR ''a'' \<le> c \<and> c \<le> CHR ''z'') \<or> c = CHR ''_''"

definition is_digit :: "char \<Rightarrow> bool" where
  "is_digit c \<longleftrightarrow> CHR ''0'' \<le> c \<and> c \<le> CHR ''9''"

definition is_name_char :: "char \<Rightarrow> bool" where
  "is_name_char c \<longleftrightarrow> is_alpha_us c \<or> is_digit c"

definition match_ref :: "string \<Rightarrow> (string \<times> string) option" where
  "match_ref s =
     (if has_prefix s ''{{'' then
        (case dropWhile is_re_space (drop 2 s) of
           [] \<Rightarrow> None
         | d # s2 \<Rightarrow>
             let name = takeWhile is_name_char s2;
                 s3 = dropWhile is_re_space (dropWhile is_name_char s2)
             in if d = CHR ''.'' \<and> name \<noteq> [] \<and> is_alpha_us (hd name) \<and> has_prefix s3 ''}}''
                then Some (name, drop 2 s3) else None)
      else None)"

lemma match_ref_shorter: "match_ref s = Some (name, rest) \<Longrightarrow> length rest < length s"
proof -
  assume a: "match_ref s = Some (name, rest)"
  then have p: "has_prefix s ''{{''"
    by (auto simp: match_ref_def split: if_splits)
  then have s: "2 \<le> length s"
    by (auto simp: has_prefix_iff dest: prefix_length_le)
  obtain d s2 where d: "dropWhile is_re_space (drop 2 s) = d # s2"
    and r: "rest = drop 2 (dropWhile is_re_space (dropWhile is_name_char s2))"
    using a by (auto simp: match_ref_def Let_def split: if_splits list.splits)
  have "length (d # s2) \<le> length s - 2"
    using length_dropWhile_le [of is_re_space "drop 2 s"] d by simp
  moreover have "length rest \<le> length s2"
    using r length_dropWhile_le [of is_re_space "dropWhile is_name_char s2"]
      length_dropWhile_le [of is_name_char s2] by simp
  ultimately show ?thesis using s by simp
qed

function find_refs :: "nat \<Rightarrow> string \<Rightarrow> (nat \<times> string) list" where
  "find_refs pos s =
     (case s of [] \<Rightarrow> []
      | c # s' \<Rightarrow>
          (case match_ref s of
             None \<Rightarrow> find_refs (pos + 1) s'
           | Some (name, rest) \<Rightarrow> (pos, name) # find_refs (pos + (length s - length rest)) rest))"
  by pat_completeness auto
termination
  by (relation "measure (\<lambda>(pos, s). length s)") (auto dest: match_ref_shorter)

declare find_refs.simps [simp del]

fun find_opens :: "nat \<Rightarrow> string \<Rightarrow> nat list" where
  "find_opens pos (a # b # s) =
     (if a = CHR ''{'' \<and> b = CHR ''{'' then pos # find_opens (pos + 2) s
      else find_opens (pos + 1) (b # s))"
| "find_opens pos s = []"

definition template_error :: string where
  "template_error = ''template syntax: only {{ .variable }} is supported''"

definition References :: "string \<Rightarrow> string + string list" where
  "References s =
     (let valid = find_refs 0 s; opens = find_opens 0 s in
      if length opens \<noteq> length valid then Inl template_error
      else if map fst valid \<noteq> opens then Inl template_error
      else Inr (map snd valid))"

text \<open>\<open>ReplaceAllStringFunc\<close> with the closure of \<open>Render\<close>: the text with each reference replaced
  (by the empty string where the variable is missing) and the missing names in order.\<close>

function replace_refs :: "(string, string) gomap \<Rightarrow> string \<Rightarrow> string \<times> string list" where
  "replace_refs vars s =
     (case s of [] \<Rightarrow> ([], [])
      | c # s' \<Rightarrow>
          (case match_ref s of
             None \<Rightarrow> let (out, missing) = replace_refs vars s' in (c # out, missing)
           | Some (name, rest) \<Rightarrow>
               let (out, missing) = replace_refs vars rest in
               (case map_of vars name of
                  Some v \<Rightarrow> (v @ out, missing)
                | None \<Rightarrow> (out, name # missing))))"
  by pat_completeness auto
termination
  by (relation "measure (\<lambda>(vars, s). length s)") (auto dest: match_ref_shorter)

declare replace_refs.simps [simp del]

definition Render :: "string \<Rightarrow> (string, string) gomap \<Rightarrow> string + string" where
  "Render s vars =
     bind_result (References s) (\<lambda>_.
       let (out, missing) = replace_refs vars s in
       if missing \<noteq> [] then Inl (''missing variable(s): '' @ join missing '', '') else Inr out)"

section \<open>Values\<close>

definition is_control :: "char \<Rightarrow> bool" where
  "is_control c \<longleftrightarrow> (of_char c < (32 :: nat) \<and> c \<noteq> CHR 0x09) \<or> c = CHR 0x7F"

definition upper_hex :: "nat \<Rightarrow> char" where
  "upper_hex n = (if n < 10 then byte (48 + n) else byte (55 + n))"

text \<open>The bytes of a UTF-8 sequence longer than one are above 0x7f, so ranging over runes and
  over bytes find the same control characters.\<close>

definition CheckValue :: "string \<Rightarrow> string + unit" where
  "CheckValue v =
     (case List.find is_control v of
        None \<Rightarrow> Inr ()
      | Some c \<Rightarrow> Inl (''value contains control character U+00'' @
                    [upper_hex (of_char c div 16), upper_hex (of_char c mod 16)]))"

lemma CheckValue_ok_iff: "is_ok (CheckValue v) \<longleftrightarrow> (\<forall>c \<in> set v. \<not> is_control c)"
  by (auto simp: CheckValue_def find_None_iff find_Some_iff split: option.splits)

section \<open>Resolution\<close>

record Inputs =
  in_Host :: "(string, string) gomap"
  in_Job :: "(string, string) gomap"
  in_JobEnv :: "(string, string) gomap"

definition lookup_str :: "(string, string) gomap \<Rightarrow> string \<Rightarrow> string" where
  "lookup_str m k = (case map_of m k of None \<Rightarrow> '''' | Some v \<Rightarrow> v)"

definition default_vars :: "(string, Variable) gomap \<Rightarrow> (string, string) gomap" where
  "default_vars decls = List.map_filter (\<lambda>(n, d). map_option (Pair n) (var_Default d)) decls"

definition q_var :: "string \<Rightarrow> string" where
  "q_var k = ''variable '' @ fmt_q k"

text \<open>The loop over \<open>in.JobEnv\<close>: values, secrets and issues so far.\<close>

fun env_vars ::
  "(string \<Rightarrow> string option) \<Rightarrow> (string, string) gomap \<Rightarrow>
   (string, string) gomap \<times> string list \<times> issues \<Rightarrow> (string, string) gomap \<times> string list \<times> issues" where
  "env_vars lookup [] st = st"
| "env_vars lookup ((k, envName) # rest) (vars, secrets, issues) =
     (case lookup envName of
        None \<Rightarrow> env_vars lookup rest
                  (vars, secrets, issues @ [q_var k @ '': environment variable '' @ envName @ '' is not set''])
      | Some v \<Rightarrow> env_vars lookup rest (AList.update k v vars, secrets @ [v], issues))"

definition value_issues :: "(string, string) gomap \<Rightarrow> issues" where
  "value_issues vars =
     List.map_filter (\<lambda>(k, v). case CheckValue v of Inl e \<Rightarrow> Some (q_var k @ '': '' @ e) | Inr _ \<Rightarrow> None) vars"

definition decl_issues :: "Inputs \<Rightarrow> (string, string) gomap \<Rightarrow> string \<times> Variable \<Rightarrow> issues" where
  "decl_issues inp vars nd =
     (case nd of (name, d) \<Rightarrow>
        (if var_Sensitive d \<and> (map_of (in_Job inp) name \<noteq> None \<or> map_of (in_Host inp) name \<noteq> None)
         then [''sensitive '' @ q_var name @ '' must be passed with --var-env, not as a literal''] else []) @
        (if var_Required d \<and> lookup_str vars name = ''''
         then [''required '' @ q_var name @ '' is not set''] else []))"

definition decl_secrets :: "(string, string) gomap \<Rightarrow> string \<times> Variable \<Rightarrow> string list" where
  "decl_secrets vars nd =
     (case nd of (name, d) \<Rightarrow>
        if var_Sensitive d \<and> lookup_str vars name \<noteq> '''' then [lookup_str vars name] else [])"

definition Resolve ::
  "Job \<Rightarrow> Inputs \<Rightarrow> (string \<Rightarrow> string option) \<Rightarrow> issues + ((string, string) gomap \<times> string list)" where
  "Resolve j inp lookup =
     (let decls = job_Variables j;
          vars0 = put_all (put_all (put_all [] (default_vars decls)) (in_Host inp)) (in_Job inp);
          (vars, secrets, issues) = env_vars lookup (in_JobEnv inp) (vars0, [], []);
          issues' = issues @ value_issues vars @ concat (map (decl_issues inp vars) decls);
          secrets' = secrets @ concat (map (decl_secrets vars) decls)
      in if issues' \<noteq> [] then Inl (sort issues') else Inr (vars, secrets'))"

section \<open>Properties of templates\<close>

lemma find_refs_Nil [simp]: "find_refs pos [] = []"
  by (subst find_refs.simps) simp

lemma find_refs_None: "match_ref (c # s) = None \<Longrightarrow> find_refs pos (c # s) = find_refs (pos + 1) s"
  by (subst find_refs.simps) simp

lemma find_refs_Some:
  "match_ref s = Some (name, rest) \<Longrightarrow>
   find_refs pos s = (pos, name) # find_refs (pos + (length s - length rest)) rest"
  by (subst find_refs.simps) (cases s, auto simp: match_ref_def has_prefix_def)

lemma replace_refs_Nil [simp]: "replace_refs vars [] = ([], [])"
  by (subst replace_refs.simps) simp

lemma replace_refs_None:
  "match_ref (c # s) = None \<Longrightarrow>
   replace_refs vars (c # s) = (c # fst (replace_refs vars s), snd (replace_refs vars s))"
  by (subst replace_refs.simps) (simp add: split_beta)

lemma replace_refs_Some:
  "match_ref s = Some (name, rest) \<Longrightarrow>
   replace_refs vars s =
     (case map_of vars name of
        Some v \<Rightarrow> (v @ fst (replace_refs vars rest), snd (replace_refs vars rest))
      | None \<Rightarrow> (fst (replace_refs vars rest), name # snd (replace_refs vars rest)))"
  by (subst replace_refs.simps)
    (cases s, auto simp: match_ref_def has_prefix_def split_beta split: option.splits)

text \<open>The names missing in a rendering are the unbound references, in order and with repetitions.\<close>

lemma replace_refs_missing:
  "snd (replace_refs vars s) = filter (\<lambda>n. map_of vars n = None) (map snd (find_refs pos s))"
proof (induction pos s rule: find_refs.induct)
  case (1 pos s)
  show ?case
  proof (cases s)
    case (Cons c s')
    show ?thesis
    proof (cases "match_ref s")
      case None
      then show ?thesis
        using "1.IH"(1) [OF Cons] Cons by (simp add: replace_refs_None find_refs_None)
    next
      case (Some nr)
      obtain name rest where nr: "nr = (name, rest)" by (cases nr)
      show ?thesis
        using "1.IH"(2) [OF Cons Some nr [symmetric]] Some nr
        by (auto simp: replace_refs_Some find_refs_Some split: option.splits)
    qed
  qed simp
qed

lemma References_Inr: "References s = Inr ns \<Longrightarrow> ns = map snd (find_refs 0 s)"
  by (auto simp: References_def Let_def split: if_splits)

text \<open>
  \<open>Render\<close> succeeds exactly when the template syntax is valid and every referenced variable
  is bound; no reference is ever rendered from a missing variable.
\<close>

theorem Render_ok_iff:
  "is_ok (Render s vars) \<longleftrightarrow>
     (\<exists>ns. References s = Inr ns \<and> set ns \<subseteq> fst ` set vars)"
proof (cases "References s")
  case (Inl e)
  then show ?thesis by (simp add: Render_def)
next
  case (Inr ns)
  have "is_ok (Render s vars) \<longleftrightarrow> snd (replace_refs vars s) = []"
    using Inr by (auto simp: Render_def split_beta)
  also have "\<dots> \<longleftrightarrow> (\<forall>n \<in> set ns. map_of vars n \<noteq> None)"
    using References_Inr [OF Inr] replace_refs_missing [of vars s 0]
    by (auto simp: filter_empty_conv)
  also have "\<dots> \<longleftrightarrow> set ns \<subseteq> fst ` set vars"
    by (auto simp: map_of_eq_None_iff)
  finally show ?thesis using Inr by simp
qed

text \<open>
  Templates as the documentation writes them: literal text without an opening brace, and
  references in the canonical spelling.
\<close>

datatype tseg = TLit string | TVar string

fun seg_text :: "tseg \<Rightarrow> string" where
  "seg_text (TLit l) = l"
| "seg_text (TVar n) = ''{{ .'' @ n @ '' }}''"

fun seg_ok :: "tseg \<Rightarrow> bool" where
  "seg_ok (TLit l) \<longleftrightarrow> CHR ''{'' \<notin> set l"
| "seg_ok (TVar n) \<longleftrightarrow> n \<noteq> [] \<and> is_alpha_us (hd n) \<and> list_all is_name_char n"

fun seg_names :: "tseg list \<Rightarrow> string list" where
  "seg_names [] = []"
| "seg_names (TLit l # ts) = seg_names ts"
| "seg_names (TVar n # ts) = n # seg_names ts"

fun seg_value :: "(string, string) gomap \<Rightarrow> tseg \<Rightarrow> string" where
  "seg_value vars (TLit l) = l"
| "seg_value vars (TVar n) = lookup_str vars n"

lemma match_ref_not_open: "c \<noteq> CHR ''{'' \<Longrightarrow> match_ref (c # s) = None"
  by (simp add: match_ref_def has_prefix_def)

lemma find_opens_literal:
  "CHR ''{'' \<notin> set l \<Longrightarrow> find_opens pos (l @ s) = find_opens (pos + length l) s"
proof (induction l arbitrary: pos)
  case (Cons c l)
  have "find_opens pos (c # (l @ s)) = find_opens (pos + 1) (l @ s)"
    using Cons.prems by (cases "l @ s") auto
  then show ?case using Cons by simp
qed simp

lemma find_refs_literal:
  "CHR ''{'' \<notin> set l \<Longrightarrow> find_refs pos (l @ s) = find_refs (pos + length l) s"
  by (induction l arbitrary: pos) (auto simp: find_refs_None match_ref_not_open)

lemma replace_refs_literal:
  "CHR ''{'' \<notin> set l \<Longrightarrow>
   replace_refs vars (l @ s) = (l @ fst (replace_refs vars s), snd (replace_refs vars s))"
  by (induction l) (auto simp: replace_refs_None match_ref_not_open)

lemma not_name_chars [simp]: "\<not> is_name_char CHR '' ''" "\<not> is_name_char CHR ''{''"
  by (simp_all add: is_name_char_def is_alpha_us_def is_digit_def less_eq_char_def)

lemma match_ref_canonical:
  assumes "seg_ok (TVar n)"
  shows "match_ref (''{{ .'' @ n @ '' }}'' @ rest) = Some (n, rest)"
proof -
  have sp: "is_re_space CHR '' ''" "\<not> is_re_space CHR ''.''" "\<not> is_re_space CHR ''}''"
    by (simp_all add: is_re_space_def)
  have tw: "takeWhile is_name_char (n @ CHR '' '' # s) = n"
    and dw: "dropWhile is_name_char (n @ CHR '' '' # s) = CHR '' '' # s" for s
    using assms by (simp_all add: takeWhile_append dropWhile_append list_all_iff)
  show ?thesis
    using assms by (simp add: match_ref_def has_prefix_def sp tw dw)
qed

lemma find_opens_canonical:
  assumes "seg_ok (TVar n)"
  shows "find_opens pos (''{{ .'' @ n @ '' }}'' @ rest) =
         pos # find_opens (pos + length (''{{ .'' @ n @ '' }}'')) rest"
proof -
  have "CHR ''{'' \<notin> set ('' .'' @ n @ '' }}'')"
    using assms not_name_chars(2) by (auto simp: list_all_iff)
  from find_opens_literal [OF this, of "pos + 2" rest] show ?thesis
    by (simp add: add.commute)
qed

lemma find_refs_template:
  assumes "list_all seg_ok ts"
  shows "map fst (find_refs pos (concat (map seg_text ts))) = find_opens pos (concat (map seg_text ts))
       \<and> map snd (find_refs pos (concat (map seg_text ts))) = seg_names ts"
  using assms
proof (induction ts arbitrary: pos)
  case (Cons t ts)
  show ?case
  proof (cases t)
    case (TLit l)
    then show ?thesis
      using Cons by (simp add: find_refs_literal find_opens_literal)
  next
    case (TVar n)
    then have ok: "seg_ok (TVar n)" using Cons.prems by simp
    let ?rest = "concat (map seg_text ts)"
    have "find_refs pos (''{{ .'' @ n @ '' }}'' @ ?rest) =
          (pos, n) # find_refs (pos + length (''{{ .'' @ n @ '' }}'')) ?rest"
      using find_refs_Some [OF match_ref_canonical [OF ok, of ?rest], of pos]
      by (simp add: eval_nat_numeral)
    then show ?thesis
      using Cons TVar find_opens_canonical [OF ok, of pos ?rest] by simp
  qed
qed simp

lemma replace_refs_template:
  assumes "list_all seg_ok ts"
  shows "replace_refs vars (concat (map seg_text ts)) =
     (concat (map (seg_value vars) ts), filter (\<lambda>n. map_of vars n = None) (seg_names ts))"
  using assms
proof (induction ts)
  case (Cons t ts)
  show ?case
  proof (cases t)
    case (TLit l)
    then show ?thesis using Cons by (simp add: replace_refs_literal)
  next
    case (TVar n)
    then have "seg_ok (TVar n)" using Cons.prems by simp
    from match_ref_canonical [OF this] show ?thesis
      using Cons TVar
      by (auto simp: replace_refs_Some lookup_str_def split: option.splits)
  qed
qed simp

text \<open>
  Rendering a template of literal text and \<open>{{ .name }}\<close> references puts each variable's value
  verbatim in its place, in one pass (a value that itself looks like a reference is not expanded);
  where variables are unbound it reports exactly those, in order.
\<close>

theorem Render_template:
  assumes "list_all seg_ok ts"
  shows "Render (concat (map seg_text ts)) vars =
     (let missing = filter (\<lambda>n. map_of vars n = None) (seg_names ts) in
      if missing = [] then Inr (concat (map (seg_value vars) ts))
      else Inl (''missing variable(s): '' @ join missing '', ''))"
proof -
  have "References (concat (map seg_text ts)) = Inr (seg_names ts)"
    using find_refs_template [OF assms, of 0]
    by (auto simp: References_def Let_def dest: arg_cong [of _ _ length])
  then show ?thesis
    using replace_refs_template [OF assms] by (simp add: Render_def Let_def)
qed

text \<open>The witness renders \<open>echo {{ .a }}\<close> where the value of \<open>a\<close> is itself the text of a reference.\<close>

theorem Render_template_witness:
  "Render ''echo {{ .a }};'' [(''a'', ''{{ .b }}'')] = Inr ''echo {{ .b }};''"
proof -
  have ok: "list_all seg_ok [TLit ''echo '', TVar ''a'', TLit '';'']"
    by (simp add: is_alpha_us_def is_name_char_def less_eq_char_def)
  show ?thesis
    using Render_template [OF ok, of "[(''a'', ''{{ .b }}'')]"] by (simp add: lookup_str_def)
qed

section \<open>Properties of resolution\<close>

definition env_values :: "(string \<Rightarrow> string option) \<Rightarrow> (string, string) gomap \<Rightarrow> (string, string) gomap" where
  "env_values lookup env = List.map_filter (\<lambda>(k, e). map_option (Pair k) (lookup e)) env"

definition unset_env :: "(string \<Rightarrow> string option) \<Rightarrow> (string, string) gomap \<Rightarrow> (string, string) gomap" where
  "unset_env lookup env = filter (\<lambda>(k, e). lookup e = None) env"

lemma env_vars_eq:
  "env_vars lookup env (vars, secrets, issues) =
     (put_all vars (env_values lookup env), secrets @ map snd (env_values lookup env),
      issues @ map (\<lambda>(k, e). q_var k @ '': environment variable '' @ e @ '' is not set'') (unset_env lookup env))"
proof (induction env arbitrary: vars secrets issues)
  case Nil
  then show ?case by (simp add: env_values_def unset_env_def map_filter_def)
next
  case (Cons ke env)
  obtain k e where "ke = (k, e)" by (cases ke)
  then show ?case
    using Cons by (cases "lookup e") (simp_all add: env_values_def unset_env_def map_filter_def)
qed

lemma fst_map_filter_Pair:
  "map fst (List.map_filter (\<lambda>(n, d). map_option (Pair n) (f d)) m) = map fst (filter (\<lambda>(n, d). f d \<noteq> None) m)"
  by (induction m) (auto simp: map_filter_def)

lemma gomap_ok_map_filter_Pair:
  "gomap_ok m \<Longrightarrow> gomap_ok (List.map_filter (\<lambda>(n, d). map_option (Pair n) (f d)) m)"
  by (simp add: gomap_ok_def fst_map_filter_Pair distinct_map_filter)

lemma map_of_map_filter_Pair:
  "gomap_ok m \<Longrightarrow>
   map_of (List.map_filter (\<lambda>(n, d). map_option (Pair n) (f d)) m) k = Option.bind (map_of m k) f"
proof (induction m)
  case Nil
  then show ?case by (simp add: map_filter_def)
next
  case (Cons nd m)
  obtain n d where nd: "nd = (n, d)" by (cases nd)
  have ok: "gomap_ok m" and new: "map_of m n = None"
    using Cons.prems nd by (auto simp: gomap_ok_def map_of_eq_None_iff)
  show ?case
    using Cons.IH [OF ok] new nd
    by (cases "f d"; cases "k = n") (auto simp: map_filter_def)
qed

definition resolved_vars :: "Job \<Rightarrow> Inputs \<Rightarrow> (string \<Rightarrow> string option) \<Rightarrow> (string, string) gomap" where
  "resolved_vars j inp lookup =
     put_all (put_all (put_all (put_all [] (default_vars (job_Variables j))) (in_Host inp)) (in_Job inp))
       (env_values lookup (in_JobEnv inp))"

lemma Resolve_Inr_iff:
  "Resolve j inp lookup = Inr (vars, secrets) \<longleftrightarrow>
     vars = resolved_vars j inp lookup \<and>
     secrets = map snd (env_values lookup (in_JobEnv inp)) @
               concat (map (decl_secrets vars) (job_Variables j)) \<and>
     unset_env lookup (in_JobEnv inp) = [] \<and> value_issues vars = [] \<and>
     (\<forall>nd \<in> set (job_Variables j). decl_issues inp vars nd = [])"
  by (auto simp: Resolve_def Let_def env_vars_eq resolved_vars_def concat_eq_Nil_conv split: if_splits)

lemma value_issues_Nil_iff: "value_issues vars = [] \<longleftrightarrow> (\<forall>(k, v) \<in> set vars. is_ok (CheckValue v))"
  by (induction vars) (auto simp: value_issues_def map_filter_def is_ok_def split: sum.splits)

definition inputs_ok :: "Job \<Rightarrow> Inputs \<Rightarrow> bool" where
  "inputs_ok j inp \<longleftrightarrow> gomap_ok (job_Variables j) \<and> gomap_ok (in_Host inp) \<and> gomap_ok (in_Job inp) \<and>
     gomap_ok (in_JobEnv inp)"

lemma map_of_resolved_vars:
  assumes "inputs_ok j inp" and "unset_env lookup (in_JobEnv inp) = []"
  shows "map_of (resolved_vars j inp lookup) k =
     (case map_of (in_JobEnv inp) k of
        Some e \<Rightarrow> lookup e
      | None \<Rightarrow> (case map_of (in_Job inp) k of
          Some v \<Rightarrow> Some v
        | None \<Rightarrow> (case map_of (in_Host inp) k of
            Some v \<Rightarrow> Some v
          | None \<Rightarrow> Option.bind (map_of (job_Variables j) k) var_Default)))"
proof -
  have env: "map_of (env_values lookup (in_JobEnv inp)) k = Option.bind (map_of (in_JobEnv inp) k) lookup"
    and dfl: "map_of (default_vars (job_Variables j)) k = Option.bind (map_of (job_Variables j) k) var_Default"
    and ok: "gomap_ok (env_values lookup (in_JobEnv inp))" "gomap_ok (default_vars (job_Variables j))"
    using assms(1)
    by (simp_all add: inputs_ok_def env_values_def default_vars_def map_of_map_filter_Pair
        gomap_ok_map_filter_Pair)
  have set: "map_of (in_JobEnv inp) k = Some e \<Longrightarrow> lookup e \<noteq> None" for e
    using assms(2) map_of_SomeD by (fastforce simp: unset_env_def filter_empty_conv)
  show ?thesis
    using assms(1) ok set
    by (auto simp: resolved_vars_def inputs_ok_def map_of_put_all env dfl split: option.splits)
qed

text \<open>
  The precedence of variable sources: \<open>--var-env\<close> over \<open>--var\<close> over the inventory over the
  default of the job file, for every variable of a successful resolution and whatever the
  iteration order of the maps.
\<close>

theorem Resolve_precedence:
  assumes "inputs_ok j inp" and "Resolve j inp lookup = Inr (vars, secrets)"
  shows "map_of vars k =
     (case map_of (in_JobEnv inp) k of
        Some e \<Rightarrow> lookup e
      | None \<Rightarrow> (case map_of (in_Job inp) k of
          Some v \<Rightarrow> Some v
        | None \<Rightarrow> (case map_of (in_Host inp) k of
            Some v \<Rightarrow> Some v
          | None \<Rightarrow> Option.bind (map_of (job_Variables j) k) var_Default)))"
  using assms map_of_resolved_vars by (simp add: Resolve_Inr_iff)

definition example_job :: Job where
  "example_job =
     \<lparr>job_Name = ''ntp'', job_Description = [], job_Version = [], job_MaxFailures = ''1'',
      job_Variables =
        [(''server'', \<lparr>var_Required = True, var_Default = Some ''pool'', var_Sensitive = False, var_Description = []\<rparr>),
         (''token'', \<lparr>var_Required = True, var_Default = None, var_Sensitive = True, var_Description = []\<rparr>)],
      job_Defaults = \<lparr>def_Timeout = 0, def_Retries = 0, def_RetryDelay = 0, def_Sudo = False\<rparr>,
      job_Steps = [], job_Hash = [], job_Path = []\<rparr>"

definition example_inputs :: Inputs where
  "example_inputs = \<lparr>in_Host = [(''server'', ''ntp1'')], in_Job = [(''server'', ''ntp2'')], in_JobEnv = [(''token'', ''TOK'')]\<rparr>"

definition example_env :: "string \<Rightarrow> string option" where
  "example_env = map_of [(''TOK'', ''s3cret'')]"

lemma example_resolve:
  "inputs_ok example_job example_inputs"
  "Resolve example_job example_inputs example_env =
     Inr ([(''server'', ''ntp2''), (''token'', ''s3cret'')], [''s3cret'', ''s3cret''])"
  by code_simp+

theorem Resolve_precedence_witness:
  "map_of [(''server'', ''ntp2''), (''token'', ''s3cret'')] ''server'' = Some ''ntp2''"
  using Resolve_precedence [OF example_resolve, of "''server''"]
  by (simp add: example_inputs_def)

text \<open>
  What a successful resolution guarantees: no value has a control character (so no value adds
  a shell line), every required variable is non-empty, no sensitive variable was given as a literal,
  and every value read from the environment and every non-empty sensitive value is among the secrets
  handed to the redactor.
\<close>

theorem Resolve_safe:
  assumes "Resolve j inp lookup = Inr (vars, secrets)"
  shows "(\<forall>(k, v) \<in> set vars. \<forall>c \<in> set v. \<not> is_control c) \<and>
     (\<forall>(n, d) \<in> set (job_Variables j).
        (var_Required d \<longrightarrow> lookup_str vars n \<noteq> '''') \<and>
        (var_Sensitive d \<longrightarrow>
           map_of (in_Job inp) n = None \<and> map_of (in_Host inp) n = None \<and>
           (lookup_str vars n \<noteq> '''' \<longrightarrow> lookup_str vars n \<in> set secrets))) \<and>
     (\<forall>(k, e) \<in> set (in_JobEnv inp). \<exists>v. lookup e = Some v \<and> v \<in> set secrets)"
proof (intro conjI)
  note r = assms [unfolded Resolve_Inr_iff]
  show "\<forall>(k, v) \<in> set vars. \<forall>c \<in> set v. \<not> is_control c"
    using r by (auto simp: value_issues_Nil_iff CheckValue_ok_iff)
  show "\<forall>(n, d) \<in> set (job_Variables j).
        (var_Required d \<longrightarrow> lookup_str vars n \<noteq> '''') \<and>
        (var_Sensitive d \<longrightarrow>
           map_of (in_Job inp) n = None \<and> map_of (in_Host inp) n = None \<and>
           (lookup_str vars n \<noteq> '''' \<longrightarrow> lookup_str vars n \<in> set secrets))"
    using r by (fastforce simp: decl_issues_def decl_secrets_def split: if_splits)
  show "\<forall>(k, e) \<in> set (in_JobEnv inp). \<exists>v. lookup e = Some v \<and> v \<in> set secrets"
  proof clarify
    fix k e
    assume e: "(k, e) \<in> set (in_JobEnv inp)"
    then obtain v where v: "lookup e = Some v"
      using r by (fastforce simp: unset_env_def filter_empty_conv)
    then have "(k, v) \<in> set (env_values lookup (in_JobEnv inp))"
      using e by (force simp: env_values_def map_filter_def)
    then show "\<exists>v. lookup e = Some v \<and> v \<in> set secrets"
      using r v by force
  qed
qed

theorem Resolve_safe_witness:
  "\<exists>v. example_env ''TOK'' = Some v \<and> v \<in> set [''s3cret'', ''s3cret'']"
  using Resolve_safe [OF example_resolve(2)] by (simp add: example_inputs_def)

end
