(* ===== verification/Build.thy ===== *)
theory Build
  imports Variables
begin

text \<open>
  \<open>internal/job/build.go\<close>: a step made concrete for one host (\<open>build\<close>, \<open>Build\<close>) and the command
  line it runs (\<open>Remote\<close>). A nil byte slice is told apart from an empty one, so \<open>Content\<close> is an
  option. A compiled regular expression is its source text, which validation has accepted.
\<close>

definition KindCommand :: string where "KindCommand = ''command''"
definition KindScript :: string where "KindScript = ''script''"
definition KindCopy :: string where "KindCopy = ''copy''"

lemmas kind_defs = KindCommand_def KindScript_def KindCopy_def

record Action =
  act_Name :: string
  act_Kind :: string
  act_Display :: string
  act_Shell :: string
  act_Content :: "string option"
  act_Dest :: string
  act_Mode :: string
  act_Sudo :: bool
  act_ExitCode :: int
  act_Contains :: "string list"
  act_NotContains :: "string list"
  act_Regex :: "string option"
  act_Timeout :: duration
  act_Retries :: int
  act_RetryDelay :: duration
  act_ContinueOnError :: bool
  act_Sensitive :: bool
  act_Reboot :: bool
  act_Disconnect :: bool
  act_ReconnectTimeout :: duration
  act_FireAndForget :: bool

definition DefaultRebootTimeout :: duration where "DefaultRebootTimeout = 10 * Minute"
definition DefaultDisconnectTimeout :: duration where "DefaultDisconnectTimeout = 5 * Minute"

definition sq :: char where "sq = CHR 0x27"
definition dq :: char where "dq = CHR 0x22"
definition bslash :: char where "bslash = CHR 0x5C"
definition newline :: char where "newline = CHR 0x0A"

lemmas special_chars = sq_def dq_def bslash_def newline_def

definition UploadCommand :: string where
  "UploadCommand =
     ''umask 077 && t=$(mktemp) && cat > '' @ [dq] @ ''$t'' @ [dq] @ '' && printf '' @
     [sq] @ ''%s'' @ [sq] @ '' '' @ [dq] @ ''$t'' @ [dq]"

section \<open>Quoting and command lines\<close>

definition Quote :: "string \<Rightarrow> string" where
  "Quote s = [sq] @ replace_all s [sq] [sq, bslash, sq, sq] @ [sq]"

definition cleanup :: "string \<Rightarrow> string \<Rightarrow> string" where
  "cleanup cmd tmp = cmd @ ''; rc=$?; rm -f '' @ Quote tmp @ ''; exit $rc''"

definition wrap :: "Action \<Rightarrow> bool \<Rightarrow> string \<Rightarrow> string" where
  "wrap a sudoPassword cmd =
     (if \<not> act_Sudo a then cmd
      else if sudoPassword then ''sudo -k -S -p '' @ [sq, sq] @ '' -- sh -c '' @ Quote cmd
      else ''sudo -n -- sh -c '' @ Quote cmd)"

definition copy_command :: "string \<Rightarrow> string \<Rightarrow> string \<Rightarrow> string" where
  "copy_command dest tmp mode =
     ''p=$(mktemp '' @ [dq] @ ''$(dirname '' @ dest @ '')/.rco-tmp.XXXXXX'' @ [dq] @ '') && { cp '' @ tmp @
     '' '' @ [dq] @ ''$p'' @ [dq] @ '' && chmod '' @ mode @ '' '' @ [dq] @ ''$p'' @ [dq] @ '' && mv -f '' @
     [dq] @ ''$p'' @ [dq] @ '' '' @ dest @ '' || { rm -f '' @ [dq] @ ''$p'' @ [dq] @ ''; false; }; }''"

definition Remote :: "Action \<Rightarrow> string \<Rightarrow> bool \<Rightarrow> string" where
  "Remote a tmp sudoPassword =
     (if act_Kind a = KindScript then cleanup (wrap a sudoPassword (''bash '' @ Quote tmp)) tmp
      else if act_Kind a = KindCommand \<and> act_Content a \<noteq> None
        then cleanup (wrap a sudoPassword (''sh '' @ Quote tmp)) tmp
      else if act_FireAndForget a
        then wrap a sudoPassword (''(trap '' @ [sq, sq] @ '' HUP; '' @ act_Shell a @
               '') </dev/null >/dev/null 2>&1 &'')
      else if act_Kind a = KindCopy
        then cleanup (wrap a sudoPassword (copy_command (Quote (act_Dest a)) (Quote tmp) (act_Mode a))) tmp
      else wrap a sudoPassword (act_Shell a))"

section \<open>Building actions\<close>

record Settings =
  set_Timeout :: duration
  set_RetryDelay :: duration

fun first_duration :: "duration list \<Rightarrow> duration" where
  "first_duration [] = 0"
| "first_duration (d # ds) = (if d > 0 then d else first_duration ds)"

definition exports :: "(string, string) gomap \<Rightarrow> string" where
  "exports vars =
     concat (map (\<lambda>k. ''export '' @ k @ ''='' @ Quote (lookup_str vars k) @ [newline]) (sort (map fst vars)))"

definition renderAll :: "string list \<Rightarrow> (string, string) gomap \<Rightarrow> string + string list" where
  "renderAll ss vars = map_result (\<lambda>s. Render s vars) ss"

text \<open>The fields set before any template is rendered.\<close>

definition build_base :: "Job \<Rightarrow> Step \<Rightarrow> Settings \<Rightarrow> Action" where
  "build_base j st s =
     (let dfl = job_Defaults j;
          disc = st_Reboot st \<or> st_Disconnect st;
          retries = (case st_Retries st of Some n \<Rightarrow> n | None \<Rightarrow> def_Retries dfl)
      in \<lparr>act_Name = st_Name st,
          act_Kind = '''',
          act_Display = '''',
          act_Shell = '''',
          act_Content = None,
          act_Dest = '''',
          act_Mode = '''',
          act_Sudo = (case st_Sudo st of Some b \<Rightarrow> b | None \<Rightarrow> def_Sudo dfl),
          act_ExitCode = (case ex_ExitCode (st_Expect st) of Some n \<Rightarrow> n | None \<Rightarrow> 0),
          act_Contains = [],
          act_NotContains = [],
          act_Regex = (if ex_Regex (st_Expect st) \<noteq> '''' then Some (ex_Regex (st_Expect st)) else None),
          act_Timeout = first_duration [st_Timeout st, def_Timeout dfl, set_Timeout s],
          act_Retries = (if disc \<or> st_FireAndForget st then 0 else retries),
          act_RetryDelay = first_duration [st_RetryDelay st, def_RetryDelay dfl, set_RetryDelay s],
          act_ContinueOnError = st_ContinueOnError st,
          act_Sensitive = st_Sensitive st,
          act_Reboot = st_Reboot st,
          act_Disconnect = disc,
          act_ReconnectTimeout =
            (if disc
             then first_duration [st_ReconnectTimeout st,
                    if st_Reboot st then DefaultRebootTimeout else DefaultDisconnectTimeout]
             else 0),
          act_FireAndForget = st_FireAndForget st\<rparr>)"

text \<open>The switch on the kind of the step.\<close>

definition build_kind :: "Step \<Rightarrow> (string, string) gomap \<Rightarrow> Action \<Rightarrow> string + Action" where
  "build_kind st vars a =
     (if st_Command st \<noteq> '''' then
        bind_result (Render (st_Command st) vars) (\<lambda>sh.
          Inr (a\<lparr>act_Kind := KindCommand, act_Shell := sh, act_Display := sh\<rparr>))
      else if st_Script st \<noteq> '''' then
        Inr (a\<lparr>act_Kind := KindScript, act_Display := ''script '' @ st_Script st,
               act_Content := Some (exports vars @ st_scriptBody st)\<rparr>)
      else
        (case st_Copy st of
           None \<Rightarrow> Inr a
         | Some c \<Rightarrow>
             bind_result (Render (copy_Dest c) vars) (\<lambda>dest.
             bind_result (if copy_Template c
                          then bind_result (Render (case copy_body c of None \<Rightarrow> '''' | Some b \<Rightarrow> b) vars) (Inr \<circ> Some)
                          else Inr (copy_body c)) (\<lambda>content.
               let mode = (if copy_Mode c = '''' then DefaultMode else copy_Mode c) in
               Inr (a\<lparr>act_Kind := KindCopy, act_Dest := dest, act_Content := content, act_Mode := mode,
                      act_Display := ''copy '' @ copy_Src c @ '' -> '' @ dest @ '' (mode '' @ mode @ '')''\<rparr>)))))"

text \<open>Masking of sensitive steps; a sensitive command travels as file content.\<close>

definition build_mask :: "Action \<Rightarrow> Action" where
  "build_mask a =
     (if act_Sensitive a then
        (let a' = a\<lparr>act_Display := SensitiveMask\<rparr> in
         if act_Kind a = KindCommand then a'\<lparr>act_Content := Some (act_Shell a @ [newline])\<rparr> else a')
      else a)"

definition build :: "Job \<Rightarrow> Step \<Rightarrow> (string, string) gomap \<Rightarrow> Settings \<Rightarrow> string + Action" where
  "build j st vars s =
     bind_result (renderAll (elems (ex_Contains (st_Expect st))) vars) (\<lambda>cs.
     bind_result (renderAll (elems (ex_NotContains (st_Expect st))) vars) (\<lambda>ncs.
     bind_result (build_kind st vars
        ((build_base j st s)\<lparr>act_Contains := cs, act_NotContains := ncs\<rparr>)) (\<lambda>a.
       Inr (build_mask a))))"

definition Build :: "Job \<Rightarrow> (string, string) gomap \<Rightarrow> Settings \<Rightarrow> Failure + Action list" where
  "Build j vars s =
     map_result (\<lambda>st. case build j st vars s of
         Inl e \<Rightarrow> Inl (Fail CatTemplateError (''step '' @ fmt_q (st_Name st) @ '': '' @ e))
       | Inr a \<Rightarrow> Inr a) (job_Steps j)"

section \<open>What a POSIX shell reads\<close>

text \<open>
  The word splitting of a POSIX shell, for the characters \<open>Quote\<close> and the fixed parts of the
  command lines use: single quotes, backslash escapes, blanks and operators. A word that would need
  an expansion (\<open>$\<close>, backquote, double quote, glob characters) is outside this grammar: \<open>None\<close>.
\<close>

definition sh_blank :: "char \<Rightarrow> bool" where
  "sh_blank c \<longleftrightarrow> c = CHR '' '' \<or> c = CHR 0x09"

definition sh_operator :: "char \<Rightarrow> bool" where
  "sh_operator c \<longleftrightarrow> c \<in> set (newline # '';&|<>()'')"

definition sh_expands :: "char \<Rightarrow> bool" where
  "sh_expands c \<longleftrightarrow> c \<in> set (dq # CHR 0x60 # ''$*?[#~'')"

fun sh_lex :: "bool \<Rightarrow> string \<Rightarrow> string \<Rightarrow> (string \<times> string) option" where
  "sh_lex True acc [] = None"
| "sh_lex True acc (c # s) = (if c = sq then sh_lex False acc s else sh_lex True (acc @ [c]) s)"
| "sh_lex False acc [] = Some (acc, [])"
| "sh_lex False acc (c # s) =
     (if c = sq then sh_lex True acc s
      else if c = bslash then
        (case s of [] \<Rightarrow> None
         | d # s' \<Rightarrow> if d = newline then sh_lex False acc s' else sh_lex False (acc @ [d]) s')
      else if sh_blank c \<or> sh_operator c then Some (acc, c # s)
      else if sh_expands c then None
      else sh_lex False (acc @ [c]) s)"

function sh_words :: "string \<Rightarrow> string list option" where
  "sh_words s =
     (case dropWhile sh_blank s of
        [] \<Rightarrow> Some []
      | c # s' \<Rightarrow>
          (case sh_lex False [] (c # s') of
             None \<Rightarrow> None
           | Some (w, rest) \<Rightarrow>
               if length rest < length (c # s') then map_option ((#) w) (sh_words rest) else None))"
  by pat_completeness auto
termination
proof (relation "measure length", simp, clarsimp)
  fix s c s' rest
  assume "dropWhile sh_blank s = c # s'" and "length rest < Suc (length s')"
  then show "length rest < length s"
    using length_dropWhile_le [of sh_blank s] by simp
qed

declare sh_words.simps [simp del]

lemma sh_lex_quoted:
  "sh_lex True acc (replace_all s [sq] [sq, bslash, sq, sq] @ sq # rest) = sh_lex False (acc @ s) rest"
proof (induction s arbitrary: acc)
  case Nil
  then show ?case by simp
next
  case (Cons c s)
  show ?case
  proof (cases "c = sq")
    case True
    then have "replace_all (c # s) [sq] [sq, bslash, sq, sq] =
        [sq, bslash, sq, sq] @ replace_all s [sq] [sq, bslash, sq, sq]"
      by (simp add: replace_all_hit has_prefix_def)
    then show ?thesis
      using Cons.IH [of "acc @ [sq]"] True by (simp add: special_chars)
  next
    case False
    then have "replace_all (c # s) [sq] [sq, bslash, sq, sq] =
        c # replace_all s [sq] [sq, bslash, sq, sq]"
      by (simp add: replace_all_miss has_prefix_def)
    then show ?thesis
      using Cons.IH [of "acc @ [c]"] False by simp
  qed
qed

lemma sh_lex_Quote: "sh_lex False acc (Quote s @ rest) = sh_lex False (acc @ s) rest"
  using sh_lex_quoted [of acc s rest] by (simp add: Quote_def)

definition ends_word :: "string \<Rightarrow> bool" where
  "ends_word s \<longleftrightarrow> s = [] \<or> sh_blank (hd s) \<or> sh_operator (hd s)"

lemma not_blank_quote: "\<not> sh_blank sq" "\<not> sh_operator sq" "\<not> sh_blank bslash" "\<not> sh_operator bslash"
  by (simp_all add: sh_blank_def sh_operator_def special_chars)

lemma sh_lex_end: "ends_word s \<Longrightarrow> sh_lex False acc s = Some (acc, s)"
  using not_blank_quote by (cases s) (auto simp: ends_word_def)

text \<open>
  C23: \<open>Quote\<close> is exact: whatever bytes \<open>s\<close> holds, a shell that reads \<open>Quote s\<close> at the start of a word
  gets the single word \<open>s\<close> and stops right after it. No content of \<open>s\<close> can end the quotation.
\<close>

theorem Quote_is_one_word:
  "ends_word rest \<Longrightarrow> sh_lex False [] (Quote s @ rest) = Some (s, rest)"
  by (simp add: sh_lex_Quote sh_lex_end)

theorem Quote_is_one_word_witness:
  "sh_lex False [] (Quote (''a'' @ [sq] @ ''; rm -rf /'') @ '' next'') = Some (''a'' @ [sq] @ ''; rm -rf /'', '' next'')"
  by (rule Quote_is_one_word) (simp add: ends_word_def sh_blank_def)

lemma sh_words_Nil [simp]: "sh_words [] = Some []"
  by (subst sh_words.simps) simp


lemma sh_words_blank: "sh_blank c \<Longrightarrow> sh_words (c # s) = sh_words s"
  by (subst sh_words.simps, subst (2) sh_words.simps) simp

lemma Quote_hd: "\<exists>t. Quote s = sq # t"
  by (simp add: Quote_def)

lemma sh_words_Quote:
  assumes "ends_word rest"
  shows "sh_words (Quote s @ rest) = map_option ((#) s) (sh_words rest)"
proof -
  obtain t where t: "Quote s = sq # t" using Quote_hd by blast
  have "sh_lex False [] (sq # t @ rest) = Some (s, rest)"
    using Quote_is_one_word [OF assms, of s] t by simp
  then show ?thesis
    using t not_blank_quote(1) by (subst sh_words.simps) simp
qed

definition sh_plain :: "char \<Rightarrow> bool" where
  "sh_plain c \<longleftrightarrow> c \<noteq> sq \<and> c \<noteq> bslash \<and> \<not> sh_blank c \<and> \<not> sh_operator c \<and> \<not> sh_expands c"

lemma sh_lex_plain:
  "list_all sh_plain w \<Longrightarrow> sh_lex False acc (w @ rest) = sh_lex False (acc @ w) rest"
  by (induction w arbitrary: acc) (auto simp: sh_plain_def)

lemma sh_words_plain:
  assumes "list_all sh_plain w" and "w \<noteq> []" and "ends_word rest"
  shows "sh_words (w @ rest) = map_option ((#) w) (sh_words rest)"
proof -
  obtain c w' where w: "w = c # w'" using assms(2) by (cases w) auto
  have "sh_lex False [] (c # w' @ rest) = Some (w, rest)"
    using sh_lex_plain [OF assms(1), of "[]" rest] sh_lex_end [OF assms(3)] w by simp
  moreover have "\<not> sh_blank c"
    using assms(1) w by (simp add: sh_plain_def)
  ultimately show ?thesis
    using w by (subst sh_words.simps) simp
qed

lemma sh_plain_literals:
  "list_all sh_plain ''sudo''" "list_all sh_plain ''-k''" "list_all sh_plain ''-S''" "list_all sh_plain ''-p''"
  "list_all sh_plain ''-n''" "list_all sh_plain ''--''" "list_all sh_plain ''sh''" "list_all sh_plain ''-c''"
  by (simp_all add: sh_plain_def sh_blank_def sh_operator_def sh_expands_def special_chars)

definition sudo_args :: "bool \<Rightarrow> string list" where
  "sudo_args pw = (if pw then [''sudo'', ''-k'', ''-S'', ''-p'', '''', ''--'', ''sh'', ''-c'']
                   else [''sudo'', ''-n'', ''--'', ''sh'', ''-c''])"

lemma sh_words_word_space:
  "list_all sh_plain w \<Longrightarrow> w \<noteq> [] \<Longrightarrow> sh_words (w @ '' '' @ rest) = map_option ((#) w) (sh_words rest)"
  by (subst sh_words_plain) (simp_all add: ends_word_def sh_blank_def sh_words_blank)

lemma sh_words_Quote_space: "sh_words (Quote s @ '' '' @ rest) = map_option ((#) s) (sh_words rest)"
  by (subst sh_words_Quote) (simp_all add: ends_word_def sh_blank_def sh_words_blank)

lemma sudo_prefix_conv:
  "''sudo -k -S -p '' @ [sq, sq] @ '' -- sh -c '' @ x =
     ''sudo'' @ '' '' @ ''-k'' @ '' '' @ ''-S'' @ '' '' @ ''-p'' @ '' '' @ Quote [] @ '' '' @ ''--'' @ '' '' @
     ''sh'' @ '' '' @ ''-c'' @ '' '' @ x"
  "''sudo -n -- sh -c '' @ x = ''sudo'' @ '' '' @ ''-n'' @ '' '' @ ''--'' @ '' '' @ ''sh'' @ '' '' @ ''-c'' @ '' '' @ x"
  by (simp_all add: Quote_def)

lemma sh_words_wrap:
  assumes "act_Sudo a"
  shows "sh_words (wrap a pw cmd) = Some (sudo_args pw @ [cmd])"
proof -
  have q: "sh_words (Quote cmd) = Some [cmd]"
    using sh_words_Quote [of "[]" cmd] by (simp add: ends_word_def)
  have "sh_words (''sudo -k -S -p '' @ [sq, sq] @ '' -- sh -c '' @ Quote cmd) =
      Some [''sudo'', ''-k'', ''-S'', ''-p'', '''', ''--'', ''sh'', ''-c'', cmd]"
    unfolding sudo_prefix_conv
    by (simp only: sh_words_word_space sh_words_Quote_space sh_plain_literals q
        list.distinct simp_thms option.map)
  moreover have "sh_words (''sudo -n -- sh -c '' @ Quote cmd) = Some [''sudo'', ''-n'', ''--'', ''sh'', ''-c'', cmd]"
    unfolding sudo_prefix_conv
    by (simp only: sh_words_word_space sh_plain_literals q list.distinct simp_thms option.map)
  ultimately show ?thesis
    using assms by (simp add: wrap_def sudo_args_def)
qed

text \<open>
  A command step with sudo reaches the shell as exactly the words
  \<open>sudo ... sh -c <command>\<close>: the rendered command is one argument of \<open>sh -c\<close>, whatever it
  contains, so none of it runs outside sudo.
\<close>

theorem Remote_sudo_words:
  assumes "act_Sudo a" and "act_Kind a = KindCommand" and "act_Content a = None" and "\<not> act_FireAndForget a"
  shows "sh_words (Remote a tmp pw) = Some (sudo_args pw @ [act_Shell a])"
  using assms sh_words_wrap [OF assms(1)] by (simp add: Remote_def kind_defs)

definition example_action :: Action where
  "example_action =
     \<lparr>act_Name = ''run'', act_Kind = KindCommand, act_Display = ''id; ls'', act_Shell = ''id; ls'',
      act_Content = None, act_Dest = [], act_Mode = [], act_Sudo = True, act_ExitCode = 0,
      act_Contains = [], act_NotContains = [], act_Regex = None, act_Timeout = 300 * Second,
      act_Retries = 0, act_RetryDelay = 0, act_ContinueOnError = False, act_Sensitive = False,
      act_Reboot = False, act_Disconnect = False, act_ReconnectTimeout = 0, act_FireAndForget = False\<rparr>"

theorem Remote_sudo_words_witness:
  "sh_words (Remote example_action [] False) = Some [''sudo'', ''-n'', ''--'', ''sh'', ''-c'', ''id; ls'']"
  using Remote_sudo_words [of example_action "[]" False] by (simp add: example_action_def sudo_args_def)

section \<open>Properties of building\<close>

lemma build_kind_keeps:
  assumes "build_kind st vars a = Inr a'"
  shows "act_Retries a' = act_Retries a" and "act_Sensitive a' = act_Sensitive a"
    and "act_Disconnect a' = act_Disconnect a" and "act_FireAndForget a' = act_FireAndForget a"
    and "act_Reboot a' = act_Reboot a" and "act_ReconnectTimeout a' = act_ReconnectTimeout a"
    and "act_Timeout a' = act_Timeout a" and "act_Name a' = act_Name a"
    and "act_Contains a' = act_Contains a" and "act_NotContains a' = act_NotContains a"
  using assms by (auto simp: build_kind_def result_simps Let_def split: if_splits option.splits)

lemma build_mask_keeps [simp]:
  "act_Retries (build_mask a) = act_Retries a" "act_Sensitive (build_mask a) = act_Sensitive a"
  "act_Disconnect (build_mask a) = act_Disconnect a" "act_FireAndForget (build_mask a) = act_FireAndForget a"
  "act_Reboot (build_mask a) = act_Reboot a" "act_ReconnectTimeout (build_mask a) = act_ReconnectTimeout a"
  "act_Kind (build_mask a) = act_Kind a" "act_Sudo (build_mask a) = act_Sudo a"
  "act_Timeout (build_mask a) = act_Timeout a" "act_Name (build_mask a) = act_Name a"
  by (simp_all add: build_mask_def Let_def)

lemma build_InrD:
  assumes "build j st vars s = Inr a"
  obtains cs ncs a' where
    "build_kind st vars ((build_base j st s)\<lparr>act_Contains := cs, act_NotContains := ncs\<rparr>) = Inr a'"
    and "a = build_mask a'"
  using assms by (auto simp: build_def result_simps)

lemma build_reruns:
  assumes "build j st vars s = Inr a"
  shows "(act_Disconnect a \<or> act_FireAndForget a \<longrightarrow> act_Retries a = 0) \<and>
         (act_Reboot a \<longrightarrow> act_Disconnect a) \<and> (act_Disconnect a \<longrightarrow> act_ReconnectTimeout a > 0)"
proof -
  obtain cs ncs a' where
    k: "build_kind st vars ((build_base j st s)\<lparr>act_Contains := cs, act_NotContains := ncs\<rparr>) = Inr a'"
    and a: "a = build_mask a'"
    using build_InrD [OF assms] by blast
  show ?thesis
    using build_kind_keeps [OF k] a
    by (auto simp: build_base_def Let_def DefaultRebootTimeout_def DefaultDisconnectTimeout_def duration_defs)
qed

text \<open>
  A step that may drop the connection or is fired and forgotten is built with no retries, even
  where the job's defaults ask for some, so its command never runs twice; and a rebooting step always
  counts as disconnecting and has a positive reconnect timeout.
\<close>

theorem build_no_rerun:
  assumes "build j st vars s = Inr a"
  shows "(act_Disconnect a \<or> act_FireAndForget a \<longrightarrow> act_Retries a = 0) \<and>
         (act_Reboot a \<longrightarrow> act_Disconnect a) \<and>
         (act_Disconnect a \<longrightarrow> act_ReconnectTimeout a > 0)"
  using build_reruns [OF assms] by blast

definition example_step :: Step where
  "example_step =
     \<lparr>st_Name = ''reboot'', st_Description = [], st_Command = ''reboot'', st_Script = [], st_Copy = None,
      st_Sudo = None, st_Expect = Expect_zero, st_Timeout = 0, st_Retries = None, st_RetryDelay = 0,
      st_ContinueOnError = False, st_Sensitive = True, st_Reboot = True, st_Disconnect = False,
      st_ReconnectTimeout = 0, st_FireAndForget = False, st_scriptBody = []\<rparr>"

definition example_settings :: Settings where
  "example_settings = \<lparr>set_Timeout = 5 * Minute, set_RetryDelay = 2 * Second\<rparr>"

definition retrying_job :: Job where
  "retrying_job = example_job\<lparr>job_Defaults := \<lparr>def_Timeout = 0, def_Retries = 3, def_RetryDelay = 0, def_Sudo = True\<rparr>\<rparr>"

definition example_built :: Action where
  "example_built = projr (build retrying_job example_step [] example_settings)"

lemma example_build: "build retrying_job example_step [] example_settings = Inr example_built"
  by code_simp

theorem build_no_rerun_witness:
  "act_Reboot example_built \<and> act_Retries example_built = 0 \<and> act_ReconnectTimeout example_built > 0"
proof -
  have "act_Reboot example_built" by code_simp
  then show ?thesis
    using build_no_rerun [OF example_build] by blast
qed

text \<open>
  The text of a sensitive command never reaches the remote process list or a report: its display
  is the mask, and the command line run is the same for every command text (it names only the
  uploaded file).
\<close>

theorem build_sensitive_hidden:
  assumes "build j st vars s = Inr a" and "st_Sensitive st" and "st_Command st \<noteq> ''''"
  shows "act_Display a = SensitiveMask \<and>
         act_Content a = Some (act_Shell a @ [newline]) \<and>
         Remote a tmp pw = cleanup (wrap a pw (''sh '' @ Quote tmp)) tmp \<and>
         wrap a pw cmd = wrap (a\<lparr>act_Shell := other\<rparr>) pw cmd"
proof -
  obtain cs ncs a' where
    k: "build_kind st vars ((build_base j st s)\<lparr>act_Contains := cs, act_NotContains := ncs\<rparr>) = Inr a'"
    and a: "a = build_mask a'"
    using build_InrD [OF assms(1)] by blast
  have "act_Kind a' = KindCommand" and "act_Sensitive a'"
    using k assms(2,3) build_kind_keeps(2) [OF k]
    by (auto simp: build_kind_def build_base_def Let_def result_simps)
  then show ?thesis
    using a by (auto simp: build_mask_def Let_def Remote_def kind_defs wrap_def)
qed

theorem build_sensitive_hidden_witness:
  "Remote example_built ''/tmp/x'' False = cleanup (wrap example_built False (''sh '' @ Quote ''/tmp/x'')) ''/tmp/x''"
  using build_sensitive_hidden [OF example_build] by (simp add: example_step_def)

text \<open>
  The exports written at the top of a script do not depend on the iteration order of the
  variable map.
\<close>

theorem exports_order_irrelevant:
  assumes "gomap_ok vars" and "mset vars = mset vars'"
  shows "exports vars = exports vars'"
proof -
  have "mset (map fst vars) = mset (map fst vars')"
    using assms(2) by (metis mset_map)
  then have "sort (map fst vars) = sort (map fst vars')"
    by (simp add: properties_for_sort)
  moreover have "lookup_str vars = lookup_str vars'"
    using gomap_order_irrelevant(2) [OF assms] by (auto simp: lookup_str_def)
  ultimately show ?thesis
    by (simp add: exports_def)
qed

theorem exports_order_irrelevant_witness:
  "exports [(''b'', ''1''), (''a'', ''2'')] = exports [(''a'', ''2''), (''b'', ''1'')]"
  by (rule exports_order_irrelevant) (simp_all add: gomap_ok_def)

end
