(* ===== verification/Credentials.thy ===== *)
theory Credentials
  imports Domain
begin

text \<open>
  Package \<open>internal/credentials\<close>: reading secrets for a credential (\<open>Resolve\<close>, \<open>loadKey\<close>,
  \<open>ExpandHome\<close>) and the \<open>Redactor\<close>. The environment, the file system and the key parser of
  \<open>golang.org/x/crypto/ssh\<close> are parameters. \<open>sort.Slice\<close> leaves the order of secrets of equal
  length open; the model sorts stably, and the properties of \<open>String\<close> hold for every order.
\<close>

section \<open>Paths\<close>

text \<open>\<open>filepath.Clean\<close> and \<open>filepath.Join\<close> on Unix.\<close>

fun clean_parts :: "bool \<Rightarrow> string list \<Rightarrow> string list \<Rightarrow> string list" where
  "clean_parts rooted stack [] = rev stack"
| "clean_parts rooted stack (p # ps) =
     (if p = '''' \<or> p = ''.'' then clean_parts rooted stack ps
      else if p = ''..'' then
        (case stack of
           [] \<Rightarrow> clean_parts rooted (if rooted then [] else [''..'']) ps
         | q # qs \<Rightarrow> if q = ''..'' then clean_parts rooted (''..'' # stack) ps else clean_parts rooted qs ps)
      else clean_parts rooted (p # stack) ps)"

definition path_clean :: "string \<Rightarrow> string" where
  "path_clean p =
     (let rooted = has_prefix p ''/'';
          out = (if rooted then ''/'' else '''') @ join (clean_parts rooted [] (split_str p ''/'')) ''/''
      in if out = '''' then ''.'' else out)"

definition path_join :: "string \<Rightarrow> string \<Rightarrow> string" where
  "path_join a b =
     (let es = filter (\<lambda>e. e \<noteq> '''') [a, b] in if es = [] then '''' else path_clean (join es ''/''))"

section \<open>Resolving a credential\<close>

datatype 'k AuthMethod = Password string | KeyboardInteractive string | PublicKeys 'k

record 'k Auth =
  auth_Methods :: "'k AuthMethod list"
  auth_SudoPassword :: string
  auth_Secrets :: "string list"

datatype key_error = PassphraseMissing | KeyUnparsable

text \<open>What \<open>Resolve\<close> uses of its surroundings: the environment lookup, the home directory, reading
  a file (or the text of the error) and the two key parsers.\<close>

record 'k cred_env =
  ce_env :: "string \<Rightarrow> string option"
  ce_home :: "string option"
  ce_read :: "string \<Rightarrow> string + string"
  ce_parse :: "string \<Rightarrow> key_error + 'k"
  ce_parse_pass :: "string \<Rightarrow> string \<Rightarrow> 'k option"

definition ExpandHome :: "string option \<Rightarrow> string \<Rightarrow> string" where
  "ExpandHome home p =
     (if has_prefix p ''~/'' then (case home of Some h \<Rightarrow> path_join h (drop 2 p) | None \<Rightarrow> p) else p)"

definition auth_fail :: "Credential \<Rightarrow> string \<Rightarrow> Failure" where
  "auth_fail c msg = Fail CatAuthFailed (''credential '' @ fmt_q (cred_Name c) @ '': '' @ msg)"

definition env_unset :: "Credential \<Rightarrow> string \<Rightarrow> Failure" where
  "env_unset c name = auth_fail c (''environment variable '' @ name @ '' is not set'')"

text \<open>\<open>loadKey\<close> returns the signer and the passphrase it registered as a secret, if any.\<close>

definition loadKey :: "'k cred_env \<Rightarrow> Credential \<Rightarrow> Failure + ('k \<times> string list)" where
  "loadKey E c =
     (let path = ExpandHome (ce_home E) (cred_KeyFile c) in
      case ce_read E path of
        Inl msg \<Rightarrow> Inl (auth_fail c (''cannot read key file '' @ path @ '': '' @ msg))
      | Inr data \<Rightarrow>
          if cred_PassphraseEnv c \<noteq> '''' then
            (case ce_env E (cred_PassphraseEnv c) of
               None \<Rightarrow> Inl (env_unset c (cred_PassphraseEnv c))
             | Some pass \<Rightarrow>
                 (case ce_parse_pass E data pass of
                    None \<Rightarrow> Inl (auth_fail c ''cannot decrypt private key'')
                  | Some s \<Rightarrow> Inr (s, [pass])))
          else
            (case ce_parse E data of
               Inl PassphraseMissing \<Rightarrow>
                 Inl (auth_fail c ''key is encrypted but passphrase_env is not set'')
             | Inl KeyUnparsable \<Rightarrow> Inl (auth_fail c ''cannot parse private key'')
             | Inr s \<Rightarrow> Inr (s, [])))"

definition env_nonempty :: "'k cred_env \<Rightarrow> string \<Rightarrow> string option" where
  "env_nonempty E name = (case ce_env E name of Some v \<Rightarrow> if v = '''' then None else Some v | None \<Rightarrow> None)"

definition Resolve_auth :: "'k cred_env \<Rightarrow> Credential \<Rightarrow> Failure + 'k Auth" where
  "Resolve_auth E c =
     bind_result
       (if cred_Type c = ''password'' then
          (case env_nonempty E (cred_PasswordEnv c) of
             None \<Rightarrow> Inl (env_unset c (cred_PasswordEnv c))
           | Some pw \<Rightarrow> Inr \<lparr>auth_Methods = [Password pw, KeyboardInteractive pw],
                            auth_SudoPassword = pw, auth_Secrets = [pw]\<rparr>)
        else if cred_Type c = ''private_key'' then
          bind_result (loadKey E c) (\<lambda>(signer, secrets).
            Inr \<lparr>auth_Methods = [PublicKeys signer], auth_SudoPassword = '''', auth_Secrets = secrets\<rparr>)
        else Inl (auth_fail c (''unsupported type '' @ fmt_q (cred_Type c))))
       (\<lambda>a. if cred_SudoPasswordEnv c = '''' then Inr a
            else (case env_nonempty E (cred_SudoPasswordEnv c) of
                    None \<Rightarrow> Inl (env_unset c (cred_SudoPasswordEnv c))
                  | Some pw \<Rightarrow> Inr (a\<lparr>auth_SudoPassword := pw, auth_Secrets := auth_Secrets a @ [pw]\<rparr>)))"

section \<open>The redactor\<close>

definition MinSecretLen :: nat where "MinSecretLen = 3"

definition redacted :: string where "redacted = ''[REDACTED]''"

record Redactor =
  rd_secrets :: "string list"

definition add_secret :: "string \<Rightarrow> string list \<Rightarrow> string list" where
  "add_secret s ss = (if MinSecretLen \<le> length s \<and> s \<notin> set ss then ss @ [s] else ss)"

definition Add :: "Redactor \<Rightarrow> string list \<Rightarrow> Redactor" where
  "Add r secrets = r\<lparr>rd_secrets := sort_key (\<lambda>s. - int (length s)) (fold add_secret secrets (rd_secrets r))\<rparr>"

definition String :: "Redactor \<Rightarrow> string \<Rightarrow> string" where
  "String r s = fold (\<lambda>sec t. replace_all t sec redacted) (rd_secrets r) s"

section \<open>Properties of credentials\<close>

text \<open>The texts an error of \<open>Resolve\<close> can have, computed from the credential, the path of its key
  file and the error of reading that file: no value of the environment is an input.\<close>

definition resolve_reasons :: "Credential \<Rightarrow> string \<Rightarrow> string \<Rightarrow> string set" where
  "resolve_reasons c path read_err =
     Reason ` ({env_unset c (cred_PasswordEnv c), env_unset c (cred_SudoPasswordEnv c),
       env_unset c (cred_PassphraseEnv c)} \<union>
       auth_fail c ` {''cannot read key file '' @ path @ '': '' @ read_err, ''cannot decrypt private key'',
         ''key is encrypted but passphrase_env is not set'', ''cannot parse private key'',
         ''unsupported type '' @ fmt_q (cred_Type c)})"

text \<open>
  An error of \<open>Resolve\<close> is an authentication failure whose text is one of eight, none of which
  depends on the value of an environment variable: it cannot contain a secret.
\<close>

theorem Resolve_auth_error_secret_free:
  assumes "Resolve_auth E c = Inl f"
  shows "Category f = CatAuthFailed \<and>
         Reason f \<in> resolve_reasons c (ExpandHome (ce_home E) (cred_KeyFile c))
           (case ce_read E (ExpandHome (ce_home E) (cred_KeyFile c)) of Inl m \<Rightarrow> m | Inr _ \<Rightarrow> '''')"
  using assms
  by (auto simp: Resolve_auth_def loadKey_def resolve_reasons_def bind_result_def env_unset_def auth_fail_def
      Let_def split: if_splits option.splits sum.splits key_error.splits)

definition example_cred :: Credential where
  "example_cred = \<lparr>cred_Name = ''legacy'', cred_Type = ''password'', cred_Username = ''admin'',
     cred_PasswordEnv = ''PW'', cred_KeyFile = '''', cred_PassphraseEnv = '''', cred_SudoPasswordEnv = ''SUDO''\<rparr>"

definition example_cred_env :: "unit cred_env" where
  "example_cred_env = \<lparr>ce_env = map_of [(''PW'', ''hunter2'')], ce_home = None, ce_read = \<lambda>_. Inl ''no such file'',
     ce_parse = \<lambda>_. Inl KeyUnparsable, ce_parse_pass = \<lambda>_ _. None\<rparr>"

lemma example_resolve_auth: "Resolve_auth example_cred_env example_cred = Inl (env_unset example_cred ''SUDO'')"
  by code_simp

theorem Resolve_auth_error_secret_free_witness:
  "Category (env_unset example_cred ''SUDO'') = CatAuthFailed"
  using Resolve_auth_error_secret_free [OF example_resolve_auth] by blast

text \<open>
  A resolved credential registers everything it authenticates with: a password and a non-empty
  sudo password are among the secrets given to the redactor, and a password credential uses its own
  password for sudo unless a sudo password is configured.
\<close>

theorem Resolve_auth_secrets:
  assumes "Resolve_auth E c = Inr a"
  shows "(\<forall>pw. Password pw \<in> set (auth_Methods a) \<or> KeyboardInteractive pw \<in> set (auth_Methods a) \<longrightarrow>
            pw \<in> set (auth_Secrets a)) \<and>
         (auth_SudoPassword a \<noteq> '''' \<longrightarrow> auth_SudoPassword a \<in> set (auth_Secrets a)) \<and>
         (cred_SudoPasswordEnv c = '''' \<and> cred_Type c = ''password'' \<longrightarrow>
            ce_env E (cred_PasswordEnv c) = Some (auth_SudoPassword a))"
  using assms
  by (auto simp: Resolve_auth_def bind_result_def env_nonempty_def
      split: if_splits option.splits sum.splits)

theorem Resolve_auth_secrets_witness:
  "auth_SudoPassword (projr (Resolve_auth example_cred_env (example_cred\<lparr>cred_SudoPasswordEnv := ''''\<rparr>))) = ''hunter2''"
proof -
  let ?c = "example_cred\<lparr>cred_SudoPasswordEnv := ''''\<rparr>"
  have r: "Resolve_auth example_cred_env ?c = Inr (projr (Resolve_auth example_cred_env ?c))"
    by code_simp
  show ?thesis
    using Resolve_auth_secrets [OF r] by (simp add: example_cred_def example_cred_env_def)
qed

section \<open>Properties of the redactor\<close>

definition redactor_ok :: "Redactor \<Rightarrow> bool" where
  "redactor_ok r \<longleftrightarrow> distinct (rd_secrets r) \<and> (\<forall>s \<in> set (rd_secrets r). MinSecretLen \<le> length s) \<and>
     sorted_wrt (\<lambda>s t. length t \<le> length s) (rd_secrets r)"

lemma fold_add_secret:
  "set (fold add_secret ss xs) = set xs \<union> {s \<in> set ss. MinSecretLen \<le> length s}"
  "distinct xs \<Longrightarrow> distinct (fold add_secret ss xs)"
  by (induction ss arbitrary: xs) (auto simp: add_secret_def)

lemma set_Add: "set (rd_secrets (Add r ss)) = set (rd_secrets r) \<union> {s \<in> set ss. MinSecretLen \<le> length s}"
  by (simp add: Add_def fold_add_secret)

lemma redactor_ok_Add: "redactor_ok r \<Longrightarrow> redactor_ok (Add r ss)"
proof -
  assume r: "redactor_ok r"
  let ?xs = "rd_secrets (Add r ss)"
  have "sorted (map (\<lambda>s. - int (length s)) ?xs)"
    by (simp add: Add_def)
  then have "sorted_wrt (\<lambda>s t. length t \<le> length s) ?xs"
    by (simp add: sorted_map)
  moreover have "distinct ?xs"
    using r by (simp add: Add_def redactor_ok_def fold_add_secret)
  ultimately show ?thesis
    using r by (auto simp: redactor_ok_def set_Add)
qed

text \<open>A secret can be told apart from the marker: it has no bracket and is no part of the marker.\<close>

definition maskable :: "string \<Rightarrow> bool" where
  "maskable s \<longleftrightarrow> s \<noteq> [] \<and> CHR ''['' \<notin> set s \<and> CHR '']'' \<notin> set s \<and> \<not> contains redacted s"

lemma replace_redacted_contains:
  assumes "maskable t" and "sec \<noteq> []" and "contains (replace_all s sec redacted) t"
  shows "contains s t \<and> t \<noteq> sec"
  using contains_replace_all [of sec redacted t s] assms by (auto simp: maskable_def redacted_def)

lemma fold_replace_contains:
  "maskable t \<Longrightarrow> [] \<notin> set secs \<Longrightarrow>
   contains (fold (\<lambda>sec u. replace_all u sec redacted) secs s) t \<Longrightarrow> contains s t \<and> t \<notin> set secs"
proof (induction secs arbitrary: s)
  case (Cons sec secs)
  have "contains (replace_all s sec redacted) t \<and> t \<notin> set secs"
    using Cons by simp
  then show ?case
    using replace_redacted_contains [OF Cons.prems(1), of sec s] Cons.prems(2) by auto
qed simp

lemma String_hides:
  assumes "redactor_ok r" and "sec \<in> set (rd_secrets r)" and "maskable sec"
  shows "\<not> contains (String r s) sec"
proof
  assume "contains (String r s) sec"
  moreover have "[] \<notin> set (rd_secrets r)"
    using assms(1) by (auto simp: redactor_ok_def MinSecretLen_def)
  ultimately show False
    using fold_replace_contains [OF assms(3)] assms(2) by (simp add: String_def)
qed

lemma String_identity: "(\<forall>sec \<in> set (rd_secrets r). \<not> contains s sec) \<Longrightarrow> String r s = s"
proof -
  have "(\<forall>sec \<in> set secs. \<not> contains s sec) \<Longrightarrow> fold (\<lambda>sec u. replace_all u sec redacted) secs s = s" for secs
    by (induction secs) (simp_all add: replace_all_absent)
  then show "(\<forall>sec \<in> set (rd_secrets r). \<not> contains s sec) \<Longrightarrow> String r s = s"
    by (simp add: String_def)
qed

text \<open>
  The interface of a redactor, as the runner uses it: registering secrets only adds, and no
  registered secret survives in what is shown.
\<close>

locale redaction =
  fixes empty :: 'r
    and add :: "'r \<Rightarrow> string list \<Rightarrow> 'r"
    and scrub :: "'r \<Rightarrow> string \<Rightarrow> string"
    and known :: "'r \<Rightarrow> string set"
    and invar :: "'r \<Rightarrow> bool"
  assumes known_empty: "known empty = {}"
    and invar_empty: "invar empty"
    and known_add: "known (add r ss) = known r \<union> {s \<in> set ss. MinSecretLen \<le> length s}"
    and invar_add: "invar r \<Longrightarrow> invar (add r ss)"
    and scrub_hides: "invar r \<Longrightarrow> s \<in> known r \<Longrightarrow> maskable s \<Longrightarrow> \<not> contains (scrub r t) s"
    and scrub_identity: "(\<forall>s \<in> known r. \<not> contains t s) \<Longrightarrow> scrub r t = t"
begin

lemma invar_adds: "invar r \<Longrightarrow> invar (fold (\<lambda>ss r. add r ss) sss r)"
  by (induction sss arbitrary: r) (auto intro: invar_add)

lemma known_adds:
  "known (fold (\<lambda>ss r. add r ss) sss r) = known r \<union> {s \<in> \<Union> (set ` set sss). MinSecretLen \<le> length s}"
  by (induction sss arbitrary: r) (auto simp: known_add)

lemma scrub_after_adds:
  assumes "ss \<in> set sss" and "s \<in> set ss" and "MinSecretLen \<le> length s" and "maskable s"
  shows "\<not> contains (scrub (fold (\<lambda>ss r. add r ss) sss empty) t) s"
proof (rule scrub_hides)
  show "invar (fold (\<lambda>ss r. add r ss) sss empty)"
    by (rule invar_adds) (rule invar_empty)
  show "s \<in> known (fold (\<lambda>ss r. add r ss) sss empty)"
    using assms(1-3) by (auto simp: known_adds)
qed (rule assms(4))

end

interpretation redactor: redaction "\<lparr>rd_secrets = []\<rparr>" Add String "\<lambda>r. set (rd_secrets r)" redactor_ok
  by unfold_locales
    (auto simp: set_Add redactor_ok_Add String_hides redactor_ok_def [of "\<lparr>rd_secrets = []\<rparr>"] intro: String_identity)

text \<open>
  After any sequence of registrations, no text the redactor returns contains a registered secret
  of at least three bytes, unless the secret shares its brackets or its letters with the marker itself.
\<close>

theorem redactor_hides_secrets:
  assumes "ss \<in> set sss" and "s \<in> set ss" and "MinSecretLen \<le> length s" and "maskable s"
  shows "\<not> contains (String (fold (\<lambda>ss r. Add r ss) sss \<lparr>rd_secrets = []\<rparr>) t) s"
  using assms by (rule redactor.scrub_after_adds)

theorem redactor_hides_secrets_witness:
  "\<not> contains (String (fold (\<lambda>ss r. Add r ss) [[''tok''], [''hunter2'', ''x'']] \<lparr>rd_secrets = []\<rparr>)
      ''login hunter2 ok'') ''hunter2''"
  by (rule redactor_hides_secrets [of "[''hunter2'', ''x'']"])
    (simp_all add: MinSecretLen_def maskable_def redacted_def has_prefix_def)

text \<open>
  Redaction does not touch other text: a string in which no registered secret occurs is returned
  unchanged.
\<close>

theorem redactor_identity:
  assumes "\<And>s. s \<in> set (rd_secrets r) \<Longrightarrow> \<not> contains t s"
  shows "String r t = t"
  using assms by (intro redactor.scrub_identity) blast

theorem redactor_identity_witness:
  "String (Add \<lparr>rd_secrets = []\<rparr> [''hunter2'']) ''uptime'' = ''uptime''"
proof (rule redactor_identity)
  fix s
  assume "s \<in> set (rd_secrets (Add \<lparr>rd_secrets = []\<rparr> [''hunter2'']))"
  then show "\<not> contains ''uptime'' s"
    by (simp add: set_Add has_prefix_def)
qed

text \<open>
  Two secrets that overlap in the text are not fully replaced, although the longest is taken
  first: what is left of the second one stays readable.
\<close>

theorem redactor_overlap_leaves_rest:
  "String (Add \<lparr>rd_secrets = []\<rparr> [''abcd'', ''cdefgh'']) ''abcdefgh'' = ''ab[REDACTED]'' \<and>
   String (Add \<lparr>rd_secrets = []\<rparr> [''abcdef'', ''efghij'']) ''abcdefghij'' = ''[REDACTED]ghij''"
  by code_simp

end
