(* ===== verification/Buffer.thy ===== *)
theory Buffer
  imports Go_Strings
begin

text \<open>
  \<open>internal/sshx/buffer.go\<close>: a stream of command output kept in bounded memory, with patterns
  searched over the whole stream as it arrives. Sizes are natural numbers: the command line accepts
  limits of at least 1024 bytes. The byte total is a Go \<open>int64\<close>, far above what a stream can hold.
\<close>

record Buffer =
  bf_limit :: nat
  bf_head :: string
  bf_tail :: string
  bf_total :: nat
  bf_truncated :: bool
  bf_pats :: "string list"
  bf_found :: "bool list"
  bf_carry :: string
  bf_keep :: nat

definition NewBuffer :: "nat \<Rightarrow> string list \<Rightarrow> Buffer" where
  "NewBuffer limit patterns =
     \<lparr>bf_limit = limit, bf_head = [], bf_tail = [], bf_total = 0, bf_truncated = False,
      bf_pats = patterns, bf_found = map (\<lambda>_. False) patterns, bf_carry = [],
      bf_keep = fold (\<lambda>p k. max k (length p - 1)) patterns 0\<rparr>"

definition scan :: "Buffer \<Rightarrow> string \<Rightarrow> Buffer" where
  "scan b p =
     (if bf_pats b = [] \<or> p = [] then b
      else let buf = bf_carry b @ p in
        b\<lparr>bf_found := map2 (\<lambda>f pat. f \<or> contains buf pat) (bf_found b) (bf_pats b),
          bf_carry := drop (length buf - bf_keep b) buf\<rparr>)"

definition append_chunk :: "Buffer \<Rightarrow> string \<Rightarrow> Buffer" where
  "append_chunk b p =
     (let half = bf_limit b div 2 in
      if \<not> bf_truncated b \<and> length (bf_head b) + length p \<le> bf_limit b
        then b\<lparr>bf_head := bf_head b @ p\<rparr>
      else if \<not> bf_truncated b
        then let all = bf_head b @ p in
             b\<lparr>bf_truncated := True, bf_head := take half all, bf_tail := drop half all\<rparr>
      else b\<lparr>bf_tail := bf_tail b @ p\<rparr>)"

definition trim_tail :: "Buffer \<Rightarrow> Buffer" where
  "trim_tail b =
     (let half = bf_limit b div 2 in
      if length (bf_tail b) > 2 * half
      then b\<lparr>bf_tail := drop (length (bf_tail b) - half) (bf_tail b)\<rparr> else b)"

definition Write :: "Buffer \<Rightarrow> string \<Rightarrow> Buffer" where
  "Write b p = trim_tail (append_chunk (scan (b\<lparr>bf_total := bf_total b + length p\<rparr>) p) p)"

definition Found :: "Buffer \<Rightarrow> nat \<Rightarrow> bool" where
  "Found b i = bf_found b ! i"

definition Truncated :: "Buffer \<Rightarrow> bool" where
  "Truncated b = bf_truncated b"

definition Total :: "Buffer \<Rightarrow> nat" where
  "Total b = bf_total b"

definition truncation_marker :: "int \<Rightarrow> string" where
  "truncation_marker n = [CHR 0x0A] @ ''...[truncated '' @ itoa n @ '' bytes]...'' @ [CHR 0x0A]"

definition Buffer_String :: "Buffer \<Rightarrow> string" where
  "Buffer_String b =
     (if \<not> bf_truncated b then bf_head b
      else let t = drop (length (bf_tail b) - bf_limit b div 2) (bf_tail b);
               dropped = int (bf_total b) - int (length (bf_head b)) - int (length t)
           in bf_head b @ truncation_marker dropped @ t)"

section \<open>The last bytes of a stream\<close>

definition lastn :: "nat \<Rightarrow> 'a list \<Rightarrow> 'a list" where
  "lastn n xs = drop (length xs - n) xs"

lemma lastn_suffix: "suffix (lastn n xs) xs"
  by (simp add: lastn_def suffix_drop)

lemma length_lastn [simp]: "length (lastn n xs) = min n (length xs)"
  by (auto simp: lastn_def)

lemma lastn_lastn_append [simp]: "lastn n (lastn n xs @ ys) = lastn n (xs @ ys)"
  by (cases "n \<le> length xs") (auto simp: lastn_def add.commute)

lemma lastn_lastn: "n \<le> m \<Longrightarrow> lastn n (lastn m xs) = lastn n xs"
  by (cases "m \<le> length xs") (auto simp: lastn_def)

lemma lastn_append: "lastn (n + length ys) (xs @ ys) = lastn n xs @ ys"
  by (auto simp: lastn_def)

lemma lastn_of_suffix: "suffix t xs \<Longrightarrow> t = lastn (length t) xs"
  by (auto simp: lastn_def suffix_def)

lemma suffix_lastn: "suffix u xs \<Longrightarrow> length u \<le> n \<Longrightarrow> suffix u (lastn n xs)"
  by (rule suffix_length_suffix [OF _ lastn_suffix]) (auto dest: suffix_length_le)

lemma contains_append_lastn:
  assumes "pat \<noteq> []" and "length pat - 1 \<le> k"
  shows "contains (s @ p) pat \<longleftrightarrow> contains s pat \<or> contains (lastn k s @ p) pat"
proof
  assume "contains (s @ p) pat"
  then consider "sublist pat s" | "sublist pat p"
    | u v where "pat = u @ v" "suffix u s" "prefix v p"
    by (auto simp: contains_iff sublist_append)
  then show "contains s pat \<or> contains (lastn k s @ p) pat"
  proof cases
    case 3
    show ?thesis
    proof (cases "v = []")
      case True
      then show ?thesis using 3 by (simp add: contains_iff suffix_imp_sublist)
    next
      case False
      then have "length u \<le> k"
        using 3(1) assms by (cases v) auto
      then have "suffix u (lastn k s)"
        using 3(2) by (rule suffix_lastn [rotated])
      then show ?thesis
        using 3 by (auto simp: contains_iff sublist_append)
    qed
  qed (auto simp: contains_iff sublist_append)
next
  assume "contains s pat \<or> contains (lastn k s @ p) pat"
  moreover have "suffix (lastn k s @ p) (s @ p)"
    using lastn_suffix by (simp add: suffix_def) (metis append_assoc lastn_suffix suffix_def)
  ultimately show "contains (s @ p) pat"
    by (meson contains_appendI(1) contains_iff sublist_order.order_trans suffix_imp_sublist)
qed

section \<open>The buffer and its stream\<close>

text \<open>The state of a buffer that has received the bytes \<open>S\<close>.\<close>

definition holds_search :: "Buffer \<Rightarrow> nat \<Rightarrow> string list \<Rightarrow> string \<Rightarrow> bool" where
  "holds_search b limit pats S \<longleftrightarrow>
     bf_limit b = limit \<and> bf_pats b = pats \<and> length (bf_found b) = length pats \<and>
     (\<forall>p \<in> set pats. length p - 1 \<le> bf_keep b) \<and>
     (pats \<noteq> [] \<longrightarrow> bf_carry b = lastn (bf_keep b) S) \<and>
     (\<forall>i < length pats. bf_found b ! i \<longleftrightarrow> contains S (pats ! i))"

definition holds_text :: "Buffer \<Rightarrow> nat \<Rightarrow> string \<Rightarrow> bool" where
  "holds_text b limit S \<longleftrightarrow>
     bf_limit b = limit \<and> bf_total b = length S \<and>
     (bf_truncated b \<longleftrightarrow> limit < length S) \<and>
     (if bf_truncated b
      then bf_head b = take (limit div 2) S \<and>
           limit div 2 \<le> length (bf_tail b) \<and> length (bf_tail b) \<le> 2 * (limit div 2) \<and>
           bf_tail b = lastn (length (bf_tail b)) S
      else bf_head b = S \<and> bf_tail b = [])"

lemma keep_bound:
  "k \<le> fold (\<lambda>p k. max k (length p - 1)) pats k \<and>
   (\<forall>p \<in> set pats. length p - 1 \<le> fold (\<lambda>p k. max k (length p - 1)) pats k)"
proof (induction pats arbitrary: k)
  case (Cons p pats)
  have "max k (length p - 1) \<le> fold (\<lambda>p k. max k (length p - 1)) pats (max k (length p - 1))"
    and "\<forall>q \<in> set pats. length q - 1 \<le> fold (\<lambda>p k. max k (length p - 1)) pats (max k (length p - 1))"
    using Cons.IH by blast+
  then show ?case by simp
qed simp

lemma holds_search_new: "[] \<notin> set pats \<Longrightarrow> holds_search (NewBuffer limit pats) limit pats []"
  using keep_bound [of 0 pats] by (auto simp: holds_search_def NewBuffer_def lastn_def in_set_conv_nth)

lemma holds_text_new: "holds_text (NewBuffer limit pats) limit []"
  by (simp add: holds_text_def NewBuffer_def)

lemma frame_search [simp]:
  "bf_found (append_chunk b p) = bf_found b" "bf_found (trim_tail b) = bf_found b"
  "bf_pats (append_chunk b p) = bf_pats b" "bf_pats (trim_tail b) = bf_pats b"
  "bf_carry (append_chunk b p) = bf_carry b" "bf_carry (trim_tail b) = bf_carry b"
  "bf_keep (append_chunk b p) = bf_keep b" "bf_keep (trim_tail b) = bf_keep b"
  "bf_limit (append_chunk b p) = bf_limit b" "bf_limit (trim_tail b) = bf_limit b"
  "bf_total (append_chunk b p) = bf_total b" "bf_total (trim_tail b) = bf_total b"
  by (simp_all add: append_chunk_def trim_tail_def Let_def)

lemma frame_scan [simp]:
  "bf_limit (scan b p) = bf_limit b" "bf_head (scan b p) = bf_head b" "bf_tail (scan b p) = bf_tail b"
  "bf_total (scan b p) = bf_total b" "bf_truncated (scan b p) = bf_truncated b"
  "bf_pats (scan b p) = bf_pats b" "bf_keep (scan b p) = bf_keep b"
  by (simp_all add: scan_def Let_def)

lemma holds_search_write:
  assumes "[] \<notin> set pats" and "holds_search b limit pats S"
  shows "holds_search (Write b p) limit pats (S @ p)"
proof (cases "pats = [] \<or> p = []")
  case True
  then show ?thesis
    using assms(2) by (auto simp: holds_search_def Write_def scan_def)
next
  case False
  let ?k = "bf_keep b"
  have c: "bf_carry b = lastn ?k S" and f: "\<forall>i < length pats. bf_found b ! i \<longleftrightarrow> contains S (pats ! i)"
    and k: "\<forall>p \<in> set pats. length p - 1 \<le> ?k" and l: "length (bf_found b) = length pats"
    using assms(2) False by (auto simp: holds_search_def)
  have carry: "drop (length (lastn ?k S @ p) - ?k) (lastn ?k S @ p) = lastn ?k (S @ p)"
    using lastn_lastn_append [of ?k S p] by (simp only: lastn_def [of ?k "lastn ?k S @ p"])
  have "contains (S @ p) (pats ! i) \<longleftrightarrow> contains S (pats ! i) \<or> contains (lastn ?k S @ p) (pats ! i)"
    if "i < length pats" for i
    using assms(1) k nth_mem [OF that] by (intro contains_append_lastn) auto
  then show ?thesis
    using assms(2) False c f l carry
    by (auto simp: holds_search_def Write_def scan_def Let_def)
qed

lemma holds_text_write:
  assumes "holds_text b limit S"
  shows "holds_text (Write b p) limit (S @ p)"
proof -
  let ?h = "limit div 2"
  let ?b = "append_chunk (scan (b\<lparr>bf_total := bf_total b + length p\<rparr>) p) p"
  have w: "Write b p = trim_tail ?b" by (simp add: Write_def)
  have lim: "bf_limit b = limit" and tot: "bf_total b = length S" and t: "bf_truncated b \<longleftrightarrow> limit < length S"
    using assms by (simp_all add: holds_text_def)
  have pre: "bf_limit ?b = limit" "bf_total ?b = length (S @ p)"
    using lim tot by simp_all
  have trunc: "bf_truncated ?b \<longleftrightarrow> limit < length (S @ p)"
    and untrunc: "\<not> bf_truncated ?b \<Longrightarrow> bf_head ?b = S @ p \<and> bf_tail ?b = []"
    and head: "bf_truncated ?b \<Longrightarrow> bf_head ?b = take ?h (S @ p)"
    and long: "bf_truncated ?b \<Longrightarrow> ?h \<le> length (bf_tail ?b)"
    using assms lim t
    by (auto simp: holds_text_def append_chunk_def Let_def split: if_splits)
  have "suffix (bf_tail b) S"
    using assms lastn_suffix [of _ S] by (auto simp: holds_text_def split: if_splits) metis
  then have "suffix (bf_tail ?b) (S @ p)" if "bf_truncated ?b"
    using that assms by (auto simp: holds_text_def append_chunk_def Let_def suffix_drop simp del: drop_append split: if_splits)
  then have tail: "bf_truncated ?b \<Longrightarrow> ?h \<le> length (bf_tail ?b) \<and> bf_tail ?b = lastn (length (bf_tail ?b)) (S @ p)"
    using long lastn_of_suffix by blast
  show ?thesis
  proof (cases "bf_truncated ?b")
    case False
    then show ?thesis
      using w pre trunc untrunc by (auto simp: holds_text_def trim_tail_def Let_def)
  next
    case True
    have cut: "lastn ?h (bf_tail ?b) = lastn ?h (S @ p)"
      using tail [OF True] lastn_lastn [of ?h "length (bf_tail ?b)" "S @ p"] by metis
    show ?thesis
    proof (cases "length (bf_tail ?b) > 2 * ?h")
      case big: True
      then have "bf_tail (trim_tail ?b) = lastn ?h (S @ p)"
        using cut pre by (simp add: trim_tail_def Let_def lastn_def)
      moreover have "bf_head (trim_tail ?b) = bf_head ?b" "bf_truncated (trim_tail ?b) = bf_truncated ?b"
        by (simp_all add: trim_tail_def Let_def)
      moreover have "?h \<le> length (S @ p)"
        using trunc True by simp
      ultimately show ?thesis
        using w pre trunc head True by (auto simp: holds_text_def min_def)
    next
      case False
      then have "trim_tail ?b = ?b"
        using pre by (simp add: trim_tail_def Let_def)
      then show ?thesis
        using w pre trunc head tail True False by (auto simp: holds_text_def)
    qed
  qed
qed

lemma writes_hold:
  "[] \<notin> set pats \<Longrightarrow> holds_search b limit pats S \<Longrightarrow>
     holds_search (fold (\<lambda>p b. Write b p) ps b) limit pats (S @ concat ps)"
  "holds_text b limit S \<Longrightarrow> holds_text (fold (\<lambda>p b. Write b p) ps b) limit (S @ concat ps)"
proof (induction ps arbitrary: b S)
  case (Cons p ps)
  {
    case 1
    then show ?case
      using Cons(1) [of "Write b p" "S @ p"] holds_search_write by simp
  next
    case 2
    then show ?case
      using Cons(2) [of "Write b p" "S @ p"] holds_text_write by simp
  }
qed simp_all

text \<open>What is kept of a stream, as a function of the whole stream.\<close>

definition retained :: "nat \<Rightarrow> string \<Rightarrow> string" where
  "retained limit S =
     (if length S \<le> limit then S
      else take (limit div 2) S @ truncation_marker (int (length S) - 2 * int (limit div 2)) @ lastn (limit div 2) S)"

lemma holds_text_String: "holds_text b limit S \<Longrightarrow> Buffer_String b = retained limit S"
proof -
  assume h: "holds_text b limit S"
  show ?thesis
  proof (cases "bf_truncated b")
    case True
    let ?h = "limit div 2"
    have t: "lastn ?h (bf_tail b) = lastn ?h S"
      using h True lastn_lastn [of ?h "length (bf_tail b)" S] by (auto simp: holds_text_def)
    have s: "limit < length S"
      using h True by (simp add: holds_text_def)
    then have l: "?h \<le> length S" by simp
    have "drop (length (bf_tail b) - bf_limit b div 2) (bf_tail b) = lastn ?h S"
      using t h by (simp add: lastn_def holds_text_def)
    then show ?thesis
      using h True l s by (simp add: Buffer_String_def retained_def holds_text_def Let_def min_def)
  next
    case False
    then show ?thesis
      using h by (simp add: Buffer_String_def retained_def holds_text_def)
  qed
qed

section \<open>The interface of an output sink\<close>

text \<open>
  What a caller relies on: after any writes, a non-empty pattern is found exactly when it occurs in
  the concatenation of what was written, and the text shown is a function of that concatenation. How
  the stream was cut into writes then cannot be observed.
\<close>

locale output_sink =
  fixes new :: "nat \<Rightarrow> string list \<Rightarrow> 'b"
    and put :: "'b \<Rightarrow> string \<Rightarrow> 'b"
    and seen :: "'b \<Rightarrow> nat \<Rightarrow> bool"
    and shown :: "'b \<Rightarrow> string"
    and keep :: "nat \<Rightarrow> string \<Rightarrow> string"
  assumes seen_iff: "[] \<notin> set pats \<Longrightarrow> i < length pats \<Longrightarrow>
      seen (fold (\<lambda>p b. put b p) ps (new limit pats)) i \<longleftrightarrow> contains (concat ps) (pats ! i)"
    and text_eq: "shown (fold (\<lambda>p b. put b p) ps (new limit pats)) = keep limit (concat ps)"
begin

lemma chunking_irrelevant:
  assumes "concat ps = concat qs" and "[] \<notin> set pats" and "i < length pats"
  shows "seen (fold (\<lambda>p b. put b p) ps (new limit pats)) i \<longleftrightarrow>
         seen (fold (\<lambda>p b. put b p) qs (new limit pats)) i"
    and "shown (fold (\<lambda>p b. put b p) ps (new limit pats)) = shown (fold (\<lambda>p b. put b p) qs (new limit pats))"
  using assms by (simp_all add: seen_iff text_eq)

lemma seen_mono:
  assumes "[] \<notin> set pats" and "i < length pats" and "seen (fold (\<lambda>p b. put b p) ps (new limit pats)) i"
  shows "seen (fold (\<lambda>p b. put b p) (ps @ qs) (new limit pats)) i"
proof -
  have "contains (concat ps) (pats ! i)"
    using assms seen_iff by blast
  then have "contains (concat (ps @ qs)) (pats ! i)"
    by (simp add: contains_appendI(1))
  then show ?thesis
    using seen_iff [OF assms(1,2)] by blast
qed

end

lemma buffer_seen_iff:
  "[] \<notin> set pats \<Longrightarrow> i < length pats \<Longrightarrow>
   Found (fold (\<lambda>p b. Write b p) ps (NewBuffer limit pats)) i \<longleftrightarrow> contains (concat ps) (pats ! i)"
  using writes_hold(1) [OF _ holds_search_new, of pats ps limit] by (simp add: holds_search_def Found_def)

lemma buffer_text_eq:
  "Buffer_String (fold (\<lambda>p b. Write b p) ps (NewBuffer limit pats)) = retained limit (concat ps)"
  using holds_text_String [OF writes_hold(2) [OF holds_text_new]] by simp

interpretation buffer: output_sink NewBuffer Write Found Buffer_String retained
  by unfold_locales (simp_all add: buffer_seen_iff buffer_text_eq)

text \<open>
  C37: The search over the stream is complete and exact: after any sequence of writes, a non-empty
  pattern counts as found if and only if it occurs in the whole output, including across the
  boundaries of writes and in the part that was dropped.
\<close>

theorem Buffer_found_iff:
  assumes "[] \<notin> set pats" and "i < length pats"
  shows "Found (fold (\<lambda>p b. Write b p) ps (NewBuffer limit pats)) i \<longleftrightarrow> contains (concat ps) (pats ! i)"
  using assms by (rule buffer.seen_iff)

theorem Buffer_found_iff_witness:
  "Found (fold (\<lambda>p b. Write b p) [''rea'', ''dy''] (NewBuffer 2 [''ready''])) 0 \<longleftrightarrow> contains ''ready'' ''ready''"
  using Buffer_found_iff [of "[''ready'']" 0 "[''rea'', ''dy'']" 2] by simp

text \<open>
  The text kept of a stream: all of it where it fits the limit; otherwise exactly its first and
  its last \<open>limit/2\<close> bytes, joined by a marker with the exact number of bytes dropped.
\<close>

theorem Buffer_String_retained:
  "Buffer_String (fold (\<lambda>p b. Write b p) ps (NewBuffer limit pats)) =
     (let S = concat ps; half = limit div 2 in
      if length S \<le> limit then S
      else take half S @ truncation_marker (int (length S) - 2 * int half) @ drop (length S - half) S)"
  by (simp add: buffer.text_eq retained_def lastn_def Let_def)

text \<open>
  Memory is bounded: whatever is written, the retained bytes never exceed one and a half times
  the limit.
\<close>

theorem Buffer_memory_bound:
  "let b = fold (\<lambda>p b. Write b p) ps (NewBuffer limit pats) in
   2 * (length (bf_head b) + length (bf_tail b)) \<le> 3 * limit"
proof -
  let ?b = "fold (\<lambda>p b. Write b p) ps (NewBuffer limit pats)"
  have h: "holds_text ?b limit (concat ps)"
    using writes_hold(2) [OF holds_text_new] by simp
  show ?thesis
  proof (cases "bf_truncated ?b")
    case True
    then have "length (bf_head ?b) \<le> limit div 2" and "length (bf_tail ?b) \<le> 2 * (limit div 2)"
      using h by (auto simp: holds_text_def)
    then show ?thesis by (simp add: Let_def)
  next
    case False
    then show ?thesis
      using h by (auto simp: holds_text_def Let_def)
  qed
qed

end
