(* ===== verification/Go_Float.thy ===== *)
theory Go_Float
  imports Go_Strings "HOL-Library.Log_Nat"
begin

text \<open>
  The part of Go's \<open>float64\<close> the program uses: \<open>strconv.ParseFloat\<close>, multiplication, division,
  comparison, \<open>math.Ceil\<close> and \<open>math.Trunc\<close>. A finite number \<open>Fin m e\<close> is \<open>m * 2 ^ e\<close>; every operation
  rounds the exact result to the nearest number with 53 significant bits, ties to even, with the
  smallest exponent -1074 and overflow at \<open>2 ^ 1024\<close>. (The sign of a zero is never observed.)
\<close>

datatype float64 = Fin int int | Inf bool | NaN

definition rdiv :: "int \<Rightarrow> int \<Rightarrow> int" where
  "rdiv a b =
     (let q = a div b; r = a mod b in
      if 2 * r < b then q else if 2 * r > b then q + 1 else if even q then q else q + 1)"

text \<open>\<open>a / b\<close> as a scaled integer division: \<open>a / (b * 2 ^ e)\<close> rounded.\<close>

definition scaled :: "int \<Rightarrow> int \<Rightarrow> int \<Rightarrow> int" where
  "scaled a b e = (if 0 \<le> e then rdiv a (b * 2 ^ nat e) else rdiv (a * 2 ^ nat (- e)) b)"

text \<open>The exponent of the last place of \<open>a / b\<close>, for positive \<open>b\<close> and \<open>a\<close> not zero.\<close>

definition ilog2_ratio :: "int \<Rightarrow> int \<Rightarrow> int" where
  "ilog2_ratio a b =
     (let k = bitlen \<bar>a\<bar> - bitlen b in
      if (if 0 \<le> k then b * 2 ^ nat k \<le> \<bar>a\<bar> else b \<le> \<bar>a\<bar> * 2 ^ nat (- k)) then k else k - 1)"

definition round64 :: "int \<Rightarrow> int \<Rightarrow> float64" where
  "round64 a b =
     (if a = 0 then Fin 0 0
      else let e = max (-1074) (ilog2_ratio a b - 52); m = scaled a b e in
        if 0 \<le> e \<and> 2 ^ 1024 \<le> \<bar>m\<bar> * 2 ^ nat e then Inf (a < 0) else Fin m e)"

text \<open>The exact quotient of two finite numbers as a ratio of integers, and the comparisons with an integer.\<close>

definition num_den :: "int \<Rightarrow> int \<Rightarrow> int \<times> int" where
  "num_den m e = (if 0 \<le> e then (m * 2 ^ nat e, 1) else (m, 2 ^ nat (- e)))"

fun fmul :: "float64 \<Rightarrow> float64 \<Rightarrow> float64" where
  "fmul (Fin m e) (Fin m' e') = (let (a, b) = num_den (m * m') (e + e') in round64 a b)"
| "fmul NaN y = NaN"
| "fmul x NaN = NaN"
| "fmul (Inf s) (Inf s') = Inf (s \<noteq> s')"
| "fmul (Inf s) (Fin m e) = (if m = 0 then NaN else Inf (s \<noteq> (m < 0)))"
| "fmul (Fin m e) (Inf s) = (if m = 0 then NaN else Inf (s \<noteq> (m < 0)))"

text \<open>Division by a positive integer constant.\<close>

fun fdiv_int :: "float64 \<Rightarrow> int \<Rightarrow> float64" where
  "fdiv_int (Fin m e) k = (let (a, b) = num_den m e in round64 a (b * k))"
| "fdiv_int x k = x"

text \<open>\<open>float64(n)\<close> of an integer.\<close>

definition of_integer :: "int \<Rightarrow> float64" where
  "of_integer n = round64 n 1"

fun less_eq_int :: "float64 \<Rightarrow> int \<Rightarrow> bool" where
  "less_eq_int (Fin m e) k = (let (a, b) = num_den m e in a \<le> k * b)"
| "less_eq_int (Inf s) k = s"
| "less_eq_int NaN k = False"

fun greater_int :: "float64 \<Rightarrow> int \<Rightarrow> bool" where
  "greater_int (Fin m e) k = (let (a, b) = num_den m e in a > k * b)"
| "greater_int (Inf s) k = (\<not> s)"
| "greater_int NaN k = False"

text \<open>\<open>math.Ceil\<close> of a finite number as an integer, and whether a number differs from its \<open>math.Trunc\<close>.\<close>

definition ceil_int :: "int \<Rightarrow> int \<Rightarrow> int" where
  "ceil_int m e = (let (a, b) = num_den m e in - ((- a) div b))"

fun not_whole :: "float64 \<Rightarrow> bool" where
  "not_whole (Fin m e) = (let (a, b) = num_den m e in a mod b \<noteq> 0)"
| "not_whole (Inf s) = False"
| "not_whole NaN = True"

section \<open>Parsing\<close>

definition lower :: "char \<Rightarrow> char" where
  "lower c = (if CHR ''A'' \<le> c \<and> c \<le> CHR ''Z'' then char_of (of_char c + (32 :: nat)) else c)"

definition dec_digit :: "char \<Rightarrow> bool" where
  "dec_digit c \<longleftrightarrow> CHR ''0'' \<le> c \<and> c \<le> CHR ''9''"

definition hex_letter :: "char \<Rightarrow> bool" where
  "hex_letter c \<longleftrightarrow> CHR ''a'' \<le> lower c \<and> lower c \<le> CHR ''f''"

definition digit_value :: "char \<Rightarrow> int" where
  "digit_value c = (if dec_digit c then of_char c - 48 else of_char (lower c) - 87)"

text \<open>\<open>underscoreOK\<close>: an underscore stands between digits, or after a base prefix.\<close>

datatype saw = Begin | Digit | Underscore | Other

fun underscores_ok :: "bool \<Rightarrow> saw \<Rightarrow> string \<Rightarrow> bool" where
  "underscores_ok hex w [] \<longleftrightarrow> w \<noteq> Underscore"
| "underscores_ok hex w (c # s) =
     (if dec_digit c \<or> hex \<and> hex_letter c then underscores_ok hex Digit s
      else if c = CHR ''_'' then w = Digit \<and> underscores_ok hex Underscore s
      else w \<noteq> Underscore \<and> underscores_ok hex Other s)"

text \<open>The digits of the mantissa: value, digits after the point, whether a digit, a point and an underscore were seen.\<close>

record mantissa =
  mt_value :: int
  mt_frac :: nat
  mt_dot :: bool
  mt_digits :: bool
  mt_under :: bool

fun read_mantissa :: "bool \<Rightarrow> mantissa \<Rightarrow> string \<Rightarrow> mantissa \<times> string" where
  "read_mantissa hex r [] = (r, [])"
| "read_mantissa hex r (c # s) =
     (if c = CHR ''_'' then read_mantissa hex (r\<lparr>mt_under := True\<rparr>) s
      else if c = CHR ''.'' then
        if mt_dot r then (r, c # s) else read_mantissa hex (r\<lparr>mt_dot := True\<rparr>) s
      else if dec_digit c \<or> hex \<and> hex_letter c then
        read_mantissa hex (r\<lparr>mt_value := mt_value r * (if hex then 16 else 10) + digit_value c,
          mt_frac := (if mt_dot r then mt_frac r + 1 else mt_frac r), mt_digits := True\<rparr>) s
      else (r, c # s))"

fun read_exp :: "int \<Rightarrow> bool \<Rightarrow> string \<Rightarrow> (int \<times> bool) \<times> string" where
  "read_exp e u [] = ((e, u), [])"
| "read_exp e u (c # s) =
     (if c = CHR ''_'' then read_exp e True s
      else if dec_digit c then read_exp (if e < 10000 then e * 10 + digit_value c else e) u s
      else ((e, u), c # s))"

text \<open>The optional exponent: \<open>None\<close> for a malformed one.\<close>

definition read_exponent :: "bool \<Rightarrow> string \<Rightarrow> ((int \<times> bool) \<times> string) option" where
  "read_exponent hex s =
     (case s of
        c # t \<Rightarrow>
          if lower c = (if hex then CHR ''p'' else CHR ''e'') then
            (let (neg, t') = (case t of d # r \<Rightarrow> if d = CHR ''+'' then (False, r) else if d = CHR ''-'' then (True, r) else (False, t)
                                      | [] \<Rightarrow> (False, t)) in
             case t' of
               d # r \<Rightarrow> if dec_digit d
                        then (let ((e, u), rest) = read_exp 0 False t' in Some ((if neg then - e else e, u), rest))
                        else None
             | [] \<Rightarrow> None)
          else if hex then None else Some ((0, False), s)
      | [] \<Rightarrow> if hex then None else Some ((0, False), s))"

definition scale_decimal :: "int \<Rightarrow> int \<Rightarrow> float64" where
  "scale_decimal m x = (if 0 \<le> x then round64 (m * 10 ^ nat x) 1 else round64 m (10 ^ nat (- x)))"

definition scale_binary :: "int \<Rightarrow> int \<Rightarrow> float64" where
  "scale_binary m x = (if 0 \<le> x then round64 (m * 2 ^ nat x) 1 else round64 m (2 ^ nat (- x)))"

text \<open>The words \<open>special\<close> knows, without their sign.\<close>

definition special :: "bool \<Rightarrow> string \<Rightarrow> float64 option" where
  "special signed s =
     (let t = map lower s in
      if t = ''inf'' \<or> t = ''infinity'' then Some (Inf False)
      else if \<not> signed \<and> t = ''nan'' then Some NaN else None)"

definition fneg :: "float64 \<Rightarrow> float64" where
  "fneg x = (case x of Fin m e \<Rightarrow> Fin (- m) e | Inf s \<Rightarrow> Inf (\<not> s) | NaN \<Rightarrow> NaN)"

text \<open>The number of a text without its sign; \<open>None\<close> is a syntax or range error.\<close>

definition is_hex :: "string \<Rightarrow> bool" where
  "is_hex t \<longleftrightarrow> length t > 2 \<and> t ! 0 = CHR ''0'' \<and> lower (t ! 1) = CHR ''x''"

definition parse_number :: "bool \<Rightarrow> string \<Rightarrow> float64 option" where
  "parse_number hex t =
     (let (r, rest) = read_mantissa hex \<lparr>mt_value = 0, mt_frac = 0, mt_dot = False, mt_digits = False, mt_under = False\<rparr> t in
      if \<not> mt_digits r then None
      else case read_exponent hex rest of
        None \<Rightarrow> None
      | Some ((e, u), rest') \<Rightarrow>
          if rest' \<noteq> [] then None
          else if (mt_under r \<or> u) \<and> \<not> underscores_ok hex (if hex then Digit else Begin) t then None
          else
            (case (if hex then scale_binary (mt_value r) (e - 4 * int (mt_frac r))
                   else scale_decimal (mt_value r) (e - int (mt_frac r))) of
               Fin m k \<Rightarrow> Some (Fin m k) | _ \<Rightarrow> None))"

text \<open>\<open>strconv.ParseFloat(s, 64)\<close>.\<close>

definition ParseFloat :: "string \<Rightarrow> float64 option" where
  "ParseFloat s =
     (let signed = (s \<noteq> [] \<and> hd s \<in> set ''+-''); neg = (s \<noteq> [] \<and> hd s = CHR ''-''); t = (if signed then tl s else s);
          x = (case special signed t of
                 Some x \<Rightarrow> Some x
               | None \<Rightarrow> parse_number (is_hex t) (if is_hex t then drop 2 t else t))
      in map_option (if neg then fneg else id) x)"

section \<open>Digits and whole numbers\<close>

lemma digit_chars: "dec_digit (digit_char n)" "digit_value (digit_char n) = int (n mod 10)"
proof -
  have of: "of_char (digit_char n) = (48 + n mod 10 :: nat)"
    using mod_less_divisor [of 10 n] by (simp add: digit_char_def byte_def)
  show d: "dec_digit (digit_char n)"
    using of mod_less_divisor [of 10 n] by (simp add: dec_digit_def less_eq_char_def)
  have "(of_char (digit_char n) :: int) = int (of_char (digit_char n))"
    by (rule of_nat_of_char [symmetric])
  then show "digit_value (digit_char n) = int (n mod 10)"
    using d of by (simp add: digit_value_def)
qed

lemma nat_string_digits: "c \<in> set (nat_string n) \<Longrightarrow> \<exists>m. c = digit_char m"
proof (induction n rule: nat_string.induct)
  case (1 n)
  show ?case
    using 1 by (subst (asm) (2) nat_string.simps) (auto split: if_splits)
qed

lemma foldl_nat_string: "foldl (\<lambda>v c. v * 10 + digit_value c) 0 (nat_string n) = int n"
proof (induction n rule: nat_string.induct)
  case (1 n)
  show ?case
    using 1 by (subst nat_string.simps) (simp add: digit_chars(2) zmod_int zdiv_int)
qed

text \<open>Rounding keeps a quotient that is a whole number of at most 53 bits.\<close>

lemma rdiv_exact: "0 < b \<Longrightarrow> rdiv (n * b) b = n"
  by (simp add: rdiv_def)

lemma bitlen_spec: "0 < n \<Longrightarrow> 2 ^ nat (bitlen n - 1) \<le> n \<and> n < 2 ^ nat (bitlen n) \<and> 1 \<le> bitlen n"
  using bitlen_bounds [of n] by (auto simp: bitlen_alt_def)

lemma ilog2_ratio_whole:
  assumes "0 < n" and "0 < b"
  shows "ilog2_ratio (n * b) b = bitlen n - 1"
proof -
  have n: "2 ^ nat (bitlen n - 1) \<le> n" "n < 2 ^ nat (bitlen n)" "1 \<le> bitlen n"
    using bitlen_spec assms(1) by blast+
  have b: "2 ^ nat (bitlen b - 1) \<le> b" "b < 2 ^ nat (bitlen b)" "1 \<le> bitlen b"
    using bitlen_spec assms(2) by blast+
  have nb: "2 ^ nat (bitlen (n * b) - 1) \<le> n * b" "n * b < 2 ^ nat (bitlen (n * b))" "1 \<le> bitlen (n * b)"
    using bitlen_spec [of "n * b"] assms by simp_all
  have "2 ^ nat (bitlen n - 1) * 2 ^ nat (bitlen b - 1) \<le> n * b"
    by (rule mult_mono) (use n b assms in simp_all)
  then have "(2::int) ^ (nat (bitlen n - 1) + nat (bitlen b - 1)) < 2 ^ nat (bitlen (n * b))"
    using nb(2) by (simp add: power_add)
  then have lo: "bitlen n + bitlen b - 1 \<le> bitlen (n * b)"
    using n(3) b(3) by simp
  have "n * b < 2 ^ nat (bitlen n) * 2 ^ nat (bitlen b)"
    by (rule mult_strict_mono) (use n b assms in simp_all)
  then have "(2::int) ^ nat (bitlen (n * b) - 1) < 2 ^ (nat (bitlen n) + nat (bitlen b))"
    using nb(1) by (simp add: power_add)
  then have hi: "bitlen (n * b) \<le> bitlen n + bitlen b"
    using n(3) b(3) nb(3) by simp
  define k where "k = bitlen (n * b) - bitlen b"
  have "k = bitlen n - 1 \<or> k = bitlen n" and k0: "0 \<le> k"
    using lo hi n(3) by (auto simp: k_def)
  then show ?thesis
  proof (elim disjE)
    assume k: "k = bitlen n - 1"
    have "b * 2 ^ nat k \<le> n * b"
      using n(1) assms k by (simp add: mult.commute)
    then show ?thesis
      using assms k k0 by (simp add: ilog2_ratio_def k_def [symmetric] abs_mult)
  next
    assume k: "k = bitlen n"
    have "n * b < b * 2 ^ nat k"
      using n(2) assms k by (simp add: mult.commute)
    then show ?thesis
      using assms k k0 by (simp add: ilog2_ratio_def k_def [symmetric] abs_mult)
  qed
qed

lemma round64_exact:
  assumes "0 < n" and "n < 2 ^ 53" and "0 < b"
  shows "\<exists>k. k \<le> 52 \<and> round64 (n * b) b = Fin (n * 2 ^ k) (- int k)"
proof -
  have le: "bitlen n \<le> 53" and ge: "1 \<le> bitlen n"
    using assms(1,2) bitlen_le_iff_power [of n 53] bitlen_spec by auto
  define k where "k = nat (53 - bitlen n)"
  have ex: "max (-1074) (ilog2_ratio (n * b) b - 52) = - int k"
    using ilog2_ratio_whole [OF assms(1,3)] le ge by (simp add: k_def)
  have "scaled (n * b) b (- int k) = n * 2 ^ k"
    using rdiv_exact [OF assms(3), of "n * 2 ^ k"] rdiv_exact [OF assms(3), of n]
    by (cases "k = 0") (simp_all add: scaled_def ac_simps)
  moreover have "\<not> (0 \<le> - int k \<and> 2 ^ 1024 \<le> \<bar>n * 2 ^ k\<bar> * 2 ^ nat (- int k))"
  proof
    assume "0 \<le> - int k \<and> 2 ^ 1024 \<le> \<bar>n * 2 ^ k\<bar> * 2 ^ nat (- int k)"
    then have "k = 0" and "2 ^ 1024 \<le> \<bar>n * 2 ^ k\<bar> * 2 ^ nat (- int k)"
      by auto
    then have "2 ^ 1024 \<le> n"
      using assms(1) by simp
    then show False
      using assms(2) by simp
  qed
  ultimately have "round64 (n * b) b = Fin (n * 2 ^ k) (- int k)"
    using assms(1,3) ex by (simp add: round64_def Let_def)
  then show ?thesis
    using ge by (intro exI [of _ k]) (auto simp: k_def)
qed

text \<open>A number whose value is the integer \<open>n\<close>.\<close>

definition is_num :: "float64 \<Rightarrow> int \<Rightarrow> bool" where
  "is_num x n \<longleftrightarrow> (\<exists>m e. x = Fin m e \<and> rat_of_int m * 2 powi e = of_int n)"

lemma num_den_value: "num_den m e = (a, b) \<Longrightarrow> 0 < b \<and> rat_of_int a = of_int b * (of_int m * 2 powi e)"
  by (auto simp: num_den_def power_int_def power_one_over split: if_splits)

lemma is_num_num_den: "is_num (Fin m e) n \<Longrightarrow> num_den m e = (a, b) \<Longrightarrow> a = n * b \<and> 0 < b"
proof -
  assume "is_num (Fin m e) n" and d: "num_den m e = (a, b)"
  then have "rat_of_int a = of_int (n * b)" and "0 < b"
    using num_den_value [OF d] by (auto simp: is_num_def)
  then show ?thesis
    using of_int_eq_iff by blast
qed

lemma round64_num:
  assumes "0 \<le> n" and "n < 2 ^ 53" and "0 < b"
  shows "is_num (round64 (n * b) b) n"
proof (cases "n = 0")
  case True
  then show ?thesis
    by (simp add: round64_def is_num_def)
next
  case False
  then obtain k where "round64 (n * b) b = Fin (n * 2 ^ k) (- int k)"
    using round64_exact assms by (metis order_le_less)
  then show ?thesis
    by (simp add: is_num_def power_int_minus)
qed

lemma of_integer_num: "0 \<le> n \<Longrightarrow> n < 2 ^ 53 \<Longrightarrow> is_num (of_integer n) n"
  using round64_num [of n 1] by (simp add: of_integer_def)

lemma fmul_num:
  assumes "is_num x n" and "is_num y k" and "0 \<le> n * k" and "n * k < 2 ^ 53"
  shows "is_num (fmul x y) (n * k)"
proof -
  obtain m e m' e' where x: "x = Fin m e" "rat_of_int m * 2 powi e = of_int n"
    and y: "y = Fin m' e'" "rat_of_int m' * 2 powi e' = of_int k"
    using assms(1,2) by (auto simp: is_num_def)
  have "rat_of_int (m * m') * 2 powi (e + e') = (of_int m * 2 powi e) * (of_int m' * 2 powi e')"
    by (simp add: power_int_add)
  then have p: "is_num (Fin (m * m') (e + e')) (n * k)"
    using x y by (simp add: is_num_def)
  obtain a b where ab: "num_den (m * m') (e + e') = (a, b)"
    by fastforce
  then show ?thesis
    using is_num_num_den [OF p ab] round64_num [OF assms(3,4)] x y by simp
qed

text \<open>Division of finite numbers; the divisor is positive in every call.\<close>

fun fdiv :: "float64 \<Rightarrow> float64 \<Rightarrow> float64" where
  "fdiv (Fin m e) (Fin m' e') = (let (a, b) = num_den m e; (c, d) = num_den m' e' in round64 (a * d) (b * c))"
| "fdiv NaN y = NaN"
| "fdiv x NaN = NaN"
| "fdiv (Inf s) (Inf s') = NaN"
| "fdiv (Inf s) (Fin m e) = Inf (s \<noteq> (m < 0))"
| "fdiv (Fin m e) (Inf s) = Fin 0 0"

lemma fdiv_num:
  assumes "is_num x (n * k)" and "is_num y k" and "0 < k" and "0 \<le> n" and "n < 2 ^ 53"
  shows "is_num (fdiv x y) n"
proof -
  obtain m e m' e' where x: "x = Fin m e" and y: "y = Fin m' e'"
    using assms(1,2) by (auto simp: is_num_def)
  obtain a b c d where nd: "num_den m e = (a, b)" "num_den m' e' = (c, d)"
    by fastforce
  have ab: "a = n * k * b" "0 < b" and cd: "c = k * d" "0 < d"
    using is_num_num_den assms(1,2) x y nd by blast+
  have "a * d = n * (b * c)" "0 < b * c"
    using ab cd assms(3) by simp_all
  then show ?thesis
    using round64_num [OF assms(4,5), of "b * c"] x y nd by simp
qed

text \<open>Quotients below \<open>2 ^ 64\<close> do not overflow.\<close>

lemma ilog2_ratio_le:
  assumes "0 < a" and "0 < b" and "0 \<le> ilog2_ratio a b"
  shows "b * 2 ^ nat (ilog2_ratio a b) \<le> a"
proof -
  define k where "k = bitlen a - bitlen b"
  have a: "2 ^ nat (bitlen a - 1) \<le> a" "1 \<le> bitlen a" and b: "b < 2 ^ nat (bitlen b)" "1 \<le> bitlen b"
    using bitlen_spec assms(1,2) by blast+
  have "b * 2 ^ nat (k - 1) \<le> a" if "1 \<le> k"
  proof -
    have "b * 2 ^ nat (k - 1) \<le> 2 ^ nat (bitlen b) * 2 ^ nat (k - 1)"
      using b(1) by simp
    also have "\<dots> = 2 ^ nat (bitlen a - 1)"
      using that b(2) by (simp add: k_def power_add [symmetric] nat_add_distrib [symmetric])
    finally show ?thesis
      using a(1) by simp
  qed
  then show ?thesis
    using assms by (auto simp: ilog2_ratio_def k_def [symmetric] Let_def split: if_splits)
qed

lemma round64_finite:
  assumes "0 \<le> a" and "0 < b" and "a < b * 2 ^ 64"
  shows "\<exists>m e. round64 a b = Fin m e"
proof (cases "a = 0")
  case False
  define l where "l = ilog2_ratio a b"
  have "\<bar>scaled a b (l - 52)\<bar> * 2 ^ nat (l - 52) < 2 ^ 1024" if l: "52 \<le> l"
  proof -
    define c :: int where "c = 2 ^ nat (l - 52)"
    have c: "0 < c" "b * c \<le> a"
    proof -
      have "b * c \<le> b * 2 ^ nat l"
        using assms(2) l by (simp add: c_def power_increasing)
      also have "\<dots> \<le> a"
        using ilog2_ratio_le [of a b] assms False l by (simp add: l_def)
      finally show "b * c \<le> a" .
    qed (simp add: c_def)
    have q: "0 \<le> rdiv a (b * c)" "rdiv a (b * c) \<le> a div (b * c) + 1"
      using assms c by (auto simp: rdiv_def Let_def pos_imp_zdiv_nonneg_iff)
    have "b * (a div (b * c) * c) \<le> a"
    proof -
      have "0 \<le> a mod (b * c)"
        using assms(2) c(1) by simp
      then show ?thesis
        using div_mult_mod_eq [of a "b * c"] by (simp only: ac_simps)
    qed
    then have "b * (a div (b * c) * c + c) < b * 2 ^ 65"
      using c(2) assms(3) by (simp add: distrib_left)
    then have "a div (b * c) * c + c < 2 ^ 65"
      using assms(2) by (simp only: mult_less_cancel_left_pos)
    moreover have "rdiv a (b * c) * c \<le> (a div (b * c) + 1) * c"
      using q(2) c(1) by (intro mult_right_mono) simp_all
    ultimately have "rdiv a (b * c) * c < 2 ^ 65"
      by (simp add: distrib_right)
    then have "rdiv a (b * c) * c < 2 ^ 1024"
      by (rule order.strict_trans2) simp
    then show ?thesis
      using q(1) l by (simp add: scaled_def c_def)
  qed
  then have "\<not> (0 \<le> max (- 1074) (l - 52) \<and> 2 ^ 1024 \<le> \<bar>scaled a b (max (- 1074) (l - 52))\<bar> * 2 ^ nat (max (- 1074) (l - 52)))"
    by (cases "52 \<le> l") (simp_all add: max_def not_le del: power_numeral)
  then show ?thesis
    using False by (auto simp: round64_def Let_def l_def)
qed (simp add: round64_def)

end
