(* ===== verification/Go_Duration.thy ===== *)
theory Go_Duration
  imports Job_Types Go_Float
begin

text \<open>
  The part of Go's \<open>time\<close> package the program uses: \<open>Duration.String\<close>, \<open>Duration.Round\<close> and \<open>ParseDuration\<close>. A
  \<open>Duration\<close> is a 64-bit integer of nanoseconds, here an integer within these bounds. Shown: what \<open>String\<close> prints
  parses back to the same duration.
\<close>

section \<open>Printing\<close>

definition in_int64 :: "int \<Rightarrow> bool" where
  "in_int64 d \<longleftrightarrow> - (2 ^ 63) \<le> d \<and> d < 2 ^ 63"

text \<open>\<open>fmtFrac\<close>: the digits of the fraction \<open>v / 10 ^ prec\<close> without trailing zeros, and what is left of \<open>v\<close>.\<close>

fun frac_digits :: "nat \<Rightarrow> bool \<Rightarrow> nat \<Rightarrow> string \<Rightarrow> string \<times> nat" where
  "frac_digits 0 print v buf = ((if print then CHR ''.'' # buf else buf), v)"
| "frac_digits (Suc i) print v buf =
     (let digit = v mod 10; print' = (print \<or> digit \<noteq> 0) in
      frac_digits i print' (v div 10) (if print' then digit_char digit # buf else buf))"

definition fmtFrac :: "nat \<Rightarrow> nat \<Rightarrow> string \<times> nat" where
  "fmtFrac v prec = frac_digits prec False v ''''"

text \<open>The micro sign is the two bytes C2 B5.\<close>

definition micro :: string where
  "micro = [byte 0xC2, byte 0xB5]"

definition small_duration :: "nat \<Rightarrow> string" where
  "small_duration u =
     (let (prec, unit) = (if u < 1000 then (0, ''ns'') else if u < 1000000 then (3, micro @ ''s'') else (6, ''ms''));
          (frac, v) = fmtFrac u prec
      in nat_string v @ frac @ unit)"

definition large_duration :: "nat \<Rightarrow> string" where
  "large_duration u =
     (let (frac, s) = fmtFrac u 9; m = s div 60; h = m div 60
      in (if m > 0 then (if h > 0 then nat_string h @ ''h'' else '''') @ nat_string (m mod 60) @ ''m'' else '''') @
         nat_string (s mod 60) @ frac @ ''s'')"

definition Duration_String :: "duration \<Rightarrow> string" where
  "Duration_String d =
     (let u = nat \<bar>d\<bar> in
      (if d < 0 then ''-'' else '''') @
      (if u = 0 then ''0s'' else if u < 1000000000 then small_duration u else large_duration u))"

text \<open>\<open>Duration.Round\<close>: to the nearest multiple of \<open>m\<close>, halves away from zero, saturating at the bounds.\<close>

definition Duration_Round :: "duration \<Rightarrow> duration \<Rightarrow> duration" where
  "Duration_Round d m =
     (if m \<le> 0 then d
      else let r = \<bar>d\<bar> mod m; q = (if r + r < m then \<bar>d\<bar> - r else \<bar>d\<bar> + m - r)
           in if d < 0 then (if - q < - (2 ^ 63) then - (2 ^ 63) else - q)
              else (if q > 2 ^ 63 - 1 then 2 ^ 63 - 1 else q))"

section \<open>Parsing\<close>

datatype dur_error = InvalidDuration | MissingUnit | UnknownUnit string

fun leadingInt :: "int \<Rightarrow> string \<Rightarrow> (int \<times> string) option" where
  "leadingInt x [] = Some (x, [])"
| "leadingInt x (c # s) =
     (if \<not> dec_digit c then Some (x, c # s)
      else if x > 2 ^ 63 div 10 then None
      else let y = x * 10 + digit_value c in if y > 2 ^ 63 then None else leadingInt y s)"

fun leadingFraction :: "int \<Rightarrow> float64 \<Rightarrow> bool \<Rightarrow> string \<Rightarrow> (int \<times> float64) \<times> string" where
  "leadingFraction x scale overflow [] = ((x, scale), [])"
| "leadingFraction x scale overflow (c # s) =
     (if \<not> dec_digit c then ((x, scale), c # s)
      else if overflow then leadingFraction x scale True s
      else if x > (2 ^ 63 - 1) div 10 then leadingFraction x scale True s
      else let y = x * 10 + digit_value c in
        if y > 2 ^ 63 then leadingFraction x scale True s
        else leadingFraction y (fmul scale (of_integer 10)) False s)"

definition unit_map :: "(string \<times> int) list" where
  "unit_map =
     [(''ns'', 1), (''us'', 1000), (micro @ ''s'', 1000), ([byte 0xCE, byte 0xBC] @ ''s'', 1000), (''ms'', 1000000),
      (''s'', Second), (''m'', Minute), (''h'', Hour)]"

text \<open>\<open>uint64(x)\<close> of a float; the only argument is below \<open>3.6e12\<close>.\<close>

definition uint_of_float :: "float64 \<Rightarrow> int" where
  "uint_of_float x = (case x of Fin m e \<Rightarrow> (let (a, b) = num_den m e in a div b) | _ \<Rightarrow> 0)"

definition unit_char :: "char \<Rightarrow> bool" where
  "unit_char c \<longleftrightarrow> c \<noteq> CHR ''.'' \<and> \<not> dec_digit c"

text \<open>The value of one number with its unit, given the digits before and after the point.\<close>

definition term_value :: "int \<Rightarrow> int \<Rightarrow> float64 \<Rightarrow> int \<Rightarrow> dur_error + int" where
  "term_value v f scale unit =
     (if v > 2 ^ 63 div unit then Inl InvalidDuration
      else if f > 0 then
        (let v' = v * unit + uint_of_float (fmul (of_integer f) (fdiv (of_integer unit) scale)) in
         if v' > 2 ^ 63 then Inl InvalidDuration else Inr v')
      else Inr (v * unit))"

text \<open>One turn of the loop of \<open>ParseDuration\<close>: a number, its fraction and its unit, and the rest of the text.\<close>

definition parse_term :: "string \<Rightarrow> dur_error + int \<times> string" where
  "parse_term s =
     (if s = [] \<or> \<not> (hd s = CHR ''.'' \<or> dec_digit (hd s)) then Inl InvalidDuration
      else case leadingInt 0 s of
        None \<Rightarrow> Inl InvalidDuration
      | Some (v, s1) \<Rightarrow>
          (let pre = (length s \<noteq> length s1); dot = (s1 \<noteq> [] \<and> hd s1 = CHR ''.'');
               ((f, scale), s2) = (if dot then leadingFraction 0 (of_integer 1) False (tl s1) else ((0, of_integer 1), s1));
               post = (dot \<and> length (tl s1) \<noteq> length s2)
           in if \<not> pre \<and> \<not> post then Inl InvalidDuration
              else let u = takeWhile unit_char s2; s3 = dropWhile unit_char s2 in
                if u = [] then Inl MissingUnit
                else case map_of unit_map u of
                  None \<Rightarrow> Inl (UnknownUnit u)
                | Some unit \<Rightarrow> bind_result (term_value v f scale unit) (\<lambda>x. Inr (x, s3))))"

lemma leadingInt_length: "leadingInt x s = Some (v, s') \<Longrightarrow> length s' \<le> length s"
  by (induction x s rule: leadingInt.induct) (auto simp: Let_def split: if_splits)

lemma leadingFraction_length: "leadingFraction x c b s = (r, s') \<Longrightarrow> length s' \<le> length s"
  by (induction x c b s rule: leadingFraction.induct) (auto simp: Let_def split: if_splits)

lemma parse_term_length:
  assumes "parse_term s = Inr (x, s')"
  shows "length s' < length s"
proof -
  obtain v s1 where 1: "leadingInt 0 s = Some (v, s1)"
    using assms by (auto simp: parse_term_def split: if_splits option.splits)
  define r where "r = (if s1 \<noteq> [] \<and> hd s1 = CHR ''.'' then leadingFraction 0 (of_integer 1) False (tl s1) else ((0, of_integer 1), s1))"
  obtain f c s2 where 2: "r = ((f, c), s2)"
    by (metis prod.collapse)
  have "length s2 \<le> length s1"
    using 2 leadingFraction_length [of 0 "of_integer 1" False "tl s1"] by (fastforce simp: r_def split: if_splits)
  moreover have "s' = dropWhile unit_char s2" "takeWhile unit_char s2 \<noteq> []"
    using assms 1 2 unfolding parse_term_def r_def
    by (auto simp: Let_def result_simps split: if_splits option.splits prod.splits)
  moreover from this have "length s' < length s2"
    by (metis length_append length_greater_0_conv less_add_same_cancel2 takeWhile_dropWhile_id)
  ultimately show ?thesis
    using leadingInt_length [OF 1] by simp
qed

text \<open>The sum is a 64-bit unsigned integer.\<close>

function parse_terms :: "int \<Rightarrow> string \<Rightarrow> dur_error + int" where
  "parse_terms d s =
     (if s = [] then Inr d
      else case parse_term s of
        Inl e \<Rightarrow> Inl e
      | Inr (v, s') \<Rightarrow>
          (let d' = (d + v) mod 2 ^ 64 in if d' > 2 ^ 63 then Inl InvalidDuration else parse_terms d' s'))"
  by pat_completeness auto
termination
  by (relation "measure (\<lambda>(d, s). length s)") (auto dest: parse_term_length)

declare parse_terms.simps [simp del]

definition ParseDuration :: "string \<Rightarrow> dur_error + duration" where
  "ParseDuration s0 =
     (let signed = (s0 \<noteq> [] \<and> hd s0 \<in> set ''+-''); neg = (s0 \<noteq> [] \<and> hd s0 = CHR ''-''); s = (if signed then tl s0 else s0) in
      if s = ''0'' then Inr 0
      else if s = '''' then Inl InvalidDuration
      else bind_result (parse_terms 0 s) (\<lambda>d.
        if neg then Inr (- d) else if d > 2 ^ 63 - 1 then Inl InvalidDuration else Inr d))"

section \<open>What is printed can be parsed\<close>

definition digits_value :: "int \<Rightarrow> string \<Rightarrow> int" where
  "digits_value x s = foldl (\<lambda>v c. v * 10 + digit_value c) x s"

lemma digits_value_simps [simp]:
  "digits_value x [] = x" "digits_value x (c # s) = digits_value (x * 10 + digit_value c) s"
  "digits_value x (s @ [c]) = digits_value x s * 10 + digit_value c"
  by (simp_all add: digits_value_def)

lemma digit_value_range: "dec_digit c \<Longrightarrow> 0 \<le> digit_value c \<and> digit_value c \<le> 9"
proof -
  assume d: "dec_digit c"
  have "(of_char c :: int) = int (of_char c)"
    by (rule of_nat_of_char [symmetric])
  then show ?thesis
    using d by (simp add: digit_value_def dec_digit_def less_eq_char_def)
qed

lemma digits_value_mono: "list_all dec_digit ds \<Longrightarrow> 0 \<le> x \<Longrightarrow> x \<le> digits_value x ds"
proof (induction ds arbitrary: x)
  case (Cons c ds)
  then have "x \<le> x * 10 + digit_value c"
    using digit_value_range [of c] by simp
  then show ?case
    using Cons.IH [of "x * 10 + digit_value c"] Cons.prems by simp
qed simp

lemma digits_value_less: "list_all dec_digit ds \<Longrightarrow> digits_value 0 ds < 10 ^ length ds"
proof (induction ds rule: rev_induct)
  case (snoc c ds)
  then show ?case
    using digit_value_range [of c] by simp
qed simp

lemma nat_string_value: "digits_value 0 (nat_string n) = int n"
  using foldl_nat_string by (simp add: digits_value_def)

lemma nat_string_all_digits: "list_all dec_digit (nat_string n)"
  using nat_string_digits digit_chars(1) by (metis list_all_iff)

lemma leadingInt_digits:
  assumes "list_all dec_digit ds" and "0 \<le> x" and "digits_value x ds \<le> 2 ^ 63" and "rest = [] \<or> \<not> dec_digit (hd rest)"
  shows "leadingInt x (ds @ rest) = Some (digits_value x ds, rest)"
  using assms(1-3)
proof (induction ds arbitrary: x)
  case Nil
  then show ?case
    using assms(4) by (cases rest) auto
next
  case (Cons c ds)
  have c: "dec_digit c" "0 \<le> digit_value c"
    using Cons.prems(1) digit_value_range by auto
  then have "x * 10 + digit_value c \<le> digits_value x (c # ds)"
    using Cons.prems digits_value_mono [of ds] by simp
  then have le: "x * 10 + digit_value c \<le> 2 ^ 63"
    using Cons.prems(3) by simp
  moreover from this have "\<not> x > 2 ^ 63 div 10"
    using c by simp
  ultimately show ?case
    using c Cons.IH [of "x * 10 + digit_value c"] Cons.prems by (simp add: not_less)
qed

lemma leadingFraction_digits:
  assumes "list_all dec_digit ds" and "0 \<le> x" and "digits_value x ds < 10 ^ 9" and "rest = [] \<or> \<not> dec_digit (hd rest)"
    and "is_num scale s" and "0 \<le> s" and "s * 10 ^ length ds \<le> 10 ^ 9"
  shows "\<exists>scale'. leadingFraction x scale False (ds @ rest) = ((digits_value x ds, scale'), rest) \<and>
     is_num scale' (s * 10 ^ length ds)"
  using assms(1-3,5-7)
proof (induction ds arbitrary: x scale s)
  case Nil
  then show ?case
    using assms(4) by (cases rest) auto
next
  case (Cons c ds)
  have c: "dec_digit c" "0 \<le> digit_value c"
    using Cons.prems(1) digit_value_range by auto
  then have "x * 10 + digit_value c \<le> digits_value x (c # ds)"
    using Cons.prems digits_value_mono [of ds] by simp
  then have y: "x * 10 + digit_value c < 10 ^ 9"
    using Cons.prems(3) by simp
  have "s * 10 * 1 \<le> s * 10 * 10 ^ length ds"
    by (rule mult_left_mono) (use Cons.prems(5) in simp_all)
  then have "s * 10 \<le> 10 ^ 9"
    using Cons.prems(6) by simp
  then have m: "is_num (fmul scale (of_integer 10)) (s * 10)"
    using Cons.prems(4,5) by (intro fmul_num of_integer_num) simp_all
  have "leadingFraction x scale False ((c # ds) @ rest) = leadingFraction (x * 10 + digit_value c) (fmul scale (of_integer 10)) False (ds @ rest)"
    using c y by simp
  then show ?case
    using Cons.IH [OF _ _ _ m] Cons.prems c by (simp add: mult.assoc)
qed

text \<open>The fraction \<open>fs\<close> stands for \<open>fr\<close> units of the last place \<open>prec\<close>.\<close>

definition frac_text :: "nat \<Rightarrow> int \<Rightarrow> string \<Rightarrow> bool" where
  "frac_text prec fr fs \<longleftrightarrow>
     fs = [] \<and> fr = 0 \<or>
     (\<exists>ds. fs = CHR ''.'' # ds \<and> ds \<noteq> [] \<and> list_all dec_digit ds \<and> length ds \<le> prec \<and> 0 < fr \<and>
        fr = digits_value 0 ds * 10 ^ (prec - length ds))"

lemma frac_digits_print:
  "\<exists>ds. frac_digits i True v buf = (CHR ''.'' # ds @ buf, v div 10 ^ i) \<and> list_all dec_digit ds \<and> length ds = i \<and>
     digits_value 0 ds = int (v mod 10 ^ i)"
proof (induction i arbitrary: v buf)
  case (Suc i)
  obtain ds where ds: "frac_digits i True (v div 10) (digit_char (v mod 10) # buf) = (CHR ''.'' # ds @ digit_char (v mod 10) # buf, v div 10 div 10 ^ i)"
    "list_all dec_digit ds" "length ds = i" "digits_value 0 ds = int (v div 10 mod 10 ^ i)"
    using Suc.IH by blast
  have "digits_value 0 (ds @ [digit_char (v mod 10)]) = int (v mod 10 ^ Suc i)"
    using ds(4) by (simp add: digit_chars mod_mult2_eq)
  then show ?case
    using ds digit_chars(1) by (intro exI [of _ "ds @ [digit_char (v mod 10)]"]) (simp add: div_mult2_eq)
qed simp

lemma frac_digits_text:
  "\<exists>fs. frac_digits i False v '''' = (fs, v div 10 ^ i) \<and> frac_text i (int (v mod 10 ^ i)) fs"
proof (induction i arbitrary: v)
  case (Suc i)
  show ?case
  proof (cases "v mod 10 = 0")
    case True
    obtain fs where fs: "frac_digits i False (v div 10) '''' = (fs, v div 10 div 10 ^ i)" "frac_text i (int (v div 10 mod 10 ^ i)) fs"
      using Suc.IH by blast
    have "v mod 10 ^ Suc i = v div 10 mod 10 ^ i * 10"
      using True by (simp add: mod_mult2_eq)
    then have "frac_text (Suc i) (int (v mod 10 ^ Suc i)) fs"
      using fs(2) by (auto simp: frac_text_def Suc_diff_le simp flip: of_nat_mult)
    then show ?thesis
      using fs(1) True by (intro exI [of _ fs]) (simp add: div_mult2_eq)
  next
    case False
    have "frac_digits (Suc i) False v '''' = frac_digits (Suc i) True v ''''"
      using False by simp
    moreover obtain ds where ds: "frac_digits (Suc i) True v '''' = (CHR ''.'' # ds @ '''', v div 10 ^ Suc i)"
      "list_all dec_digit ds" "length ds = Suc i" "digits_value 0 ds = int (v mod 10 ^ Suc i)"
      using frac_digits_print by blast
    moreover have "0 < v mod 10 ^ Suc i"
      using False by (simp add: mod_mult2_eq)
    ultimately show ?thesis
      by (intro exI [of _ "CHR ''.'' # ds"]) (auto simp: frac_text_def)
  qed
qed (simp add: frac_text_def)


text \<open>The fraction only depends on the last digits.\<close>

lemma frac_digits_cong: "v mod 10 ^ i = v' mod 10 ^ i \<Longrightarrow> fst (frac_digits i p v b) = fst (frac_digits i p v' b)"
proof (induction i arbitrary: v v' p b)
  case (Suc i)
  have "v mod 10 = v' mod 10"
    using Suc.prems by (metis dvd_power_same mod_mod_cancel power_Suc dvd_triv_left)
  moreover from this have "v div 10 mod 10 ^ i = v' div 10 mod 10 ^ i"
    using Suc.prems by (simp add: mod_mult2_eq)
  ultimately show ?case
    using Suc.IH [of "v div 10" "v' div 10"] by (simp add: Let_def)
qed simp

lemma frac_mod: "fmtFrac (q * 10 ^ i + v mod 10 ^ i) i = (fst (fmtFrac v i), q)"
proof -
  have "fst (fmtFrac (q * 10 ^ i + v mod 10 ^ i) i) = fst (fmtFrac v i)"
    unfolding fmtFrac_def by (rule frac_digits_cong) simp
  moreover have "snd (fmtFrac (q * 10 ^ i + v mod 10 ^ i) i) = q"
    using frac_digits_text [of i "q * 10 ^ i + v mod 10 ^ i"] by (auto simp: fmtFrac_def)
  ultimately show ?thesis
    by (metis prod.collapse)
qed

lemma le_div_intI: "0 < b \<Longrightarrow> a * b \<le> c \<Longrightarrow> a \<le> c div (b :: int)"
  by (metis less_irrefl nonzero_mult_div_cancel_right zdiv_mono1)

lemma term_value_exact:
  assumes "is_num scale (10 ^ k)" and "k \<le> prec" and "prec \<le> 9" and "0 < f" and "f < 10 ^ k" and "0 \<le> v"
    and "v * 10 ^ prec + f * 10 ^ (prec - k) \<le> 2 ^ 63"
  shows "term_value v f scale (10 ^ prec) = Inr (v * 10 ^ prec + f * 10 ^ (prec - k))"
proof -
  have le: "(10::int) ^ j \<le> 10 ^ 9" if "j \<le> 9" for j
    using that power_increasing [of j 9 "10::int"] by simp
  have split: "(10::int) ^ prec = 10 ^ (prec - k) * 10 ^ k"
    using assms(2) by (simp flip: power_add)
  have "f * 10 ^ (prec - k) < 10 ^ k * 10 ^ (prec - k)"
    using assms(5) by simp
  also have "\<dots> \<le> 10 ^ 9"
    using split le [OF assms(3)] by (simp add: mult.commute)
  finally have f: "f * 10 ^ (prec - k) < 10 ^ 9" .
  have "is_num (of_integer (10 ^ prec)) (10 ^ (prec - k) * 10 ^ k)"
    using of_integer_num [of "10 ^ prec"] split le [OF assms(3)] by simp
  then have q: "is_num (fdiv (of_integer (10 ^ prec)) scale) (10 ^ (prec - k))"
    using fdiv_num [OF _ assms(1), of _ "10 ^ (prec - k)"] le [OF le_trans [OF diff_le_self assms(3)], of k] by simp
  have "is_num (of_integer f) f"
    using assms(3-5) le [of k] assms(2) by (intro of_integer_num) simp_all
  from fmul_num [OF this q] have p: "is_num (fmul (of_integer f) (fdiv (of_integer (10 ^ prec)) scale)) (f * 10 ^ (prec - k))"
    using assms(4) f by simp
  then obtain m e where x: "fmul (of_integer f) (fdiv (of_integer (10 ^ prec)) scale) = Fin m e"
    by (auto simp: is_num_def)
  obtain a b where nd: "num_den m e = (a, b)"
    by fastforce
  have u: "uint_of_float (fmul (of_integer f) (fdiv (of_integer (10 ^ prec)) scale)) = f * 10 ^ (prec - k)"
    using is_num_num_den [OF p [unfolded x] nd] nd by (simp add: x uint_of_float_def)
  have "0 < f * 10 ^ (prec - k)"
    using assms(4) by simp
  then have "v * 10 ^ prec \<le> 2 ^ 63"
    using assms(7) by linarith
  then have "v \<le> 2 ^ 63 div 10 ^ prec"
    by (intro le_div_intI) simp_all
  then show ?thesis
    using assms(4,7) u by (simp add: term_value_def not_less)
qed

text \<open>A printed number with its unit.\<close>

lemma parse_term_printed:
  assumes "map_of unit_map u = Some unit" and "list_all unit_char u" and "u \<noteq> []" and "rest = [] \<or> dec_digit (hd rest)"
    and "frac_text prec fr fs" and "unit = 10 ^ prec \<and> prec \<le> 9 \<or> fs = []" and "int n * unit + fr \<le> 2 ^ 63" and "0 < unit"
  shows "parse_term (nat_string n @ fs @ u @ rest) = Inr (int n * unit + fr, rest)"
proof -
  have u: "\<not> dec_digit (hd (u @ rest))" "hd (u @ rest) \<noteq> CHR ''.''"
    using assms(2,3) by (cases u; simp add: unit_char_def)+
  have span: "takeWhile unit_char (u @ rest) = u" "dropWhile unit_char (u @ rest) = rest"
    using assms(2,4) by (cases rest; auto simp: list_all_iff unit_char_def takeWhile_append dropWhile_append)+
  have fr: "0 \<le> fr"
    using assms(5) by (auto simp: frac_text_def)
  have "int n * 1 \<le> int n * unit"
    by (rule mult_left_mono) (use assms(8) in simp_all)
  then have n: "int n \<le> 2 ^ 63"
    using assms(7) fr by simp
  have dot: "\<not> dec_digit (CHR ''.'')"
    by code_simp
  have "fs @ u @ rest = [] \<or> \<not> dec_digit (hd (fs @ u @ rest))"
    using u(1) dot assms(5) by (auto simp: frac_text_def)
  then have li: "leadingInt 0 (nat_string n @ fs @ u @ rest) = Some (int n, fs @ u @ rest)"
    using leadingInt_digits [OF nat_string_all_digits, of 0 n] n by (simp add: nat_string_value)
  obtain m t where hd: "nat_string n = digit_char m # t"
    using nat_string_hd by blast
  have start: "\<not> (nat_string n @ fs @ u @ rest = [] \<or>
      \<not> (hd (nat_string n @ fs @ u @ rest) = CHR ''.'' \<or> dec_digit (hd (nat_string n @ fs @ u @ rest))))"
    using digit_chars(1) by (simp add: hd)
  have pre: "length (nat_string n @ fs @ u @ rest) \<noteq> length (fs @ u @ rest)"
    by (simp add: hd)
  show ?thesis
  proof (cases "fs = []")
    case True
    then have "fr = 0"
      using assms(5) by (auto simp: frac_text_def)
    moreover have "int n \<le> 2 ^ 63 div unit"
      using assms(7,8) \<open>fr = 0\<close> by (intro le_div_intI) simp_all
    ultimately have "term_value (int n) 0 c unit = Inr (int n * unit + fr)" for c
      by (simp add: term_value_def not_less)
    then show ?thesis
      using start pre li u span assms(1,3) True unfolding parse_term_def by (simp add: Let_def)
  next
    case False
    then obtain ds where ds: "fs = CHR ''.'' # ds" "ds \<noteq> []" "list_all dec_digit ds" "length ds \<le> prec" "0 < fr"
      "fr = digits_value 0 ds * 10 ^ (prec - length ds)"
      using assms(5) by (auto simp: frac_text_def)
    have prec: "unit = 10 ^ prec" "prec \<le> 9"
      using assms(6) False by auto
    have lt: "digits_value 0 ds < 10 ^ length ds"
      using ds(3) by (rule digits_value_less)
    have pos: "0 < digits_value 0 ds"
      using ds(5,6) by (simp add: zero_less_mult_iff)
    have ten: "(10::int) ^ length ds \<le> 10 ^ 9"
      using ds(4) prec(2) by (intro power_increasing) simp_all
    obtain c where c: "leadingFraction 0 (of_integer 1) False (ds @ u @ rest) = ((digits_value 0 ds, c), u @ rest)" "is_num c (10 ^ length ds)"
      using leadingFraction_digits [OF ds(3), of 0 "u @ rest" "of_integer 1" 1] lt ten u(1) of_integer_num [of 1] by auto
    have "term_value (int n) (digits_value 0 ds) c (10 ^ prec) = Inr (int n * unit + fr)"
      using term_value_exact [OF c(2) ds(4) prec(2) pos lt, of "int n"] assms(7) prec(1) ds(6) by simp
    then show ?thesis
      using start pre li span c(1) assms(1,3) ds(1) prec(1) unfolding parse_term_def by (simp add: Let_def)
  qed
qed


lemma parse_terms_step:
  assumes "parse_term s = Inr (v, s')" and "0 \<le> d" and "0 \<le> v" and "d + v \<le> 2 ^ 63"
  shows "parse_terms d s = parse_terms (d + v) s'"
proof -
  have "s \<noteq> []"
    using parse_term_length [OF assms(1)] by auto
  then show ?thesis
    using assms by (subst parse_terms.simps) simp
qed

lemma parse_terms_Nil [simp]: "parse_terms d [] = Inr d"
  by (subst parse_terms.simps) simp

lemma printed_units:
  "map_of unit_map ''ns'' = Some (10 ^ 0)" "map_of unit_map (micro @ ''s'') = Some (10 ^ 3)" "map_of unit_map ''ms'' = Some (10 ^ 6)"
  "map_of unit_map ''s'' = Some (10 ^ 9)" "map_of unit_map ''m'' = Some Minute" "map_of unit_map ''h'' = Some Hour"
  "list_all unit_char ''ns''" "list_all unit_char (micro @ ''s'')" "list_all unit_char ''ms''" "list_all unit_char ''s''"
  "list_all unit_char ''m''" "list_all unit_char ''h''"
  by code_simp+

lemma int_div_mod: "int (v div k) * int k + int (v mod k) = int v"
  by (simp flip: of_nat_mult of_nat_add)

lemma parse_printed:
  assumes "map_of unit_map u = Some (10 ^ prec)" and "list_all unit_char u" and "u \<noteq> []" and "prec \<le> 9"
    and "fmtFrac v prec = (fs, w)" and "0 \<le> d" and "d + int v \<le> 2 ^ 63"
  shows "parse_terms d (nat_string w @ fs @ u) = Inr (d + int v)"
proof -
  have fs: "frac_text prec (int (v mod 10 ^ prec)) fs" and w: "w = v div 10 ^ prec"
    using frac_digits_text [of prec v] assms(5) by (auto simp: fmtFrac_def)
  have v: "int w * 10 ^ prec + int (v mod 10 ^ prec) = int v"
    unfolding w using int_div_mod [of v "10 ^ prec"] by simp
  have "parse_term (nat_string w @ fs @ u @ []) = Inr (int w * 10 ^ prec + int (v mod 10 ^ prec), [])"
    using assms fs v by (intro parse_term_printed) auto
  then have "parse_term (nat_string w @ fs @ u) = Inr (int v, [])"
    using v by simp
  then show ?thesis
    using parse_terms_step assms(6,7) by simp
qed

lemma parse_small: "int u < 10 ^ 9 \<Longrightarrow> parse_terms 0 (small_duration u) = Inr (int u)"
  using parse_printed [OF printed_units(1,7), of u _ _ 0] parse_printed [OF printed_units(2,8), of u _ _ 0]
    parse_printed [OF printed_units(3,9), of u _ _ 0]
  by (simp add: small_duration_def split: prod.splits)

lemma parse_whole:
  assumes "map_of unit_map u = Some unit" and "list_all unit_char u" and "u \<noteq> []" and "0 < unit"
    and "0 \<le> d" and "d + int n * unit \<le> 2 ^ 63" and "rest = [] \<or> dec_digit (hd rest)"
  shows "parse_terms d (nat_string n @ u @ rest) = parse_terms (d + int n * unit) rest"
proof -
  have "frac_text 0 0 []"
    by (simp add: frac_text_def)
  from parse_term_printed [OF assms(1-3,7) this] have "parse_term (nat_string n @ u @ rest) = Inr (int n * unit, rest)"
    using assms(4-6) by simp
  then show ?thesis
    using assms(4-6) by (intro parse_terms_step) simp_all
qed

lemma nat_string_start: "dec_digit (hd (nat_string n @ s))"
  using nat_string_hd [of n] digit_chars(1) by auto

lemma parse_large:
  assumes "int u \<le> 2 ^ 63"
  shows "parse_terms 0 (large_duration u) = Inr (int u)"
proof -
  obtain fs s where f: "fmtFrac u 9 = (fs, s)"
    by fastforce
  then have s: "s = u div 10 ^ 9"
    using frac_digits_text [of 9 u] by (auto simp: fmtFrac_def)
  define m h where "m = s div 60" and "h = m div 60"
  define r where "r = int u - int m * Minute"
  have us: "int u = int s * 10 ^ 9 + int (u mod 10 ^ 9)"
    unfolding s using int_div_mod [of u "10 ^ 9"] by simp
  have ms: "int s = int m * 60 + int (s mod 60)" and hm: "int m = int h * 60 + int (m mod 60)"
    unfolding m_def h_def using int_div_mod [of s 60] int_div_mod [of "s div 60" 60] by simp_all
  have r: "r = int (s mod 60 * 10 ^ 9 + u mod 10 ^ 9)"
    using us ms by (simp add: r_def duration_defs)
  have "fmtFrac (s mod 60 * 10 ^ 9 + u mod 10 ^ 9) 9 = (fs, s mod 60)"
    using frac_mod [of "s mod 60" 9 u] f by simp
  then have secs: "parse_terms d (nat_string (s mod 60) @ fs @ ''s'') = Inr (d + r)" if "0 \<le> d" "d + r \<le> 2 ^ 63" for d
    using parse_printed [OF printed_units(4,10), of _ fs "s mod 60" d] r that by simp
  have r0: "0 \<le> r"
    unfolding r by simp
  have mins: "parse_terms d (nat_string (m mod 60) @ ''m'' @ nat_string (s mod 60) @ fs @ ''s'') = Inr (d + int (m mod 60) * Minute + r)"
    if "0 \<le> d" "d + int (m mod 60) * Minute + r \<le> 2 ^ 63" for d
    using parse_whole [OF printed_units(5,11), of d "m mod 60"] secs [of "d + int (m mod 60) * Minute"] nat_string_start that r0
    by (simp add: duration_defs)
  have hours: "parse_terms 0 (nat_string h @ ''h'' @ nat_string (m mod 60) @ ''m'' @ nat_string (s mod 60) @ fs @ ''s'') =
      Inr (int h * Hour + int (m mod 60) * Minute + r)"
    if "int h * Hour + int (m mod 60) * Minute + r \<le> 2 ^ 63"
    using parse_whole [OF printed_units(6,12), of 0 h] mins [of "int h * Hour"] nat_string_start that r0
    by (simp add: duration_defs)
  have sum: "int h * Hour + int (m mod 60) * Minute + r = int u"
    using hm by (simp add: r_def duration_defs)
  show ?thesis
  proof (cases "m = 0")
    case True
    then have "s mod 60 = s"
      using ms by simp
    then show ?thesis
      using secs [of 0] True assms by (simp add: large_duration_def f m_def [symmetric] r_def)
  next
    case False
    show ?thesis
    proof (cases "h = 0")
      case True
      then have "m mod 60 = m"
        using hm by simp
      then show ?thesis
        using mins [of 0] True False sum assms by (simp add: large_duration_def f m_def [symmetric] h_def [symmetric])
    next
      case False
      then show ?thesis
        using hours sum assms \<open>m \<noteq> 0\<close> by (simp add: large_duration_def f m_def [symmetric] h_def [symmetric])
    qed
  qed
qed


text \<open>
  Durations survive printing: the text that \<open>String\<close> gives for a duration, from the shortest to the longest one of
  either sign, is parsed by \<open>ParseDuration\<close> to exactly the same number of nanoseconds, although fractions are
  computed in floating point.
\<close>

lemma ParseDuration_String:
  assumes "in_int64 d"
  shows "ParseDuration (Duration_String d) = Inr d"
proof (cases "d = 0")
  case True
  show ?thesis
    unfolding True by code_simp
next
  case False
  define u where "u = nat \<bar>d\<bar>"
  have u: "int u = \<bar>d\<bar>" "0 < u" "int u \<le> 2 ^ 63" "0 \<le> d \<longrightarrow> int u < 2 ^ 63"
    using assms False by (auto simp: u_def in_int64_def)
  define t where "t = (if u < 1000000000 then small_duration u else large_duration u)"
  have p: "parse_terms 0 t = Inr (int u)"
    using parse_small [of u] parse_large [OF u(3)] by (simp add: t_def)
  obtain m r where t: "t = digit_char m # r" "r \<noteq> []"
  proof -
    have "\<exists>v w. t = nat_string v @ w \<and> w \<noteq> []"
      by (auto simp: t_def small_duration_def large_duration_def micro_def Let_def split: prod.splits if_splits)
    then show thesis
      using nat_string_hd that by (metis append_Cons append_is_Nil_conv)
  qed
  have "digit_char m \<noteq> CHR ''+''" "digit_char m \<noteq> CHR ''-''"
    using digit_chars(1) [of m] by (auto simp: dec_digit_def less_eq_char_def)
  moreover have "Duration_String d = (if d < 0 then ''-'' else '''') @ t"
    using u by (simp add: Duration_String_def u_def [symmetric] t_def)
  ultimately show ?thesis
    using p t u by (auto simp: ParseDuration_def Let_def)
qed

end
