(* ===== verification/Exec.thy ===== *)
theory Exec
  imports Buffer Domain Go_Duration
begin

text \<open>
  \<open>internal/sshx/exec.go\<close>: one command on an SSH connection (\<open>Exec\<close>), keepalives. What the other
  side and the scheduler do is a script: which of the racing events of each \<open>select\<close> comes first,
  how opening the session and waiting for the command end, and the chunks of output that arrive.
  \<open>golang.org/x/crypto/ssh\<close> is only known through that script.
\<close>

record Request =
  rq_Command :: string
  rq_Stdin :: "string option"
  rq_Timeout :: duration
  rq_MaxOutput :: nat
  rq_Patterns :: "string list"

record Result =
  rs_Stdout :: string
  rs_Stderr :: string
  rs_ExitCode :: "int option"
  rs_Truncated :: bool
  rs_Bytes :: nat
  rs_Started :: bool
  rs_buffers :: "(Buffer \<times> Buffer) option"

definition Result_zero :: Result where
  "Result_zero = \<lparr>rs_Stdout = '''', rs_Stderr = '''', rs_ExitCode = None, rs_Truncated = False, rs_Bytes = 0,
     rs_Started = False, rs_buffers = None\<rparr>"

definition Result_Found :: "Result \<Rightarrow> nat \<Rightarrow> bool" where
  "Result_Found r i = (case rs_buffers r of None \<Rightarrow> False | Some (out, err) \<Rightarrow> Found out i \<or> Found err i)"

text \<open>The winner of a \<open>select\<close> on the awaited event, the timer and the context.\<close>

datatype race = Arrived | TimerFired | CtxDone

datatype open_end = NewSessionError string | StartError string | Opened

datatype wait_end = WaitError go_error | WaitOK

record session =
  ss_open_race :: race
  ss_open :: open_end
  ss_stdout :: "string list"
  ss_stderr :: "string list"
  ss_wait_race :: race
  ss_wait :: wait_end

definition writes :: "string list \<Rightarrow> Buffer \<Rightarrow> Buffer" where
  "writes ps b = fold (\<lambda>p b. Write b p) ps b"

definition timeout_failure :: "Request \<Rightarrow> Failure" where
  "timeout_failure req = Fail CatCommandTimeout (''command did not finish within '' @ Duration_String (rq_Timeout req))"

definition cancelled_failure :: Failure where
  "cancelled_failure = Fail CatCancelled ''cancelled''"

definition race_failure :: "Request \<Rightarrow> race \<Rightarrow> Failure option" where
  "race_failure req r =
     (case r of Arrived \<Rightarrow> None | TimerFired \<Rightarrow> Some (timeout_failure req) | CtxDone \<Rightarrow> Some cancelled_failure)"

definition exec_result :: "Buffer \<Rightarrow> Buffer \<Rightarrow> Result" where
  "exec_result out err =
     \<lparr>rs_Stdout = trim_right (CHR 0x0A) (Buffer_String out),
      rs_Stderr = trim_right (CHR 0x0A) (Buffer_String err),
      rs_ExitCode = None,
      rs_Truncated = Truncated out \<or> Truncated err,
      rs_Bytes = Total out + Total err,
      rs_Started = True,
      rs_buffers = Some (out, err)\<rparr>"

text \<open>The exit status in an error chain (\<open>errors.As\<close> with \<open>ssh.ExitError\<close> and \<open>ssh.ExitMissingError\<close>).\<close>

definition exit_status :: "go_error \<Rightarrow> int option" where
  "exit_status e = (case List.find (\<lambda>x. case x of EExit _ \<Rightarrow> True | _ \<Rightarrow> False) (err_chain e) of
     Some (EExit n) \<Rightarrow> Some n | _ \<Rightarrow> None)"

definition Exec :: "session \<Rightarrow> Request \<Rightarrow> Result \<times> Failure option" where
  "Exec ss req =
     (case race_failure req (ss_open_race ss) of
        Some f \<Rightarrow> (Result_zero, Some f)
      | None \<Rightarrow>
          (case ss_open ss of
             NewSessionError m \<Rightarrow> (Result_zero, Some (Fail CatSessionFailed (''cannot open session: '' @ m)))
           | StartError m \<Rightarrow> (Result_zero, Some (Fail CatSessionFailed (''cannot start command: '' @ m)))
           | Opened \<Rightarrow>
               (let out = writes (ss_stdout ss) (NewBuffer (rq_MaxOutput req) (rq_Patterns req));
                    err = writes (ss_stderr ss) (NewBuffer (rq_MaxOutput req) (rq_Patterns req));
                    res = exec_result out err
                in case race_failure req (ss_wait_race ss) of
                     Some f \<Rightarrow> (res, Some f)
                   | None \<Rightarrow>
                       (case ss_wait ss of
                          WaitOK \<Rightarrow> (res\<lparr>rs_ExitCode := Some 0\<rparr>, None)
                        | WaitError e \<Rightarrow>
                            (case exit_status e of
                               Some n \<Rightarrow> (res\<lparr>rs_ExitCode := Some n\<rparr>, None)
                             | None \<Rightarrow>
                                 if EExitMissing \<in> set (err_chain e) then (res, None)
                                 else (res, Some (Fail CatSessionFailed (''session failed: '' @ err_string e))))))))"

text \<open>Whether \<open>Exec\<close> closes the connection itself: only when opening the session hangs.\<close>

definition Exec_closes :: "session \<Rightarrow> bool" where
  "Exec_closes ss \<longleftrightarrow> ss_open_race ss \<noteq> Arrived"

section \<open>Keepalives\<close>

text \<open>\<open>Alive\<close>: any reply in time counts.\<close>

datatype probe = Reply | ReplyError | NoReply

fun Alive :: "probe \<Rightarrow> bool" where
  "Alive Reply = True"
| "Alive ReplyError = False"
| "Alive NoReply = False"

text \<open>
  The goroutine of \<open>KeepAlive\<close>, given the outcome of each tick's probe until \<open>stop\<close>: whether it
  closes the connection, and after how many probes.
\<close>

fun keepalive_loop :: "nat \<Rightarrow> nat \<Rightarrow> probe list \<Rightarrow> nat option" where
  "keepalive_loop misses failed [] = None"
| "keepalive_loop misses failed (p # ps) =
     (if Alive p then map_option Suc (keepalive_loop misses 0 ps)
      else if misses \<le> failed + 1 then Some 1
      else map_option Suc (keepalive_loop misses (failed + 1) ps))"

definition KeepAlive :: "nat \<Rightarrow> probe list \<Rightarrow> nat option" where
  "KeepAlive misses ps = keepalive_loop misses 0 ps"

section \<open>Properties\<close>

lemma keepalive_loop_iff:
  "f < m \<Longrightarrow> keepalive_loop m f ps \<noteq> None \<longleftrightarrow> contains (replicate f False @ map Alive ps) (replicate m False)"
proof (induction ps arbitrary: f)
  case Nil
  then show ?case
    using contains_length [of "replicate f False" "replicate m False"] by auto
next
  case (Cons p ps)
  let ?t = "replicate m False"
  show ?case
  proof (cases "Alive p")
    case True
    have "\<not> contains (replicate f False) ?t" and "\<not> contains [True] ?t"
      using contains_length [of "replicate f False" ?t] Cons.prems by (cases m; auto simp: has_prefix_def)+
    then have "contains (replicate f False @ [True] @ map Alive ps) ?t \<longleftrightarrow> contains (map Alive ps) ?t"
      using contains_around_marker [of "[True]" ?t "replicate f False" "map Alive ps"]
        contains_appendI(2) [of "map Alive ps" ?t "replicate f False @ [True]"] by auto
    then show ?thesis
      using True Cons by simp
  next
    case False
    have shift: "replicate f False @ False # xs = replicate (f + 1) False @ xs" for xs
      by (simp add: replicate_app_Cons_same)
    show ?thesis
    proof (cases "m \<le> f + 1")
      case True
      then have "m = f + 1" using Cons.prems by simp
      then show ?thesis
        using False by (simp add: shift contains_iff prefix_imp_sublist del: replicate.simps)
    next
      case gap: False
      then show ?thesis
        using False Cons.IH [of "f + 1"] by (simp add: shift del: replicate.simps)
    qed
  qed
qed

lemma Exec_error_category:
  "Exec ss req = (res, Some f) \<Longrightarrow>
   Category f \<in> {CatCommandTimeout, CatCancelled, CatSessionFailed}"
  by (auto simp: Exec_def race_failure_def timeout_failure_def cancelled_failure_def Let_def
      split: race.splits open_end.splits wait_end.splits option.splits if_splits)

text \<open>
  The contract of \<open>Exec\<close>: an error is a timeout, a cancellation or a broken session and comes
  with no exit code; an exit code or an error-free end means the command was started; a command that
  was not started always comes with an error; and the result of a started command has its buffers.
\<close>

theorem Exec_contract:
  "let (res, f) = Exec ss req in
   (\<forall>g. f = Some g \<longrightarrow> Category g \<in> {CatCommandTimeout, CatCancelled, CatSessionFailed} \<and> rs_ExitCode res = None) \<and>
   (rs_ExitCode res \<noteq> None \<or> f = None \<longrightarrow> rs_Started res) \<and>
   (\<not> rs_Started res \<longrightarrow> f \<noteq> None \<and> res = Result_zero) \<and>
   (rs_Started res \<longrightarrow> rs_buffers res \<noteq> None)"
  by (auto simp: Exec_def race_failure_def timeout_failure_def cancelled_failure_def Let_def Result_zero_def
      exec_result_def split: race.splits open_end.splits wait_end.splits option.splits if_splits)

theorem Exec_contract_witness:
  "snd (Exec \<lparr>ss_open_race = TimerFired, ss_open = Opened, ss_stdout = [], ss_stderr = [],
      ss_wait_race = Arrived, ss_wait = WaitOK\<rparr>
      \<lparr>rq_Command = ''true'', rq_Stdin = None, rq_Timeout = 5 * Second, rq_MaxOutput = 4096, rq_Patterns = []\<rparr>) \<noteq> None"
  (is "snd (Exec ?ss ?rq) \<noteq> None")
  using Exec_contract [of ?ss ?rq] by (simp add: Exec_def race_failure_def split_beta Result_zero_def)

text \<open>
  Output conditions are decided on the whole output: for non-empty patterns, pattern \<open>i\<close> of a
  started command is found exactly when it occurs in everything the command wrote to stdout or to
  stderr, however it was chunked and truncated.
\<close>

theorem Exec_found_iff:
  assumes "Exec ss req = (res, f)" and "rs_Started res"
    and "[] \<notin> set (rq_Patterns req)" and "i < length (rq_Patterns req)"
  shows "Result_Found res i \<longleftrightarrow>
     contains (concat (ss_stdout ss)) (rq_Patterns req ! i) \<or> contains (concat (ss_stderr ss)) (rq_Patterns req ! i)"
proof -
  have "rs_buffers res = Some (writes (ss_stdout ss) (NewBuffer (rq_MaxOutput req) (rq_Patterns req)),
      writes (ss_stderr ss) (NewBuffer (rq_MaxOutput req) (rq_Patterns req)))"
    using assms(1,2)
    by (auto simp: Exec_def Let_def Result_zero_def exec_result_def
        split: race.splits open_end.splits wait_end.splits option.splits if_splits)
  then show ?thesis
    using buffer.seen_iff [OF assms(3,4)] by (simp add: Result_Found_def writes_def)
qed

definition example_session :: session where
  "example_session = \<lparr>ss_open_race = Arrived, ss_open = Opened, ss_stdout = [''rea'', ''dy''], ss_stderr = [],
     ss_wait_race = Arrived, ss_wait = WaitOK\<rparr>"

definition example_request :: Request where
  "example_request = \<lparr>rq_Command = ''status'', rq_Stdin = None, rq_Timeout = 5 * Second, rq_MaxOutput = 4,
     rq_Patterns = [''ready'']\<rparr>"

theorem Exec_found_iff_witness:
  "Result_Found (fst (Exec example_session example_request)) 0"
proof -
  let ?r = "Exec example_session example_request"
  have started: "rs_Started (fst ?r)"
    by (simp add: Exec_def race_failure_def example_session_def Let_def exec_result_def)
  have "?r = (fst ?r, snd ?r)" by simp
  from Exec_found_iff [OF this started, of 0] show ?thesis
    by (simp add: example_request_def example_session_def has_prefix_def)
qed

text \<open>
  The keepalive closes the connection exactly when the given number of consecutive probes went
  unanswered: not on fewer, and not on misses that a reply interrupts.
\<close>

theorem KeepAlive_closes_iff:
  assumes "0 < misses"
  shows "KeepAlive misses ps \<noteq> None \<longleftrightarrow> contains (map Alive ps) (replicate misses False)"
  using keepalive_loop_iff [OF assms] by (simp add: KeepAlive_def)

theorem KeepAlive_closes_iff_witness:
  "KeepAlive 3 [NoReply, NoReply, Reply, NoReply, NoReply] = None"
  using KeepAlive_closes_iff [of 3 "[NoReply, NoReply, Reply, NoReply, NoReply]"]
  by (simp add: has_prefix_def numeral_eq_Suc)

end
