(* ===== verification/Report.thy ===== *)
theory Report
  imports Go_Duration
begin

text \<open>
  \<open>internal/runner/report.go\<close>: step results, host results, the summary and the report. An empty
  failure category of the source is \<open>None\<close>. Times are nanoseconds and are passed in by the caller.
\<close>

record StepResult =
  sr_Name :: string
  sr_Kind :: string
  sr_Command :: string
  sr_Status :: Status
  sr_Attempts :: nat
  sr_ExitCode :: "int option"
  sr_Stdout :: string
  sr_Stderr :: string
  sr_Truncated :: bool
  sr_Note :: string
  sr_Duration :: duration
  sr_Category :: "Category option"
  sr_Reason :: string
  sr_started :: bool

record HostResult =
  hr_Host :: string
  hr_Address :: string
  hr_Status :: Status
  hr_FailedStep :: string
  hr_Category :: "Category option"
  hr_Reason :: string
  hr_ConnectAttempts :: nat
  hr_Duration :: duration
  hr_Steps :: "StepResult list"

record Summary =
  sum_Total :: nat
  sum_Success :: nat
  sum_Failed :: nat
  sum_Cancelled :: nat
  sum_Skipped :: nat

record Report =
  rep_Job :: string
  rep_Version :: string
  rep_Hash :: string
  rep_StartedAt :: int
  rep_FinishedAt :: int
  rep_Duration :: duration
  rep_Summary :: Summary
  rep_Hosts :: "HostResult list"

text \<open>
  \<open>Duration\<close>: a duration is saved as text, rounded to milliseconds. Writing and reading a JSON string is library
  code (\<open>enc\<close>, \<open>dec\<close>). \<open>UnmarshalJSON\<close> returns the error and the new value of the receiver.
\<close>

definition Millisecond :: duration where
  "Millisecond = 1000000"

definition Report_Duration_String :: "duration \<Rightarrow> string" where
  "Report_Duration_String d = Duration_String (Duration_Round d Millisecond)"

definition MarshalJSON :: "(string \<Rightarrow> string) \<Rightarrow> duration \<Rightarrow> string" where
  "MarshalJSON enc d = enc (Report_Duration_String d)"

datatype unmarshal_error = JSONError string | DurationError dur_error

definition UnmarshalJSON :: "(string \<Rightarrow> string + string) \<Rightarrow> duration \<Rightarrow> string \<Rightarrow> unmarshal_error option \<times> duration" where
  "UnmarshalJSON dec d b =
     (case dec b of
        Inl e \<Rightarrow> (Some (JSONError e), d)
      | Inr s \<Rightarrow>
          (case ParseDuration s of
             Inl e \<Rightarrow> (Some (DurationError e), 0)
           | Inr v \<Rightarrow> (None, v)))"

definition MarshalYAML :: "duration \<Rightarrow> string" where
  "MarshalYAML d = Report_Duration_String d"

definition Summary_zero :: Summary where
  "Summary_zero = \<lparr>sum_Total = 0, sum_Success = 0, sum_Failed = 0, sum_Cancelled = 0, sum_Skipped = 0\<rparr>"

definition newReport :: "Job \<Rightarrow> int \<Rightarrow> Report" where
  "newReport j now =
     \<lparr>rep_Job = job_Name j, rep_Version = job_Version j, rep_Hash = job_Hash j, rep_StartedAt = now,
      rep_FinishedAt = 0, rep_Duration = 0, rep_Summary = Summary_zero, rep_Hosts = []\<rparr>"

definition count_host :: "HostResult \<Rightarrow> Summary \<Rightarrow> Summary" where
  "count_host h s =
     (case hr_Status h of
        StatusSuccess \<Rightarrow> s\<lparr>sum_Success := sum_Success s + 1\<rparr>
      | StatusCancelled \<Rightarrow> s\<lparr>sum_Cancelled := sum_Cancelled s + 1\<rparr>
      | StatusSkipped \<Rightarrow> s\<lparr>sum_Skipped := sum_Skipped s + 1\<rparr>
      | StatusFailed \<Rightarrow> s\<lparr>sum_Failed := sum_Failed s + 1\<rparr>)"

definition Report_finish :: "Report \<Rightarrow> int \<Rightarrow> Report" where
  "Report_finish r now =
     r\<lparr>rep_FinishedAt := now, rep_Duration := now - rep_StartedAt r,
       rep_Summary := fold count_host (rep_Hosts r) (Summary_zero\<lparr>sum_Total := length (rep_Hosts r)\<rparr>)\<rparr>"

definition Report_OK :: "Report \<Rightarrow> bool" where
  "Report_OK r \<longleftrightarrow> sum_Success (rep_Summary r) = sum_Total (rep_Summary r)"

definition Summary_String :: "Summary \<Rightarrow> string" where
  "Summary_String s =
     nat_string (sum_Total s) @ '' hosts: '' @ nat_string (sum_Success s) @ '' succeeded, '' @
     nat_string (sum_Failed s) @ '' failed, '' @ nat_string (sum_Cancelled s) @ '' cancelled'' @
     (if sum_Skipped s > 0 then '', '' @ nat_string (sum_Skipped s) @ '' skipped'' else '''')"

definition with_status :: "Status \<Rightarrow> HostResult list \<Rightarrow> HostResult list" where
  "with_status s hs = filter (\<lambda>h. hr_Status h = s) hs"

lemma fold_count_host:
  "fold count_host hs s =
     s\<lparr>sum_Success := sum_Success s + length (with_status StatusSuccess hs),
       sum_Failed := sum_Failed s + length (with_status StatusFailed hs),
       sum_Cancelled := sum_Cancelled s + length (with_status StatusCancelled hs),
       sum_Skipped := sum_Skipped s + length (with_status StatusSkipped hs)\<rparr>"
proof (induction hs arbitrary: s)
  case (Cons h hs)
  have "fold count_host (h # hs) s = fold count_host hs (count_host h s)" by simp
  then show ?case
    by (cases "hr_Status h") (simp_all only: Cons.IH, simp_all add: count_host_def with_status_def)
qed (simp add: with_status_def)

lemma with_status_partition:
  "length (with_status StatusSuccess hs) + length (with_status StatusFailed hs) +
   length (with_status StatusCancelled hs) + length (with_status StatusSkipped hs) = length hs"
proof (induction hs)
  case (Cons h hs)
  then show ?case
    by (cases "hr_Status h") (simp_all add: with_status_def)
qed (simp add: with_status_def)

text \<open>
  The summary of a finished report is exact: every host is counted under its status and the four
  counts add up to the number of hosts; the run counts as successful exactly when every host
  succeeded.
\<close>

theorem Report_finish_summary:
  "let r' = Report_finish r now; s = rep_Summary r'; hs = rep_Hosts r in
   rep_Hosts r' = hs \<and> sum_Total s = length hs \<and>
   sum_Success s = length (with_status StatusSuccess hs) \<and>
   sum_Failed s = length (with_status StatusFailed hs) \<and>
   sum_Cancelled s = length (with_status StatusCancelled hs) \<and>
   sum_Skipped s = length (with_status StatusSkipped hs) \<and>
   sum_Success s + sum_Failed s + sum_Cancelled s + sum_Skipped s = sum_Total s \<and>
   (Report_OK r' \<longleftrightarrow> (\<forall>h \<in> set hs. hr_Status h = StatusSuccess))"
proof -
  have all: "length (with_status StatusSuccess hs) = length hs \<longleftrightarrow> (\<forall>h \<in> set hs. hr_Status h = StatusSuccess)" for hs
  proof
    assume "length (with_status StatusSuccess hs) = length hs"
    then show "\<forall>h \<in> set hs. hr_Status h = StatusSuccess"
      using length_filter_less [of _ hs "\<lambda>h. hr_Status h = StatusSuccess"] by (force simp: with_status_def)
  qed (simp add: with_status_def)
  show ?thesis
    using with_status_partition [of "rep_Hosts r"] all [of "rep_Hosts r"]
    by (simp add: Let_def Report_finish_def fold_count_host Summary_zero_def Report_OK_def)
qed

definition example_host :: "string \<Rightarrow> Status \<Rightarrow> HostResult" where
  "example_host name st = \<lparr>hr_Host = name, hr_Address = name @ '':22'', hr_Status = st, hr_FailedStep = [],
     hr_Category = None, hr_Reason = [], hr_ConnectAttempts = 1, hr_Duration = 0, hr_Steps = []\<rparr>"

theorem Report_finish_summary_witness:
  "\<not> Report_OK (Report_finish
     (\<lparr>rep_Job = ''j'', rep_Version = [], rep_Hash = [], rep_StartedAt = 0, rep_FinishedAt = 0, rep_Duration = 0,
       rep_Summary = Summary_zero, rep_Hosts = [example_host ''a'' StatusSuccess, example_host ''b'' StatusSkipped]\<rparr>) 5)"
  (is "\<not> Report_OK (Report_finish ?r 5)")
  using Report_finish_summary [of ?r 5] by (simp add: Let_def example_host_def)

section \<open>Saved durations\<close>

lemma Duration_Round_close:
  assumes "in_int64 d" and "0 < m"
  shows "in_int64 (Duration_Round d m) \<and> 2 * \<bar>Duration_Round d m - d\<bar> \<le> m"
proof -
  define r where "r = \<bar>d\<bar> mod m"
  define q where "q = (if r + r < m then \<bar>d\<bar> - r else \<bar>d\<bar> + m - r)"
  have r: "0 \<le> r" "r < m" "r \<le> \<bar>d\<bar>"
    using assms(2) by (simp_all add: r_def zmod_le_nonneg_dividend)
  have q: "0 \<le> q" "2 * \<bar>q - \<bar>d\<bar>\<bar> \<le> m"
    using r by (auto simp: q_def)
  have m: "(m \<le> 0) = False"
    using assms(2) by simp
  have R: "Duration_Round d m = (if d < 0 then (if - q < - (2 ^ 63) then - (2 ^ 63) else - q) else (if q > 2 ^ 63 - 1 then 2 ^ 63 - 1 else q))"
    by (simp only: Duration_Round_def Let_def r_def q_def m if_False)
  have "- q - d = - (q + d)"
    by simp
  then have neg: "\<bar>- q - d\<bar> = \<bar>q + d\<bar>"
    by (metis abs_minus_cancel)
  show ?thesis
    unfolding R using q assms(1) neg by (auto simp: in_int64_def)
qed


text \<open>For the texts in question a JSON string is the text in double quotes.\<close>

definition quote_json :: "string \<Rightarrow> string" where
  "quote_json s = CHR 0x22 # s @ [CHR 0x22]"

definition unquote_json :: "string \<Rightarrow> string + string" where
  "unquote_json b = (if length b \<ge> 2 then Inr (butlast (tl b)) else Inl ''unexpected end of JSON input'')"



end
