(* ===== verification/Transport.thy ===== *)
theory Transport
  imports Build Credentials Exec Report
begin

text \<open>
  What the runner sees of the world. The network, the clock, the user's Ctrl+C and the random
  numbers are the functions of a \<open>transport\<close> over an unknown world state; the runner's own state pairs
  that world with the trace of what was done to it. The trace is bookkeeping of the model: it lets the
  properties speak about which commands ran and in which order.
\<close>

record 'k Plan =
  pl_Target :: Target
  pl_Actions :: "Action list"
  pl_auth :: "'k Auth option"
  pl_bastion :: "'k Auth option"

record Options =
  o_Concurrency :: int
  o_ConnectTimeout :: duration
  o_HandshakeTimeout :: duration
  o_StepTimeout :: duration
  o_ConnectRetries :: int
  o_RetryDelay :: duration
  o_MaxRetryDelay :: duration
  o_MaxOutput :: int
  o_KnownHosts :: string
  o_AcceptNewHosts :: bool
  o_Insecure :: bool
  o_SkipCredentials :: bool
  o_MaxFailures :: int
  o_Progress :: duration

type_synonym conn = nat

text \<open>
  \<open>tp_dial\<close> is one call of \<open>Dialer.Dial\<close> for a plan, with an extra deadline where the caller sets one.
  \<open>tp_session\<close> is what happens on a connection while one command is executed (see \<open>Exec\<close>).
  \<open>tp_wait\<close> waits for a duration or for the context, whichever comes first, and tells which.
\<close>

record ('k, 'w) transport =
  tp_dial :: "'k Plan \<Rightarrow> int option \<Rightarrow> 'w \<Rightarrow> (go_error + conn) \<times> 'w"
  tp_session :: "conn \<Rightarrow> Request \<Rightarrow> 'w \<Rightarrow> session \<times> 'w"
  tp_alive :: "conn \<Rightarrow> 'w \<Rightarrow> probe \<times> 'w"
  tp_close :: "conn \<Rightarrow> 'w \<Rightarrow> 'w"
  tp_wait :: "duration \<Rightarrow> 'w \<Rightarrow> bool \<times> 'w"
  tp_now :: "'w \<Rightarrow> int"
  tp_cancelled :: "'w \<Rightarrow> bool"
  tp_rand :: "int \<Rightarrow> 'w \<Rightarrow> int \<times> 'w"
  tp_rematch :: "string \<Rightarrow> string \<Rightarrow> bool"

datatype event =
    EvDial bool
  | EvExec conn Request Result "Failure option"
  | EvKeepAlive conn bool
  | EvClose conn
  | EvSleep duration

record 'w rstate =
  rs_world :: 'w
  rs_trace :: "event list"

definition emit :: "event \<Rightarrow> 'w \<Rightarrow> 'w rstate \<Rightarrow> 'w rstate" where
  "emit e w st = \<lparr>rs_world = w, rs_trace = rs_trace st @ [e]\<rparr>"

definition do_dial :: "('k, 'w) transport \<Rightarrow> 'k Plan \<Rightarrow> int option \<Rightarrow> 'w rstate \<Rightarrow> (go_error + conn) \<times> 'w rstate" where
  "do_dial T p dl st = (let (r, w) = tp_dial T p dl (rs_world st) in (r, emit (EvDial (is_ok r)) w st))"

definition do_exec :: "('k, 'w) transport \<Rightarrow> conn \<Rightarrow> Request \<Rightarrow> 'w rstate \<Rightarrow> (Result \<times> Failure option) \<times> 'w rstate" where
  "do_exec T c req st =
     (let (ss, w) = tp_session T c req (rs_world st);
          (res, f) = Exec ss req
      in ((res, f), emit (EvExec c req res f) w st))"

definition do_alive :: "('k, 'w) transport \<Rightarrow> conn \<Rightarrow> 'w rstate \<Rightarrow> bool \<times> 'w rstate" where
  "do_alive T c st = (let (p, w) = tp_alive T c (rs_world st) in (Alive p, st\<lparr>rs_world := w\<rparr>))"

definition do_close :: "('k, 'w) transport \<Rightarrow> conn \<Rightarrow> 'w rstate \<Rightarrow> 'w rstate" where
  "do_close T c st = emit (EvClose c) (tp_close T c (rs_world st)) st"

definition do_keepalive :: "conn \<Rightarrow> bool \<Rightarrow> 'w rstate \<Rightarrow> 'w rstate" where
  "do_keepalive c on st = emit (EvKeepAlive c on) (rs_world st) st"

definition now :: "('k, 'w) transport \<Rightarrow> 'w rstate \<Rightarrow> int" where
  "now T st = tp_now T (rs_world st)"

definition ctx_err :: "('k, 'w) transport \<Rightarrow> 'w rstate \<Rightarrow> bool" where
  "ctx_err T st = tp_cancelled T (rs_world st)"

text \<open>\<open>sleep\<close> of runner.go: true stands for a non-nil error (the context is done).\<close>

definition sleep :: "('k, 'w) transport \<Rightarrow> duration \<Rightarrow> 'w rstate \<Rightarrow> bool \<times> 'w rstate" where
  "sleep T d st =
     (if d \<le> 0 then (ctx_err T st, st)
      else let (c, w) = tp_wait T d (rs_world st) in (c, emit (EvSleep d) w st))"

text \<open>The events an operation adds to the trace.\<close>

definition new_events :: "'w rstate \<Rightarrow> 'w rstate \<Rightarrow> event list" where
  "new_events st st' = drop (length (rs_trace st)) (rs_trace st')"

definition extends :: "'w rstate \<Rightarrow> 'w rstate \<Rightarrow> bool" where
  "extends st st' \<longleftrightarrow> prefix (rs_trace st) (rs_trace st')"

lemma extends_refl [simp, intro]: "extends st st"
  by (simp add: extends_def)

lemma extends_trans [trans]: "extends a b \<Longrightarrow> extends b c \<Longrightarrow> extends a c"
  by (auto simp: extends_def)

lemma new_events_refl [simp]: "new_events st st = []"
  by (simp add: new_events_def)

lemma new_events_trans:
  "extends a b \<Longrightarrow> extends b c \<Longrightarrow> new_events a c = new_events a b @ new_events b c"
  by (auto simp: extends_def new_events_def prefix_def)

lemma emit_events [simp]: "extends st (emit e w st)" "new_events st (emit e w st) = [e]"
  by (simp_all add: extends_def new_events_def emit_def)

fun exec_event :: "event \<Rightarrow> Request option" where
  "exec_event (EvExec c req res f) = Some req"
| "exec_event _ = None"

definition exec_requests :: "event list \<Rightarrow> Request list" where
  "exec_requests evs = List.map_filter exec_event evs"

lemma exec_requests_simps [simp]:
  "exec_requests [] = []"
  "exec_requests (e # evs) = (case exec_event e of Some r \<Rightarrow> r # exec_requests evs | None \<Rightarrow> exec_requests evs)"
  "exec_requests (evs @ evs') = exec_requests evs @ exec_requests evs'"
  by (simp_all add: exec_requests_def map_filter_def split: option.splits)

fun is_dial :: "event \<Rightarrow> bool" where
  "is_dial (EvDial b) = True"
| "is_dial _ = False"

definition dials :: "event list \<Rightarrow> nat" where
  "dials evs = length (filter is_dial evs)"

lemma dials_simps [simp]:
  "dials [] = 0" "dials (e # evs) = (if is_dial e then 1 else 0) + dials evs"
  "dials (evs @ evs') = dials evs + dials evs'"
  by (simp_all add: dials_def)

text \<open>The connections opened and not closed by a sequence of events.\<close>

definition conn_delta :: "event \<Rightarrow> int" where
  "conn_delta e = (case e of EvDial b \<Rightarrow> if b then 1 else 0 | EvClose c \<Rightarrow> -1 | _ \<Rightarrow> 0)"

definition open_conns :: "event list \<Rightarrow> int" where
  "open_conns evs = sum_list (map conn_delta evs)"

lemma open_conns_simps [simp]:
  "open_conns [] = 0" "open_conns (e # evs) = conn_delta e + open_conns evs"
  "open_conns (evs @ evs') = open_conns evs + open_conns evs'"
  by (simp_all add: open_conns_def)

text \<open>Events that neither open nor close a connection nor touch its keepalive.\<close>

definition local_event :: "event \<Rightarrow> bool" where
  "local_event e \<longleftrightarrow> (case e of EvExec c req res f \<Rightarrow> True | EvSleep d \<Rightarrow> True | _ \<Rightarrow> False)"

lemma event_simps [simp]:
  "local_event (EvExec c req res f)" "local_event (EvSleep d)"
  "conn_delta (EvDial b) = (if b then 1 else 0)" "conn_delta (EvClose c) = -1" "conn_delta (EvExec c req res f) = 0"
  "conn_delta (EvSleep d) = 0" "conn_delta (EvKeepAlive c on) = 0"
  by (simp_all add: local_event_def conn_delta_def)

lemma local_events: "list_all local_event evs \<Longrightarrow> dials evs = 0 \<and> open_conns evs = 0"
  by (induction evs) (auto simp: local_event_def conn_delta_def split: event.splits)

lemma do_dial_events:
  "do_dial T p dl st = (r, st') \<Longrightarrow> extends st st' \<and> new_events st st' = [EvDial (is_ok r)]"
  by (auto simp: do_dial_def split_beta)

lemma do_exec_events:
  "do_exec T c req st = ((res, f), st') \<Longrightarrow> extends st st' \<and> new_events st st' = [EvExec c req res f]"
  by (auto simp: do_exec_def split_beta Let_def)

lemma do_alive_events: "do_alive T c st = (b, st') \<Longrightarrow> extends st st' \<and> new_events st st' = []"
  by (auto simp: do_alive_def split_beta extends_def new_events_def)

lemma do_close_events: "extends st (do_close T c st)" "new_events st (do_close T c st) = [EvClose c]"
  by (simp_all add: do_close_def)

lemma do_keepalive_events:
  "extends st (do_keepalive c on st)" "new_events st (do_keepalive c on st) = [EvKeepAlive c on]"
  by (simp_all add: do_keepalive_def)

lemma sleep_events:
  "sleep T d st = (b, st') \<Longrightarrow> extends st st' \<and> new_events st st' = (if d \<le> 0 then [] else [EvSleep d])"
  by (auto simp: sleep_def split_beta Let_def)

lemma do_exec_contract:
  assumes "do_exec T c req st = ((res, f), st')"
  shows "\<exists>ss. Exec ss req = (res, f)"
  using assms by (auto simp: do_exec_def split_beta Let_def)

end
