(* ===== verification/Host.thy ===== *)
theory Host
  imports Transport
begin

text \<open>
  \<open>internal/runner/runner.go\<close>, the part that runs on one host: connecting with retries, one attempt
  of a step and its expectations, the retry loop of a step, steps that drop the connection, and the
  loop over the steps (\<open>runHost\<close>). A function that may not return a value (a panic, or a loop that
  never ends) has an option as its result, with \<open>None\<close> for that.
\<close>

record 'k Runner =
  rn_opts :: Options
  rn_job :: Job
  rn_Plans :: "'k Plan list"
  rn_redact :: Redactor

section \<open>Checking a result\<close>

definition lastLine :: "string \<Rightarrow> string" where
  "lastLine s = (let t = trim_space s in trim_space (last (split_str t [newline])))"

fun check_contains :: "Result \<Rightarrow> nat \<Rightarrow> string list \<Rightarrow> Failure option" where
  "check_contains res i [] = None"
| "check_contains res i (s # ss) =
     (if \<not> Result_Found res i then Some (Fail CatCommandFailed (''output does not contain '' @ fmt_q s))
      else check_contains res (i + 1) ss)"

fun check_not_contains :: "Result \<Rightarrow> nat \<Rightarrow> string list \<Rightarrow> Failure option" where
  "check_not_contains res i [] = None"
| "check_not_contains res i (s # ss) =
     (if Result_Found res i then Some (Fail CatCommandFailed (''output contains forbidden text '' @ fmt_q s))
      else check_not_contains res (i + 1) ss)"

definition check :: "(string \<Rightarrow> string \<Rightarrow> bool) \<Rightarrow> Action \<Rightarrow> Result \<Rightarrow> Failure option" where
  "check rematch a res =
     (case rs_ExitCode res of
        None \<Rightarrow> Some (Fail CatCommandFailed ''remote side did not report an exit status'')
      | Some code \<Rightarrow>
          if code \<noteq> act_ExitCode a then
            (let reason = ''exit code '' @ itoa code @ '', expected '' @ itoa (act_ExitCode a);
                 line = lastLine (rs_Stderr res)
             in Some (Fail CatCommandFailed
                  (if line \<noteq> '''' \<and> \<not> act_Sensitive a then reason @ '': '' @ line else reason)))
          else
            (case check_contains res 0 (act_Contains a) of
               Some f \<Rightarrow> Some f
             | None \<Rightarrow>
                 (case check_not_contains res (length (act_Contains a)) (act_NotContains a) of
                    Some f \<Rightarrow> Some f
                  | None \<Rightarrow>
                      (case act_Regex a of
                         Some re \<Rightarrow> if \<not> rematch re (rs_Stdout res)
                                    then Some (Fail CatCommandFailed (''output does not match '' @ fmt_q re)) else None
                       | None \<Rightarrow> None))))"

section \<open>One attempt\<close>

definition sudo_password :: "'k Plan \<Rightarrow> string" where
  "sudo_password p = (case pl_auth p of Some a \<Rightarrow> auth_SudoPassword a | None \<Rightarrow> '''')"

definition upload_request :: "Action \<Rightarrow> string \<Rightarrow> Request" where
  "upload_request a content =
     \<lparr>rq_Command = UploadCommand, rq_Stdin = Some content, rq_Timeout = act_Timeout a, rq_MaxOutput = 4096, rq_Patterns = []\<rparr>"

definition run_request :: "'k Runner \<Rightarrow> 'k Plan \<Rightarrow> Action \<Rightarrow> bool \<Rightarrow> string \<Rightarrow> Request" where
  "run_request R p a sudoPW tmp =
     (let pw = act_Sudo a \<and> sudoPW in
      \<lparr>rq_Command = Remote a tmp pw,
       rq_Stdin = (if pw then Some (sudo_password p @ [newline]) else None),
       rq_Timeout = act_Timeout a,
       rq_MaxOutput = nat (o_MaxOutput (rn_opts R)),
       rq_Patterns = act_Contains a @ act_NotContains a\<rparr>)"

definition attempt_run ::
  "'k Runner \<Rightarrow> ('k, 'w) transport \<Rightarrow> conn \<Rightarrow> 'k Plan \<Rightarrow> Action \<Rightarrow> bool \<Rightarrow> string \<Rightarrow> 'w rstate \<Rightarrow>
   (Result \<times> Failure option) \<times> 'w rstate" where
  "attempt_run R T c p a sudoPW tmp st =
     (let ((res, f), st') = do_exec T c (run_request R p a sudoPW tmp) st in
      case f of Some g \<Rightarrow> ((res, Some g), st') | None \<Rightarrow> ((res, check (tp_rematch T) a res), st'))"

definition attempt ::
  "'k Runner \<Rightarrow> ('k, 'w) transport \<Rightarrow> conn \<Rightarrow> 'k Plan \<Rightarrow> Action \<Rightarrow> bool \<Rightarrow> 'w rstate \<Rightarrow>
   (Result \<times> Failure option) \<times> 'w rstate" where
  "attempt R T c p a sudoPW st =
     (case act_Content a of
        None \<Rightarrow> attempt_run R T c p a sudoPW '''' st
      | Some content \<Rightarrow>
          (let ((res, f), st') = do_exec T c (upload_request a content) st in
           case f of
             Some g \<Rightarrow> ((res, Some g), st')
           | None \<Rightarrow>
               if rs_ExitCode res \<noteq> Some 0 \<or> rs_Stdout res = '''' then
                 ((res, Some (Fail CatCommandFailed (''upload to a remote temp file failed: '' @ rs_Stderr res))), st')
               else attempt_run R T c p a sudoPW (rs_Stdout res) st'))"

section \<open>A step with its retries\<close>

definition mask :: "'k Runner \<Rightarrow> Action \<Rightarrow> string \<Rightarrow> string" where
  "mask R a s = (if act_Sensitive a \<and> s \<noteq> '''' then SensitiveMask else String (rn_redact R) s)"

definition step_result :: "Action \<Rightarrow> Status \<Rightarrow> StepResult" where
  "step_result a status =
     \<lparr>sr_Name = act_Name a, sr_Kind = act_Kind a, sr_Command = act_Display a, sr_Status = status, sr_Attempts = 0,
      sr_ExitCode = None, sr_Stdout = '''', sr_Stderr = '''', sr_Truncated = False, sr_Note = '''', sr_Duration = 0,
      sr_Category = None, sr_Reason = '''', sr_started = False\<rparr>"

text \<open>The failures worth repeating a step for.\<close>

definition outcome_failure :: "Failure option \<Rightarrow> bool" where
  "outcome_failure f = (case f of None \<Rightarrow> False | Some g \<Rightarrow> Category g = CatCommandFailed \<or> Category g = CatCommandTimeout)"

definition record_attempt :: "'k Runner \<Rightarrow> Action \<Rightarrow> nat \<Rightarrow> Result \<Rightarrow> StepResult \<Rightarrow> StepResult" where
  "record_attempt R a try res sr =
     sr\<lparr>sr_Attempts := try + 1, sr_ExitCode := rs_ExitCode res, sr_started := rs_Started res,
        sr_Stdout := mask R a (rs_Stdout res), sr_Stderr := mask R a (rs_Stderr res), sr_Truncated := rs_Truncated res\<rparr>"

text \<open>The loop \<open>for try := 0; try <= a.Retries; try++\<close>, with \<open>n\<close> iterations left.\<close>

fun step_loop ::
  "'k Runner \<Rightarrow> ('k, 'w) transport \<Rightarrow> conn \<Rightarrow> 'k Plan \<Rightarrow> Action \<Rightarrow> bool \<Rightarrow> nat \<Rightarrow> nat \<Rightarrow>
   StepResult \<Rightarrow> Failure option \<Rightarrow> 'w rstate \<Rightarrow> (StepResult \<times> Failure option) \<times> 'w rstate" where
  "step_loop R T c p a sudoPW 0 try sr f st = ((sr, f), st)"
| "step_loop R T c p a sudoPW (Suc n) try sr f st =
     (let (cancelled, st1) = (if 0 < try then sleep T (act_RetryDelay a) st else (False, st)) in
      if cancelled then ((sr, f), st1)
      else
        let ((res, f'), st2) = attempt R T c p a sudoPW st1;
            sr' = record_attempt R a try res sr
        in if outcome_failure f' then step_loop R T c p a sudoPW n (try + 1) sr' f' st2
           else ((sr', f'), st2))"

definition failed_status :: "Failure \<Rightarrow> Status" where
  "failed_status f = (if Category f = CatCancelled then StatusCancelled else StatusFailed)"

definition with_failure :: "'k Runner \<Rightarrow> Failure \<Rightarrow> StepResult \<Rightarrow> StepResult" where
  "with_failure R f sr =
     sr\<lparr>sr_Status := failed_status f, sr_Category := Some (Category f), sr_Reason := String (rn_redact R) (Reason f)\<rparr>"

definition with_success :: "StepResult \<Rightarrow> StepResult" where
  "with_success sr = sr\<lparr>sr_Status := StatusSuccess, sr_Category := None, sr_Reason := ''''\<rparr>"

definition runStep ::
  "'k Runner \<Rightarrow> ('k, 'w) transport \<Rightarrow> conn \<Rightarrow> 'k Plan \<Rightarrow> Action \<Rightarrow> bool \<Rightarrow> 'w rstate \<Rightarrow>
   (StepResult \<times> Failure option) \<times> 'w rstate" where
  "runStep R T c p a sudoPW st =
     (let start = now T st;
          ((sr, f), st') = step_loop R T c p a sudoPW (nat (act_Retries a + 1)) 0 (step_result a StatusSuccess) None st;
          sr' = (case f of None \<Rightarrow> sr\<lparr>sr_Status := StatusSuccess\<rparr> | Some g \<Rightarrow> with_failure R g sr)
      in ((sr'\<lparr>sr_Duration := now T st' - start\<rparr>, f), st'))"

section \<open>Connecting\<close>

text \<open>The arithmetic of \<open>backoff\<close> is on 64-bit durations; \<open>rand.N\<close> panics on an argument that is not
  positive and otherwise returns a number below it.\<close>

definition shl64 :: "int \<Rightarrow> nat \<Rightarrow> int" where
  "shl64 b n = signed_take_bit 63 (b * 2 ^ n)"

definition half_trunc :: "int \<Rightarrow> int" where
  "half_trunc d = (if d < 0 then - ((- d) div 2) else d div 2)"

definition backoff_base :: "duration \<Rightarrow> duration \<Rightarrow> nat \<Rightarrow> duration" where
  "backoff_base base maxDelay n =
     (let d = shl64 base (n - 1) in if d > maxDelay \<or> d \<le> 0 then maxDelay else d)"

definition backoff :: "(int \<Rightarrow> 'w \<Rightarrow> int \<times> 'w) \<Rightarrow> duration \<Rightarrow> duration \<Rightarrow> nat \<Rightarrow> 'w \<Rightarrow> (duration \<times> 'w) option" where
  "backoff rnd base maxDelay n w =
     (let h = half_trunc (backoff_base base maxDelay n) in
      if h + 1 \<le> 0 then None
      else let (r, w') = rnd (h + 1) w in Some (h + r mod (h + 1), w'))"

function connect_loop ::
  "'k Runner \<Rightarrow> ('k, 'w) transport \<Rightarrow> 'k Plan \<Rightarrow> nat \<Rightarrow> 'w rstate \<Rightarrow> (((go_error + conn) \<times> nat) \<times> 'w rstate) option" where
  "connect_loop R T p n st =
     (let (r, st1) = do_dial T p None st in
      case r of
        Inr c \<Rightarrow> Some ((Inr c, n), st1)
      | Inl e \<Rightarrow>
          if \<not> Retryable (Category (AsFailure e)) \<or> int n > o_ConnectRetries (rn_opts R) \<or> ctx_err T st1
          then Some ((Inl e, n), st1)
          else
            (case backoff (tp_rand T) (o_RetryDelay (rn_opts R)) (o_MaxRetryDelay (rn_opts R)) n (rs_world st1) of
               None \<Rightarrow> None
             | Some (d, w) \<Rightarrow>
                 let (cancelled, st2) = sleep T d (st1\<lparr>rs_world := w\<rparr>) in
                 if cancelled
                 then Some ((Inl (EFailure (Fail CatCancelled ''cancelled while waiting to reconnect'')), n), st2)
                 else connect_loop R T p (n + 1) st2))"
  by pat_completeness auto
termination
  by (relation "measure (\<lambda>(R, T, p, n, st). nat (o_ConnectRetries (rn_opts R) + 1 - int n))") auto

declare connect_loop.simps [simp del]

definition connect ::
  "'k Runner \<Rightarrow> ('k, 'w) transport \<Rightarrow> 'k Plan \<Rightarrow> 'w rstate \<Rightarrow> (((go_error + conn) \<times> nat) \<times> 'w rstate) option" where
  "connect R T p st = connect_loop R T p 1 st"

definition probe_request :: "string \<Rightarrow> Request" where
  "probe_request cmd = \<lparr>rq_Command = cmd, rq_Stdin = None, rq_Timeout = 30 * Second, rq_MaxOutput = 4096, rq_Patterns = []\<rparr>"

definition needsSudoPassword :: "('k, 'w) transport \<Rightarrow> conn \<Rightarrow> 'k Plan \<Rightarrow> 'w rstate \<Rightarrow> bool \<times> 'w rstate" where
  "needsSudoPassword T c p st =
     (if sudo_password p = '''' then (False, st)
      else if \<exists>a \<in> set (pl_Actions p). act_Sudo a then
        (let ((res, f), st') = do_exec T c (probe_request ''sudo -n true'') st in
         (f \<noteq> None \<or> rs_ExitCode res \<noteq> Some 0, st'))
      else (False, st))"

section \<open>Steps that drop the connection\<close>

definition bootIDCommand :: string where "bootIDCommand = ''cat /proc/sys/kernel/random/boot_id''"
definition reconnectDelay :: duration where "reconnectDelay = 5 * Second"

definition bootID :: "('k, 'w) transport \<Rightarrow> conn \<Rightarrow> 'w rstate \<Rightarrow> (Failure + string) \<times> 'w rstate" where
  "bootID T c st =
     (let ((res, f), st') = do_exec T c (probe_request bootIDCommand) st in
      case f of
        Some g \<Rightarrow> (Inl g, st')
      | None \<Rightarrow>
          (let i = trim_space (rs_Stdout res) in
           if rs_ExitCode res \<noteq> Some 0 \<or> i = ''''
           then (Inl (Fail CatCommandFailed (bootIDCommand @ '' failed: '' @ lastLine (rs_Stderr res))), st')
           else (Inr i, st')))"

definition wait_cancelled :: Failure where
  "wait_cancelled = Fail CatCancelled ''cancelled while waiting for the host to come back''"

definition fatal_reconnect :: "Category \<Rightarrow> bool" where
  "fatal_reconnect c \<longleftrightarrow> c \<in> {CatAuthFailed, CatHostKeyMismatch, CatHostKeyUnknown}"

text \<open>
  One iteration of the loop of \<open>waitForHost\<close>: either it returns (\<open>Inl\<close>), or it continues (\<open>Inr\<close>) with the
  last failure and whether the old boot was seen.
\<close>

definition wait_iter ::
  "('k, 'w) transport \<Rightarrow> 'k Plan \<Rightarrow> duration \<Rightarrow> string \<Rightarrow> int \<Rightarrow> Failure \<Rightarrow> bool \<Rightarrow> 'w rstate \<Rightarrow>
   ((Failure + conn) + (Failure \<times> bool)) \<times> 'w rstate" where
  "wait_iter T p timeout oldBoot deadline lst sawOldBoot st =
     (let (cancelled, st1) = sleep T reconnectDelay st in
      if cancelled then (Inl (Inl wait_cancelled), st1)
      else if now T st1 > deadline then
        (Inl (Inl (if sawOldBoot
                   then Fail CatCommandFailed (''host is reachable but was not rebooted within '' @ Duration_String timeout @
                          '' (boot ID unchanged)'')
                   else Fail CatConnectionTimeout (''host did not come back within '' @ Duration_String timeout @
                          '' (last: '' @ Reason lst @ '')''))), st1)
      else
        let (r, st2) = do_dial T p (Some deadline) st1 in
        (case r of
           Inl e \<Rightarrow>
             if ctx_err T st2 then (Inl (Inl wait_cancelled), st2)
             else if fatal_reconnect (Category (AsFailure e)) then (Inl (Inl (AsFailure e)), st2)
             else (Inr (AsFailure e, sawOldBoot), st2)
         | Inr c \<Rightarrow>
             if oldBoot = '''' then (Inl (Inr c), st2)
             else
               let (b, st3) = bootID T c st2 in
               (case b of
                  Inr i \<Rightarrow>
                    if i \<noteq> oldBoot then (Inl (Inr c), st3)
                    else (Inr (Fail CatConnectionTimeout ''host still runs the old boot (not rebooted yet)'', True),
                          do_close T c st3)
                | Inl f \<Rightarrow> (Inr (f, sawOldBoot), do_close T c st3))))"

partial_function (option) wait_loop ::
  "('k, 'w) transport \<Rightarrow> 'k Plan \<Rightarrow> duration \<Rightarrow> string \<Rightarrow> int \<Rightarrow> Failure \<Rightarrow> bool \<Rightarrow> 'w rstate \<Rightarrow>
   ((Failure + conn) \<times> 'w rstate) option" where
  "wait_loop T p timeout oldBoot deadline lst sawOldBoot st =
     (case wait_iter T p timeout oldBoot deadline lst sawOldBoot st of
        (Inl r, st') \<Rightarrow> Some (r, st')
      | (Inr (lst', saw'), st') \<Rightarrow> wait_loop T p timeout oldBoot deadline lst' saw' st')"

definition waitForHost ::
  "('k, 'w) transport \<Rightarrow> 'k Plan \<Rightarrow> duration \<Rightarrow> string \<Rightarrow> 'w rstate \<Rightarrow> ((Failure + conn) \<times> 'w rstate) option" where
  "waitForHost T p timeout oldBoot st =
     wait_loop T p timeout oldBoot (now T st + timeout) (Fail CatConnectionTimeout ''no connection attempt made'') False st"

text \<open>A connection that was lost after the command had started.\<close>

definition lost_connection :: "StepResult \<Rightarrow> Failure \<Rightarrow> bool" where
  "lost_connection sr f \<longleftrightarrow>
     sr_started sr \<and> (Category f = CatSessionFailed \<or> (Category f = CatCommandFailed \<and> sr_ExitCode sr = None))"

definition back_note :: "Action \<Rightarrow> duration \<Rightarrow> string" where
  "back_note a back =
     (if act_Reboot a then ''host rebooted (new boot ID) and was back after '' @ Duration_String (Duration_Round back Second)
      else ''connection closed as expected; host back after '' @ Duration_String (Duration_Round back Second))"

text \<open>The part of \<open>runDisconnecting\<close> after the step: closing and waiting for the host.\<close>

definition reconnect ::
  "'k Runner \<Rightarrow> ('k, 'w) transport \<Rightarrow> conn \<Rightarrow> 'k Plan \<Rightarrow> Action \<Rightarrow> string \<Rightarrow> StepResult \<Rightarrow> 'w rstate \<Rightarrow>
   ((StepResult \<times> Failure option \<times> conn option) \<times> 'w rstate) option" where
  "reconnect R T c p a oldBoot sr st =
     (let st1 = do_close T c st; start = now T st1 in
      case waitForHost T p (act_ReconnectTimeout a) oldBoot st1 of
        None \<Rightarrow> None
      | Some (Inl g, st2) \<Rightarrow> Some ((with_failure R g sr, Some g, None), st2)
      | Some (Inr nc, st2) \<Rightarrow> Some ((sr\<lparr>sr_Note := back_note a (now T st2 - start)\<rparr>, None, Some nc), st2))"

definition runDisconnecting ::
  "'k Runner \<Rightarrow> ('k, 'w) transport \<Rightarrow> conn \<Rightarrow> 'k Plan \<Rightarrow> Action \<Rightarrow> bool \<Rightarrow> 'w rstate \<Rightarrow>
   ((StepResult \<times> Failure option \<times> conn option) \<times> 'w rstate) option" where
  "runDisconnecting R T c p a sudoPW st =
     (let (b, st1) = (if act_Reboot a then bootID T c st else (Inr '''', st)) in
      case b of
        Inl f \<Rightarrow>
          (let f' = Fail (Category f) (''cannot read the boot ID before rebooting: '' @ Reason f) in
           Some (((step_result a StatusFailed)\<lparr>sr_Category := Some (Category f'),
                    sr_Reason := String (rn_redact R) (Reason f')\<rparr>, Some f', Some c), st1))
      | Inr oldBoot \<Rightarrow>
          (let st2 = do_keepalive c True st1;
               ((sr, f), st3) = runStep R T c p a sudoPW st2;
               st4 = do_keepalive c False st3
           in case f of
                Some g \<Rightarrow>
                  if \<not> lost_connection sr g then Some ((sr, Some g, Some c), st4)
                  else reconnect R T c p a oldBoot (with_success sr) st4
              | None \<Rightarrow>
                  if act_Reboot a then reconnect R T c p a oldBoot sr st4
                  else
                    let (alive, st5) = do_alive T c st4 in
                    if alive then Some ((sr, None, Some c), st5)
                    else reconnect R T c p a oldBoot sr st5))"

section \<open>A host\<close>

definition fire_and_forget_ok :: "StepResult \<Rightarrow> Failure \<Rightarrow> bool" where
  "fire_and_forget_ok sr f \<longleftrightarrow>
     sr_started sr \<and> Category f \<noteq> CatCancelled \<and> (Category f = CatSessionFailed \<or> sr_ExitCode sr = None)"

definition forget_note :: string where
  "forget_note = ''started; result not checked (fire and forget)''"

definition runForget ::
  "'k Runner \<Rightarrow> ('k, 'w) transport \<Rightarrow> conn \<Rightarrow> 'k Plan \<Rightarrow> Action \<Rightarrow> bool \<Rightarrow> 'w rstate \<Rightarrow>
   (StepResult \<times> Failure option) \<times> 'w rstate" where
  "runForget R T c p a sudoPW st =
     (let ((sr, f), st') = runStep R T c p a sudoPW st in
      case f of
        None \<Rightarrow> ((sr\<lparr>sr_Note := forget_note\<rparr>, None), st')
      | Some g \<Rightarrow>
          if fire_and_forget_ok sr g then (((with_success sr)\<lparr>sr_Note := forget_note\<rparr>, None), st')
          else ((sr, Some g), st'))"

text \<open>One step of \<open>runHost\<close>: the three cases of its switch.\<close>

definition run_action ::
  "'k Runner \<Rightarrow> ('k, 'w) transport \<Rightarrow> conn \<Rightarrow> 'k Plan \<Rightarrow> Action \<Rightarrow> bool \<Rightarrow> 'w rstate \<Rightarrow>
   ((StepResult \<times> Failure option \<times> conn option) \<times> 'w rstate) option" where
  "run_action R T c p a sudoPW st =
     (if act_Disconnect a then runDisconnecting R T c p a sudoPW st
      else if act_FireAndForget a then
        (let ((sr, f), st') = runForget R T c p a sudoPW st in Some ((sr, f, Some c), st'))
      else
        (let ((sr, f), st') = runStep R T c p a sudoPW st in Some ((sr, f, Some c), st')))"

text \<open>The closure \<open>fail\<close>: the first failure decides the host result.\<close>

definition fail_host :: "'k Runner \<Rightarrow> Failure \<Rightarrow> string \<Rightarrow> HostResult \<Rightarrow> HostResult" where
  "fail_host R f step h =
     (case hr_Category h of
        Some _ \<Rightarrow> h
      | None \<Rightarrow> h\<lparr>hr_Category := Some (Category f), hr_Reason := String (rn_redact R) (Reason f),
                 hr_FailedStep := step, hr_Status := failed_status f\<rparr>)"

definition stops_host :: "Action \<Rightarrow> conn option \<Rightarrow> Failure \<Rightarrow> bool" where
  "stops_host a client f \<longleftrightarrow>
     \<not> act_ContinueOnError a \<or> client = None \<or> Category f = CatCancelled \<or> Category f = CatSessionFailed"

definition add_step :: "StepResult \<Rightarrow> HostResult \<Rightarrow> HostResult" where
  "add_step sr h = h\<lparr>hr_Steps := hr_Steps h @ [sr]\<rparr>"

fun skip_steps :: "Action list \<Rightarrow> HostResult \<Rightarrow> HostResult" where
  "skip_steps [] h = h"
| "skip_steps (a # as) h = skip_steps as (add_step (step_result a StatusSkipped) h)"

fun run_actions ::
  "'k Runner \<Rightarrow> ('k, 'w) transport \<Rightarrow> 'k Plan \<Rightarrow> bool \<Rightarrow> Action list \<Rightarrow> conn \<Rightarrow> HostResult \<Rightarrow> 'w rstate \<Rightarrow>
   ((HostResult \<times> conn option) \<times> 'w rstate) option" where
  "run_actions R T p sudoPW [] client h st = Some ((h, Some client), st)"
| "run_actions R T p sudoPW (a # as) client h st =
     (case run_action R T client p a sudoPW st of
        None \<Rightarrow> None
      | Some ((sr, f, client'), st') \<Rightarrow>
          (let h' = add_step sr h in
           case f of
             None \<Rightarrow>
               (case client' of
                  None \<Rightarrow> None
                | Some c \<Rightarrow> run_actions R T p sudoPW as c h' st')
           | Some g \<Rightarrow>
               (let h'' = fail_host R g (act_Name a) h' in
                if stops_host a client' g then Some ((skip_steps as h'', client'), st')
                else
                  (case client' of
                     None \<Rightarrow> None
                   | Some c \<Rightarrow> run_actions R T p sudoPW as c h'' st'))))"

definition new_host :: "'k Plan \<Rightarrow> Status \<Rightarrow> string \<Rightarrow> HostResult" where
  "new_host p status reason =
     \<lparr>hr_Host = ep_Name (pl_Target p), hr_Address = Addr (pl_Target p), hr_Status = status, hr_FailedStep = '''',
      hr_Category = None, hr_Reason = reason, hr_ConnectAttempts = 0, hr_Duration = 0, hr_Steps = []\<rparr>"

definition notStarted :: "'k Plan \<Rightarrow> Status \<Rightarrow> string \<Rightarrow> HostResult" where
  "notStarted p status reason =
     (let h = new_host p status reason;
          h' = (if status = StatusCancelled then h\<lparr>hr_Category := Some CatCancelled\<rparr> else h)
      in skip_steps (pl_Actions p) h')"

definition close_client :: "('k, 'w) transport \<Rightarrow> conn option \<Rightarrow> 'w rstate \<Rightarrow> 'w rstate" where
  "close_client T client st = (case client of None \<Rightarrow> st | Some c \<Rightarrow> do_close T c st)"

definition runHost :: "'k Runner \<Rightarrow> ('k, 'w) transport \<Rightarrow> 'k Plan \<Rightarrow> 'w rstate \<Rightarrow> (HostResult \<times> 'w rstate) option" where
  "runHost R T p st =
     (let start = now T st; h = new_host p StatusSuccess '''' in
      case connect R T p st of
        None \<Rightarrow> None
      | Some ((Inl e, n), st1) \<Rightarrow>
          (let h' = skip_steps (pl_Actions p) (fail_host R (AsFailure e) '''' (h\<lparr>hr_ConnectAttempts := n\<rparr>))
           in Some (h'\<lparr>hr_Duration := now T st1 - start\<rparr>, st1))
      | Some ((Inr c, n), st1) \<Rightarrow>
          (let (sudoPW, st2) = needsSudoPassword T c p st1 in
           case run_actions R T p sudoPW (pl_Actions p) c (h\<lparr>hr_ConnectAttempts := n\<rparr>) st2 of
             None \<Rightarrow> None
           | Some ((h', client), st3) \<Rightarrow>
               (let st4 = close_client T client st3 in Some (h'\<lparr>hr_Duration := now T st4 - start\<rparr>, st4))))"

end
