(* ===== verification/Example_World.thy ===== *)
theory Example_World
  imports Host "HOL-Library.Code_Target_Nat"
begin

text \<open>
  A small concrete world for the witnesses: the world is a clock in nanoseconds, the host refuses
  connections for the first eight seconds, and its boot ID changes after twelve seconds. Commands end at
  once with status 0; the upload prints the name of a temporary file.
\<close>

definition example_session_of :: "Request \<Rightarrow> int \<Rightarrow> session" where
  "example_session_of req w =
     \<lparr>ss_open_race = Arrived, ss_open = Opened,
      ss_stdout = (if rq_Command req = bootIDCommand then (if w < 12 * Second then [''boot-a''] else [''boot-b''])
                   else if rq_Command req = UploadCommand then [''/tmp/x''] else []),
      ss_stderr = [], ss_wait_race = Arrived,
      ss_wait = (if rq_Command req = ''sudo -n true'' then WaitError (EExit 1) else WaitOK)\<rparr>"

definition example_world :: "(unit, int) transport" where
  "example_world =
     \<lparr>tp_dial = (\<lambda>p dl w. (if w < 8 * Second then Inl (EFailure (Fail CatConnectionRefused ''refused'')) else Inr 0, w + 1)),
      tp_session = (\<lambda>c req w. (example_session_of req w, w + 1)),
      tp_alive = (\<lambda>c w. (Reply, w)), tp_close = (\<lambda>c w. w + 1), tp_wait = (\<lambda>d w. (False, w + d)),
      tp_now = (\<lambda>w. w), tp_cancelled = (\<lambda>w. False), tp_rand = (\<lambda>n w. (0, w)),
      tp_rematch = (\<lambda>re s. True)\<rparr>"

definition example_options :: Options where
  "example_options = \<lparr>o_Concurrency = 2, o_ConnectTimeout = 10 * Second, o_HandshakeTimeout = 10 * Second,
     o_StepTimeout = 300 * Second, o_ConnectRetries = 2, o_RetryDelay = Second, o_MaxRetryDelay = 30 * Second,
     o_MaxOutput = 4096, o_KnownHosts = '''', o_AcceptNewHosts = False, o_Insecure = False, o_SkipCredentials = False,
     o_MaxFailures = 0, o_Progress = 0\<rparr>"

definition example_target :: Target where
  "example_target = \<lparr>ep_Name = ''web1'', ep_Address = ''10.0.0.1'', ep_Port = 22, ep_Username = ''admin'',
     ep_Credential = example_cred, tg_Group = ''web'', tg_Tags = [], tg_Variables = [], tg_Bastion = None\<rparr>"

text \<open>The reboot step built by \<^term>\<open>example_built\<close>, after a copy step run with sudo.\<close>

definition copy_step :: Step where
  "copy_step = example_step\<lparr>st_Name := ''conf'', st_Command := '''', st_Sudo := Some True, st_Sensitive := False,
     st_Reboot := False, st_Copy := Some \<lparr>copy_Src = ''a.conf'', copy_Dest = ''/etc/a.conf'', copy_Mode = ''0644'',
     copy_Template = False, copy_body = Some ''key = value''\<rparr>\<rparr>"

definition copy_action :: Action where
  "copy_action = projr (build example_job copy_step [] example_settings)"

definition example_plan :: "unit Plan" where
  "example_plan = \<lparr>pl_Target = example_target, pl_Actions = [copy_action, example_built],
     pl_auth = Some \<lparr>auth_Methods = [Password ''hunter2''], auth_SudoPassword = ''hunter2'', auth_Secrets = [''hunter2'']\<rparr>,
     pl_bastion = None\<rparr>"

definition example_runner :: "unit Runner" where
  "example_runner = \<lparr>rn_opts = example_options, rn_job = example_job, rn_Plans = [example_plan],
     rn_redact = Add \<lparr>rd_secrets = []\<rparr> [''hunter2'']\<rparr>"

definition at_time :: "int \<Rightarrow> int rstate" where
  "at_time t = \<lparr>rs_world = t, rs_trace = []\<rparr>"

lemma copy_built: "build example_job copy_step [] example_settings = Inr copy_action"
  by code_simp

lemmas example_defs = example_world_def example_session_of_def example_options_def example_plan_def
  example_runner_def at_time_def


text \<open>The operations on this world.\<close>

lemma example_sleep: "0 < d \<Longrightarrow> sleep example_world d st = (False, emit (EvSleep d) (rs_world st + d) st)"
  by (simp add: sleep_def example_world_def)

lemma example_dial:
  "do_dial example_world p dl st =
     (if rs_world st < 8 * Second
      then (Inl (EFailure (Fail CatConnectionRefused ''refused'')), emit (EvDial False) (rs_world st + 1) st)
      else (Inr 0, emit (EvDial True) (rs_world st + 1) st))"
  by (simp add: do_dial_def example_world_def Let_def is_ok_def)

lemma example_now [simp]: "now example_world st = rs_world st" "ctx_err example_world st = False"
  by (simp_all add: now_def ctx_err_def example_world_def)

lemma emit_world [simp]: "rs_world (emit e w st) = w"
  by (simp add: emit_def)

lemma short_output:
  "length (concat xs) \<le> n \<Longrightarrow> Buffer_String (writes xs (NewBuffer n pats)) = concat xs"
  using holds_text_String [OF writes_hold(2) [OF holds_text_new]] by (simp add: writes_def retained_def)

lemma example_exec:
  assumes "rq_Command req \<noteq> ''sudo -n true''"
    and "out = concat (ss_stdout (example_session_of req (rs_world st)))" and "length out \<le> rq_MaxOutput req"
  shows "\<exists>res. do_exec example_world c req st = ((res, None), emit (EvExec c req res None) (rs_world st + 1) st) \<and>
           rs_Stdout res = trim_right (CHR 0x0A) out \<and> rs_Stderr res = '''' \<and> rs_ExitCode res = Some 0 \<and> rs_Started res"
  using assms short_output [of "ss_stdout (example_session_of req (rs_world st))" "rq_MaxOutput req" "rq_Patterns req"]
    short_output [of "[]" "rq_MaxOutput req" "rq_Patterns req"]
  by (simp add: do_exec_def example_world_def Exec_def race_failure_def example_session_of_def Let_def exec_result_def
      trim_right_def)

lemma trim_examples:
  "trim_right (CHR 0x0A) ''boot-a'' = ''boot-a''" "trim_right (CHR 0x0A) ''boot-b'' = ''boot-b''"
  "trim_space ''boot-a'' = ''boot-a''" "trim_space ''boot-b'' = ''boot-b''"
  by code_simp+

lemma example_bootID:
  "fst (bootID example_world c st) = Inr (if rs_world st < 12 * Second then ''boot-a'' else ''boot-b'')"
  "rs_world (snd (bootID example_world c st)) = rs_world st + 1"
proof -
  let ?out = "if rs_world st < 12 * Second then ''boot-a'' else ''boot-b''"
  have "?out = concat (ss_stdout (example_session_of (probe_request bootIDCommand) (rs_world st)))"
    by (simp add: example_session_of_def probe_request_def)
  moreover have "rq_Command (probe_request bootIDCommand) \<noteq> ''sudo -n true''" "length ?out \<le> rq_MaxOutput (probe_request bootIDCommand)"
    by (simp_all add: probe_request_def bootIDCommand_def)
  ultimately obtain res where "do_exec example_world c (probe_request bootIDCommand) st =
      ((res, None), emit (EvExec c (probe_request bootIDCommand) res None) (rs_world st + 1) st)"
    and "rs_Stdout res = trim_right (CHR 0x0A) ?out" and "rs_ExitCode res = Some 0"
    using example_exec [of "probe_request bootIDCommand" ?out st c] by blast
  moreover have "trim_right (CHR 0x0A) ?out = ?out" "trim_space ?out = ?out"
    by (simp_all add: trim_examples)
  ultimately show "fst (bootID example_world c st) = Inr (if rs_world st < 12 * Second then ''boot-a'' else ''boot-b'')"
    and "rs_world (snd (bootID example_world c st)) = rs_world st + 1"
    by (simp_all add: bootID_def Let_def trim_examples)
qed

end
