(* ===== verification/Host_Props.thy ===== *)
theory Host_Props
  imports Example_World
begin

text \<open>
  Properties of running one host: the requests an attempt sends, the retry policy of a step, the
  bounds on connection attempts, the statuses of a host and its steps, termination, and what a report
  can show of a secret.
\<close>

section \<open>Attempts\<close>

text \<open>The requests of one attempt: the command alone, or an upload that may be followed by it.\<close>

definition attempt_shape :: "'k Runner \<Rightarrow> 'k Plan \<Rightarrow> Action \<Rightarrow> bool \<Rightarrow> Request list \<Rightarrow> bool" where
  "attempt_shape R p a pw reqs \<longleftrightarrow>
     (case act_Content a of
        None \<Rightarrow> reqs = [run_request R p a pw '''']
      | Some content \<Rightarrow>
          reqs = [upload_request a content] \<or>
          (\<exists>tmp. tmp \<noteq> '''' \<and> reqs = [upload_request a content, run_request R p a pw tmp]))"

lemma attempt_run_events:
  assumes "attempt_run R T c p a pw tmp st = ((res, f), st')"
  shows "extends st st' \<and> exec_requests (new_events st st') = [run_request R p a pw tmp] \<and>
         list_all local_event (new_events st st')"
proof -
  obtain res0 f0 st0 where e: "do_exec T c (run_request R p a pw tmp) st = ((res0, f0), st0)"
    by (metis prod.collapse)
  then have "st' = st0"
    using assms by (auto simp: attempt_run_def split: option.splits)
  then show ?thesis
    using do_exec_events [OF e] by simp
qed

lemma attempt_events:
  assumes "attempt R T c p a pw st = ((res, f), st')"
  shows "extends st st' \<and> attempt_shape R p a pw (exec_requests (new_events st st')) \<and> list_all local_event (new_events st st')"
proof (cases "act_Content a")
  case None
  then show ?thesis
    using assms attempt_run_events [of R T c p a pw "''''" st res f st']
    by (simp add: attempt_def attempt_shape_def)
next
  case (Some content)
  obtain res0 f0 st0 where e: "do_exec T c (upload_request a content) st = ((res0, f0), st0)"
    by (metis prod.collapse)
  note ev = do_exec_events [OF e]
  show ?thesis
  proof (cases "f0 = None \<and> rs_ExitCode res0 = Some 0 \<and> rs_Stdout res0 \<noteq> ''''")
    case True
    then have r: "attempt_run R T c p a pw (rs_Stdout res0) st0 = ((res, f), st')"
      using assms Some e by (simp add: attempt_def)
    then show ?thesis
      using attempt_run_events [OF r] ev new_events_trans [of st st0 st'] True Some
      by (auto simp: attempt_shape_def intro: extends_trans)
  next
    case False
    then have "st' = st0"
      using assms Some e by (auto simp: attempt_def split: option.splits if_splits)
    then show ?thesis
      using ev Some by (simp add: attempt_shape_def)
  qed
qed

text \<open>
  The sudo password goes only to sudo: in every attempt, each request's standard input is either
  the content of the upload (sent to the upload command, as the login user) or, for a sudo step on a
  host whose sudo asks for a password, the password line sent to \<open>sudo -S\<close>; otherwise it is empty.
\<close>

theorem attempt_stdin:
  assumes "attempt R T c p a pw st = ((res, f), st')"
    and "req \<in> set (exec_requests (new_events st st'))" and "rq_Stdin req = Some x"
  shows "(rq_Command req = UploadCommand \<and> act_Content a = Some x) \<or>
         (act_Sudo a \<and> pw \<and> x = sudo_password p @ [newline] \<and> (\<exists>tmp. rq_Command req = Remote a tmp True))"
proof -
  have "(\<exists>content. act_Content a = Some content \<and> req = upload_request a content) \<or>
        (\<exists>tmp. req = run_request R p a pw tmp)"
    using attempt_events [OF assms(1)] assms(2) by (auto simp: attempt_shape_def split: option.splits)
  then show ?thesis
    using assms(3) by (auto simp: upload_request_def run_request_def Let_def split: if_splits)
qed

theorem attempt_stdin_witness:
  "(rq_Command (upload_request copy_action ''key = value'') = UploadCommand \<and> act_Content copy_action = Some ''key = value'')
   \<or> (act_Sudo copy_action \<and> True \<and> ''key = value'' = sudo_password example_plan @ [newline] \<and>
      (\<exists>tmp. rq_Command (upload_request copy_action ''key = value'') = Remote copy_action tmp True))"
proof -
  let ?r = "attempt example_runner example_world 0 example_plan copy_action True (at_time 0)"
  have r: "?r = ((fst (fst ?r), snd (fst ?r)), snd ?r)"
    by simp
  have "upload_request copy_action ''key = value'' \<in> set (exec_requests (new_events (at_time 0) (snd ?r)))"
    by code_simp
  from attempt_stdin [OF r this, of "''key = value''"] show ?thesis
    by (simp add: upload_request_def)
qed

section \<open>The retry loop\<close>

text \<open>Requests that run the step's own command, not an upload or a boot ID query.\<close>

definition command_runs :: "Request list \<Rightarrow> nat" where
  "command_runs reqs = length (filter (\<lambda>r. rq_Command r \<noteq> UploadCommand \<and> rq_Command r \<noteq> bootIDCommand) reqs)"

lemma command_runs_simps [simp]:
  "command_runs [] = 0"
  "command_runs (r # reqs) =
     (if rq_Command r \<noteq> UploadCommand \<and> rq_Command r \<noteq> bootIDCommand then 1 else 0) + command_runs reqs"
  "command_runs (reqs @ reqs') = command_runs reqs + command_runs reqs'"
  by (simp_all add: command_runs_def)

lemma attempt_shape_runs: "attempt_shape R p a pw reqs \<Longrightarrow> command_runs reqs \<le> 1"
  by (auto simp: attempt_shape_def upload_request_def split: option.splits)

lemma sleep_cond_events:
  "(if b then sleep T d st else (False, st)) = (c, st') \<Longrightarrow>
   extends st st' \<and> exec_requests (new_events st st') = [] \<and> list_all local_event (new_events st st')"
  using sleep_events [of T d st c st'] by (auto split: if_splits)

text \<open>How one iteration of the loop can go: cancelled while waiting, repeated, or final.\<close>

lemma step_loop_cases [consumes 1, case_names cancelled again final]:
  assumes "step_loop R T c p a pw (Suc n) i sr f st = ((sr', f'), st')"
  obtains (cancelled) "sr' = sr" "f' = f" "extends st st'" "exec_requests (new_events st st') = []"
      "list_all local_event (new_events st st')" "0 < i"
  | (again) res f1 st1 st2 where "extends st st1" "exec_requests (new_events st st1) = []" "list_all local_event (new_events st st1)"
      "attempt R T c p a pw st1 = ((res, f1), st2)" "outcome_failure f1"
      "step_loop R T c p a pw n (Suc i) (record_attempt R a i res sr) f1 st2 = ((sr', f'), st')"
  | (final) res st1 where "extends st st1" "exec_requests (new_events st st1) = []" "list_all local_event (new_events st st1)"
      "attempt R T c p a pw st1 = ((res, f'), st')" "\<not> outcome_failure f'" "sr' = record_attempt R a i res sr"
proof -
  obtain b st1 where s: "(if 0 < i then sleep T (act_RetryDelay a) st else (False, st)) = (b, st1)"
    by (metis prod.collapse)
  note s1 = sleep_cond_events [OF s]
  obtain res f1 st2 where a: "attempt R T c p a pw st1 = ((res, f1), st2)"
    by (metis prod.collapse)
  have eq: "(if b then ((sr, f), st1)
             else if outcome_failure f1 then step_loop R T c p a pw n (i + 1) (record_attempt R a i res sr) f1 st2
             else ((record_attempt R a i res sr, f1), st2)) = ((sr', f'), st')"
    using assms by (simp only: step_loop.simps s a Let_def prod.case)
  show thesis
  proof (cases b)
    case True
    then show thesis
      using eq s s1 cancelled by (cases "0 < i") auto
  next
    case b: False
    show thesis
    proof (cases "outcome_failure f1")
      case True
      then show thesis
        using eq b s1 a by (intro again [of st1 res f1 st2]) simp_all
    next
      case False
      then show thesis
        using eq b s1 a by (intro final [of st1 res]) simp_all
    qed
  qed
qed

declare step_loop.simps(2) [simp del]

lemma quiet_then_attempt:
  assumes "extends st st1" "exec_requests (new_events st st1) = []" "list_all local_event (new_events st st1)"
    and "attempt R T c p a pw st1 = ((res, f), st2)"
  shows "extends st st2 \<and> attempt_shape R p a pw (exec_requests (new_events st st2)) \<and> list_all local_event (new_events st st2)"
  using attempt_events [OF assms(4)] assms(1-3) new_events_trans [of st st1 st2]
  by (auto intro: extends_trans)

lemma step_loop_events:
  assumes "step_loop R T c p a pw n i sr f st = ((sr', f'), st')"
  shows "extends st st' \<and> command_runs (exec_requests (new_events st st')) \<le> n \<and> list_all local_event (new_events st st')"
  using assms
proof (induction n arbitrary: i sr f st)
  case 0
  then show ?case by simp
next
  case (Suc n)
  from Suc.prems show ?case
  proof (cases rule: step_loop_cases)
    case (again res f1 st1 st2)
    note at = quiet_then_attempt [OF again(1-4)]
    from Suc.IH [OF again(6)] at attempt_shape_runs [of R p a pw "exec_requests (new_events st st2)"]
      new_events_trans [of st st2 st']
    show ?thesis
      by (auto intro: extends_trans)
  next
    case (final res st1)
    note at = quiet_then_attempt [OF final(1-4)]
    with attempt_shape_runs [of R p a pw "exec_requests (new_events st st')"] show ?thesis
      by auto
  qed auto
qed

lemma runStep_events:
  assumes "runStep R T c p a pw st = ((sr, f), st')"
  shows "extends st st' \<and> command_runs (exec_requests (new_events st st')) \<le> nat (act_Retries a + 1) \<and>
         list_all local_event (new_events st st')"
proof -
  obtain sr0 f0 st0 where
    l: "step_loop R T c p a pw (nat (act_Retries a + 1)) 0 (step_result a StatusSuccess) None st = ((sr0, f0), st0)"
    by (metis prod.collapse)
  then have "st' = st0"
    using assms by (simp add: runStep_def Let_def)
  then show ?thesis
    using step_loop_events [OF l] by simp
qed

lemma step_loop_result:
  assumes "step_loop R T c p a pw n i sr f st = ((sr', f'), st')"
  shows "sr_Name sr' = sr_Name sr \<and> sr_Kind sr' = sr_Kind sr \<and> sr_Command sr' = sr_Command sr \<and>
         sr_Reason sr' = sr_Reason sr \<and> sr_Note sr' = sr_Note sr \<and> sr_Status sr' = sr_Status sr \<and>
         sr_Category sr' = sr_Category sr \<and> (sr_Attempts sr \<le> i \<longrightarrow> sr_Attempts sr' \<le> i + n)"
  using assms
proof (induction n arbitrary: i sr f st)
  case (Suc n)
  from Suc.prems show ?case
  proof (cases rule: step_loop_cases)
    case (again res f1 st1 st2)
    from Suc.IH [OF again(6)] show ?thesis
      by (simp add: record_attempt_def)
  qed (simp_all add: record_attempt_def)
qed simp

text \<open>
  The failure a step ends with is the failure of its last attempt. A step that failed was tried as
  often as allowed, or was cancelled between attempts, or failed in a way that is never retried.
\<close>

lemma runStep_result:
  assumes "runStep R T c p a pw st = ((sr, f), st')"
  shows "sr_Name sr = act_Name a \<and> sr_Kind sr = act_Kind a \<and> sr_Command sr = act_Display a \<and>
         sr_Attempts sr \<le> nat (act_Retries a + 1) \<and>
         sr_Status sr = (case f of None \<Rightarrow> StatusSuccess | Some g \<Rightarrow> failed_status g)"
proof -
  obtain sr0 f0 st0 where
    l: "step_loop R T c p a pw (nat (act_Retries a + 1)) 0 (step_result a StatusSuccess) None st = ((sr0, f0), st0)"
    by (metis prod.collapse)
  show ?thesis
    using assms l step_loop_result [OF l]
    by (auto simp: runStep_def Let_def step_result_def with_failure_def split: option.splits)
qed

lemma step_loop_stops:
  assumes "attempt R T c p a pw st = ((res, f), st')" and "\<not> outcome_failure f"
  shows "step_loop R T c p a pw (Suc n) 0 sr f0 st = ((record_attempt R a 0 res sr, f), st')"
  using assms by (simp add: step_loop.simps)

text \<open>
  Only outcomes are retried: when the first attempt of a step succeeds, or fails because the session
  broke, was cancelled or could not be classified, the step ends with that result after one attempt,
  whatever number of retries it allows.
\<close>

theorem runStep_no_retry:
  assumes "attempt R T c p a pw st = ((res, f), st')" and "\<not> outcome_failure f" and "0 \<le> act_Retries a"
  shows "snd (fst (runStep R T c p a pw st)) = f \<and> sr_Attempts (fst (fst (runStep R T c p a pw st))) = 1 \<and>
         snd (runStep R T c p a pw st) = st'"
proof -
  have n: "nat (act_Retries a + 1) = Suc (nat (act_Retries a))"
    using assms(3) by simp
  show ?thesis
    using step_loop_stops [OF assms(1,2)]
    by (auto simp: runStep_def Let_def n record_attempt_def step_result_def with_failure_def
        split: option.splits)
qed


theorem runStep_no_retry_witness:
  "sr_Attempts (fst (fst (runStep example_runner example_world 0 example_plan (copy_action\<lparr>act_Retries := 3\<rparr>) True (at_time 0)))) = 1"
proof -
  let ?a = "copy_action\<lparr>act_Retries := 3\<rparr>"
  let ?r = "attempt example_runner example_world 0 example_plan ?a True (at_time 0)"
  have r: "?r = ((fst (fst ?r), snd (fst ?r)), snd ?r)"
    by simp
  have "\<not> outcome_failure (snd (fst ?r))"
    by code_simp
  from runStep_no_retry [OF r this] show ?thesis
    by simp
qed

end
