(* ===== verification/Connect_Props.thy ===== *)
theory Connect_Props
  imports Host_Props
begin

text \<open>
  Properties of reaching a host: the delay between connection attempts, the bound on their number, and
  the wait for a host that a step disconnected, including that the wait ends and that a reboot is only
  reported once a new boot ID was read.
\<close>

section \<open>The delay between attempts\<close>

lemma shl64_id:
  assumes "0 \<le> b * 2 ^ n" and "b * 2 ^ n < 2 ^ 63"
  shows "shl64 b n = b * 2 ^ n"
  using assms by (simp add: shl64_def signed_take_bit_int_eq_self)

lemma backoff_base_nonneg: "0 \<le> m \<Longrightarrow> 0 \<le> backoff_base base m n \<and> backoff_base base m n \<le> m"
  by (simp add: backoff_base_def Let_def)

lemma backoff_base_exact:
  assumes "0 < base" and "base * 2 ^ (n - 1) < 2 ^ 63"
  shows "backoff_base base m n = min (base * 2 ^ (n - 1)) m"
proof -
  have pos: "0 < base * 2 ^ (n - 1)"
    using assms(1) by simp
  then have "shl64 base (n - 1) = base * 2 ^ (n - 1)"
    using assms(2) by (intro shl64_id) simp_all
  then show ?thesis
    using pos by (simp add: backoff_base_def Let_def min_def)
qed

lemma backoff_bounds:
  assumes "backoff rnd base m n w = Some (d, w')" and "0 \<le> backoff_base base m n"
  shows "backoff_base base m n div 2 \<le> d \<and> d \<le> backoff_base base m n"
proof -
  define h where "h = half_trunc (backoff_base base m n)"
  have h: "h = backoff_base base m n div 2" "0 \<le> h"
    using assms(2) by (simp_all add: h_def half_trunc_def)
  obtain r where d: "d = h + r mod (h + 1)"
    using assms(1) h(2) by (auto simp: backoff_def Let_def h_def [symmetric] split: prod.splits)
  have "0 \<le> r mod (h + 1)" "r mod (h + 1) < h + 1"
    using h(2) pos_mod_sign [of "h + 1" r] pos_mod_bound [of "h + 1" r] by linarith+
  then show ?thesis
    using d h by linarith
qed

text \<open>
  The delay before connection attempt \<open>n + 1\<close> is exponential with jitter: while the doubling does
  not overflow 64 bits it lies between half of \<open>b\<close> and \<open>b\<close>, where \<open>b\<close> is the base delay times
  \<open>2 ^ (n - 1)\<close> capped by the maximum. It never exceeds the maximum, also when the doubling overflows.
\<close>

theorem backoff_delay:
  assumes "backoff rnd base m n w = Some (d, w')" and "0 \<le> m"
  shows "0 \<le> d \<and> d \<le> m \<and>
         (0 < base \<and> base * 2 ^ (n - 1) < 2 ^ 63 \<longrightarrow>
            min (base * 2 ^ (n - 1)) m div 2 \<le> d \<and> d \<le> min (base * 2 ^ (n - 1)) m)"
proof -
  note b = backoff_base_nonneg [OF assms(2), of base n]
  with backoff_bounds [OF assms(1)] have d: "backoff_base base m n div 2 \<le> d" "d \<le> backoff_base base m n"
    by simp_all
  moreover have "0 \<le> backoff_base base m n div 2"
    using b by simp
  ultimately have "0 \<le> d" "d \<le> m"
    using b by linarith+
  then show ?thesis
    using d backoff_base_exact [of base n m] by auto
qed

theorem backoff_delay_witness:
  "backoff (\<lambda>k w. (7, w)) 1000 4000 5 (0::nat) = Some (2007, 0) \<and> (0::int) \<le> 2007 \<and> (2007::int) \<le> 4000 \<and>
   min (1000 * 2 ^ (5 - 1)) 4000 div 2 \<le> (2007::int)"
proof -
  have b: "backoff (\<lambda>k w. (7, w)) 1000 4000 5 (0::nat) = Some (2007, 0)"
    by (simp add: backoff_def backoff_base_def half_trunc_def shl64_def Let_def signed_take_bit_int_eq_self)
  show ?thesis
    using backoff_delay [OF b] b by simp
qed

section \<open>Connecting with retries\<close>

lemma world_events [simp]:
  "new_events st (st1\<lparr>rs_world := w\<rparr>) = new_events st st1"
  "new_events (st1\<lparr>rs_world := w\<rparr>) st = new_events st1 st"
  "extends st (st1\<lparr>rs_world := w\<rparr>) = extends st st1"
  "extends (st1\<lparr>rs_world := w\<rparr>) st = extends st1 st"
  by (simp_all add: new_events_def extends_def)

text \<open>An operation that only waits and dials: how often it dialled and how many connections it leaves open.\<close>

definition dialled :: "nat \<Rightarrow> int \<Rightarrow> 'w rstate \<Rightarrow> 'w rstate \<Rightarrow> bool" where
  "dialled n k st st' \<longleftrightarrow>
     extends st st' \<and> exec_requests (new_events st st') = [] \<and> dials (new_events st st') = n \<and>
     open_conns (new_events st st') = k"

lemma dialled_trans:
  assumes "dialled m k st st1" and "dialled n l st1 st2"
  shows "dialled (m + n) (k + l) st st2"
proof -
  have "new_events st st2 = new_events st st1 @ new_events st1 st2" "extends st st2"
    using assms new_events_trans [of st st1 st2] extends_trans [of st st1 st2] by (simp_all add: dialled_def)
  then show ?thesis
    using assms by (simp add: dialled_def)
qed

lemma dialled_dial: "do_dial T p dl st = (r, st') \<Longrightarrow> dialled 1 (if is_ok r then 1 else 0) st st'"
  using do_dial_events [of T p dl st r st'] by (simp add: dialled_def)

lemma dialled_sleep: "sleep T d st = (b, st') \<Longrightarrow> dialled 0 0 st st'"
  using sleep_events [of T d st b st'] by (simp add: dialled_def)

lemma dialled_world [simp]:
  "dialled n k st (st1\<lparr>rs_world := w\<rparr>) = dialled n k st st1"
  "dialled n k (st1\<lparr>rs_world := w\<rparr>) st = dialled n k st1 st"
  by (simp_all add: dialled_def)

lemma connect_loop_cases [consumes 1, case_names connected gives_up cancelled again]:
  assumes "connect_loop R T p n st = Some ((r, m), st')"
  obtains (connected) c where "r = Inr c" "m = n" "dialled 1 1 st st'"
  | (gives_up) e where "r = Inl e" "m = n" "dialled 1 0 st st'"
      "\<not> Retryable (Category (AsFailure e)) \<or> int n > o_ConnectRetries (rn_opts R) \<or> ctx_err T st'"
  | (cancelled) "r = Inl (EFailure (Fail CatCancelled ''cancelled while waiting to reconnect''))" "m = n"
      "dialled 1 0 st st'" "int n \<le> o_ConnectRetries (rn_opts R)"
  | (again) st1 where "dialled 1 0 st st1" "int n \<le> o_ConnectRetries (rn_opts R)"
      "connect_loop R T p (n + 1) st1 = Some ((r, m), st')"
proof -
  obtain r1 st1 where d: "do_dial T p None st = (r1, st1)"
    by (metis prod.collapse)
  note d1 = dialled_dial [OF d]
  note eq = assms [unfolded connect_loop.simps [of R T p n st] d Let_def prod.case]
  show thesis
  proof (cases r1)
    case (Inr c)
    then show thesis
      using eq d1 by (intro connected) (auto simp: is_ok_def)
  next
    case (Inl e)
    show thesis
    proof (cases "\<not> Retryable (Category (AsFailure e)) \<or> int n > o_ConnectRetries (rn_opts R) \<or> ctx_err T st1")
      case True
      then show thesis
        using eq d1 Inl by (intro gives_up [of e]) (auto simp: is_ok_def)
    next
      case False
      then obtain d w where b:
          "backoff (tp_rand T) (o_RetryDelay (rn_opts R)) (o_MaxRetryDelay (rn_opts R)) n (rs_world st1) = Some (d, w)"
        using eq Inl by (auto split: option.splits)
      obtain cc st2 where s: "sleep T d (st1\<lparr>rs_world := w\<rparr>) = (cc, st2)"
        by (metis prod.collapse)
      have d2: "dialled 1 0 st st2"
        using dialled_trans [OF _ dialled_sleep [OF s], of 1 0 st] d1 Inl by (simp add: is_ok_def)
      show thesis
        using eq Inl False b s d2 by (cases cc) (auto intro: cancelled again)
    qed
  qed
qed

lemma connect_loop_bounds:
  assumes "connect_loop R T p n st = Some ((r, m), st')"
  shows "n \<le> m \<and> dialled (Suc m - n) (if is_ok r then 1 else 0) st st' \<and> int m \<le> max (int n) (o_ConnectRetries (rn_opts R) + 1) \<and>
         (\<forall>e. r = Inl e \<longrightarrow> \<not> Retryable (Category (AsFailure e)) \<or> int m > o_ConnectRetries (rn_opts R) \<or> ctx_err T st')"
  using assms
proof (induction "nat (o_ConnectRetries (rn_opts R) + 1 - int n)" arbitrary: n st rule: less_induct)
  case less
  from less.prems show ?case
  proof (cases rule: connect_loop_cases)
    case (again st1)
    have "nat (o_ConnectRetries (rn_opts R) + 1 - int (n + 1)) < nat (o_ConnectRetries (rn_opts R) + 1 - int n)"
      using again(2) by linarith
    note IH = less.hyps [OF this again(3)]
    then have "dialled (1 + (Suc m - (n + 1))) (0 + (if is_ok r then 1 else 0)) st st'"
      using dialled_trans [OF again(1)] by blast
    moreover have "1 + (Suc m - (n + 1)) = Suc m - n" "n \<le> m"
      using IH by linarith+
    moreover have "int m \<le> max (int n) (o_ConnectRetries (rn_opts R) + 1)"
      using IH again(2) by linarith
    ultimately show ?thesis
      using IH by simp
  qed (auto simp: is_ok_def)
qed

text \<open>
  Connecting is bounded: the number of attempts reported is the number of connections that were
  tried, it is at least one and at most one more than the configured retries, and no command is
  executed. When it ends in an error, that error was not worth retrying, or the retries were used up,
  or the run was cancelled.
\<close>

theorem connect_bounds:
  assumes "connect R T p st = Some ((r, m), st')"
  shows "dials (new_events st st') = m \<and> exec_requests (new_events st st') = [] \<and>
         1 \<le> m \<and> int m \<le> max 1 (o_ConnectRetries (rn_opts R) + 1) \<and>
         (\<forall>e. r = Inl e \<longrightarrow> \<not> Retryable (Category (AsFailure e)) \<or> int m > o_ConnectRetries (rn_opts R) \<or> ctx_err T st')"
  using connect_loop_bounds [OF assms [unfolded connect_def]] by (simp add: dialled_def)

lemma example_connect:
  "connect example_runner example_world example_plan (at_time 0) =
     Some ((Inl (EFailure (Fail CatConnectionRefused ''refused'')), 3), \<lparr>rs_world = 1500000003,
       rs_trace = [EvDial False, EvSleep 500000000, EvDial False, EvSleep 1000000000, EvDial False]\<rparr>)"
  by code_simp

theorem connect_bounds_witness:
  "(3::int) \<le> max 1 (o_ConnectRetries (rn_opts example_runner) + 1)"
  using connect_bounds [OF example_connect] by simp

lemma connect_loop_returns:
  assumes "-1 \<le> o_MaxRetryDelay (rn_opts R)"
  shows "\<exists>x. connect_loop R T p n st = Some x"
proof (induction "nat (o_ConnectRetries (rn_opts R) + 1 - int n)" arbitrary: n st rule: less_induct)
  case less
  have b: "\<exists>d w'. backoff (tp_rand T) (o_RetryDelay (rn_opts R)) (o_MaxRetryDelay (rn_opts R)) n w = Some (d, w')" for w
    using assms by (auto simp: backoff_def backoff_base_def half_trunc_def Let_def split_beta)
  have step: "\<exists>x. connect_loop R T p (n + 1) st1 = Some x" if "\<not> int n > o_ConnectRetries (rn_opts R)" for st1
    using that by (intro less.hyps) linarith
  obtain r1 st1 where d: "do_dial T p None st = (r1, st1)"
    by (metis prod.collapse)
  obtain d w where b1: "backoff (tp_rand T) (o_RetryDelay (rn_opts R)) (o_MaxRetryDelay (rn_opts R)) n (rs_world st1) = Some (d, w)"
    using b by blast
  obtain cc st2 where s: "sleep T d (st1\<lparr>rs_world := w\<rparr>) = (cc, st2)"
    by (metis prod.collapse)
  show ?case
    unfolding connect_loop.simps [of R T p n st] d Let_def prod.case
    using step by (cases r1) (simp_all add: b1 s)
qed


text \<open>
  Connecting always returns: with a maximal delay that is not below -1 nanosecond (\<open>rand.N\<close> panics
  on the argument a smaller one gives), the retry loop ends with a connection or an error, whatever the
  network does.
\<close>

theorem connect_returns:
  assumes "-1 \<le> o_MaxRetryDelay (rn_opts R)"
  shows "\<exists>r m st'. connect R T p st = Some ((r, m), st')"
  using connect_loop_returns [OF assms, of T p 1 st] by (auto simp: connect_def)

theorem connect_returns_witness:
  "\<exists>r m st'. connect example_runner example_world example_plan (at_time 0) = Some ((r, m), st')"
  by (rule connect_returns) (simp add: example_runner_def example_options_def Second_def)

section \<open>Waiting for a host to come back\<close>

text \<open>
  What the wait relies on of the clock: a completed sleep takes at least its duration, and no
  operation turns the clock back.
\<close>

definition clock_runs :: "('k, 'w) transport \<Rightarrow> bool" where
  "clock_runs T \<longleftrightarrow>
     (\<forall>d w. 0 < d \<longrightarrow> \<not> fst (tp_wait T d w) \<longrightarrow> tp_now T w + d \<le> tp_now T (snd (tp_wait T d w))) \<and>
     (\<forall>p dl w. tp_now T w \<le> tp_now T (snd (tp_dial T p dl w))) \<and>
     (\<forall>c req w. tp_now T w \<le> tp_now T (snd (tp_session T c req w))) \<and>
     (\<forall>c w. tp_now T w \<le> tp_now T (tp_close T c w))"

lemma clock_runs_sleep: "clock_runs T \<Longrightarrow> sleep T d st = (False, st') \<Longrightarrow> 0 < d \<Longrightarrow> now T st + d \<le> now T st'"
  by (force simp: clock_runs_def sleep_def now_def emit_def Let_def split_beta)

lemma clock_runs_dial: "clock_runs T \<Longrightarrow> do_dial T p dl st = (r, st') \<Longrightarrow> now T st \<le> now T st'"
  by (auto simp: clock_runs_def do_dial_def now_def emit_def Let_def split_beta)

lemma clock_runs_exec: "clock_runs T \<Longrightarrow> do_exec T c req st = (r, st') \<Longrightarrow> now T st \<le> now T st'"
  by (auto simp: clock_runs_def do_exec_def now_def emit_def Let_def split_beta)

lemma clock_runs_close: "clock_runs T \<Longrightarrow> now T st \<le> now T (do_close T c st)"
  by (auto simp: clock_runs_def do_close_def now_def emit_def)

lemma clock_runs_bootID: "clock_runs T \<Longrightarrow> bootID T c st = (r, st') \<Longrightarrow> now T st \<le> now T st'"
  using clock_runs_exec [of T c "probe_request bootIDCommand" st]
  by (auto simp: bootID_def Let_def split: prod.splits option.splits if_splits)

text \<open>An operation that only waits, dials and reads boot IDs.\<close>

definition probed :: "nat \<Rightarrow> int \<Rightarrow> 'w rstate \<Rightarrow> 'w rstate \<Rightarrow> bool" where
  "probed n k st st' \<longleftrightarrow>
     extends st st' \<and> set (exec_requests (new_events st st')) \<subseteq> {probe_request bootIDCommand} \<and>
     dials (new_events st st') = n \<and> open_conns (new_events st st') = k"

lemma probed_trans:
  assumes "probed m k st st1" and "probed n l st1 st2"
  shows "probed (m + n) (k + l) st st2"
proof -
  have "new_events st st2 = new_events st st1 @ new_events st1 st2" "extends st st2"
    using assms new_events_trans [of st st1 st2] extends_trans [of st st1 st2] by (simp_all add: probed_def)
  then show ?thesis
    using assms by (simp add: probed_def)
qed

lemma dialled_probed: "dialled n k st st' \<Longrightarrow> probed n k st st'"
  by (simp add: dialled_def probed_def)

lemma bootID_probed: "bootID T c st = (r, st') \<Longrightarrow> probed 0 0 st st'"
  using do_exec_events [of T c "probe_request bootIDCommand" st]
  by (auto simp: bootID_def probed_def Let_def split: prod.splits option.splits if_splits)

lemma close_probed: "probed 0 (-1) st (do_close T c st)"
  by (simp add: probed_def do_close_events)

text \<open>How one iteration can go.\<close>

lemma wait_iter_cases:
  obtains (cancelled) k st' where "wait_iter T p timeout oldBoot deadline lst saw st = (Inl (Inl wait_cancelled), st')"
      "probed k 0 st st'" "k \<le> 1" "0 < k \<Longrightarrow> clock_runs T \<Longrightarrow> now T st + reconnectDelay \<le> deadline"
  | (expired) f st' where "wait_iter T p timeout oldBoot deadline lst saw st = (Inl (Inl f), st')"
      "Category f \<in> {CatCommandFailed, CatConnectionTimeout}" "probed 0 0 st st'" "deadline < now T st'"
  | (fatal) f st' where "wait_iter T p timeout oldBoot deadline lst saw st = (Inl (Inl f), st')"
      "fatal_reconnect (Category f)" "probed 1 0 st st'" "clock_runs T \<Longrightarrow> now T st + reconnectDelay \<le> deadline"
  | (reached) c st' where "wait_iter T p timeout oldBoot deadline lst saw st = (Inl (Inr c), st')" "probed 1 1 st st'"
      "oldBoot \<noteq> '''' \<Longrightarrow> \<exists>i st2. bootID T c st2 = (Inr i, st') \<and> i \<noteq> oldBoot"
      "clock_runs T \<Longrightarrow> now T st + reconnectDelay \<le> deadline"
  | (again) lst' saw' st' where "wait_iter T p timeout oldBoot deadline lst saw st = (Inr (lst', saw'), st')"
      "probed 1 0 st st'" "clock_runs T \<Longrightarrow> now T st + reconnectDelay \<le> deadline"
      "clock_runs T \<Longrightarrow> now T st + reconnectDelay \<le> now T st'"
proof -
  have pos: "0 < reconnectDelay"
    by (simp add: reconnectDelay_def Second_def)
  obtain b st1 where s: "sleep T reconnectDelay st = (b, st1)"
    by (metis prod.collapse)
  have p1: "probed 0 0 st st1" and t1: "clock_runs T \<Longrightarrow> \<not> b \<Longrightarrow> now T st + reconnectDelay \<le> now T st1"
    using dialled_probed [OF dialled_sleep [OF s]] clock_runs_sleep [of T reconnectDelay st st1] s pos
    by simp_all
  obtain r st2 where d: "do_dial T p (Some deadline) st1 = (r, st2)"
    by (metis prod.collapse)
  have p2: "probed 1 (if is_ok r then 1 else 0) st st2"
    using probed_trans [OF p1 dialled_probed [OF dialled_dial [OF d]]] by simp
  note t2 = clock_runs_dial [OF _ d]
  note eq = wait_iter_def [of T p timeout oldBoot deadline lst saw st, unfolded s d Let_def prod.case]
  consider (b) "b" | (late) "\<not> b" "now T st1 > deadline" | (dial) "\<not> b" "now T st1 \<le> deadline"
    by fastforce
  then show thesis
  proof cases
    case b
    have "wait_iter T p timeout oldBoot deadline lst saw st = (Inl (Inl wait_cancelled), st1)"
      using b by (simp only: eq if_True)
    with p1 show thesis
      by (intro cancelled [of st1 0]) auto
  next
    case late
    then show thesis
      using eq p1 by (cases saw) (auto intro!: expired)
  next
    case dial
    note dl = order_trans [OF t1 dial(2)]
    show thesis
    proof (cases r)
      case (Inl e)
      then have p2: "probed 1 0 st st2"
        using p2 by (simp add: is_ok_def)
      consider (c) "ctx_err T st2" | (f) "\<not> ctx_err T st2" "fatal_reconnect (Category (AsFailure e))"
        | (a) "\<not> ctx_err T st2" "\<not> fatal_reconnect (Category (AsFailure e))"
        by fastforce
      then show thesis
      proof cases
        case c
        then show thesis
          using eq dial Inl p2 dl by (intro cancelled [of st2 1]) simp_all
      next
        case f
        then show thesis
          using eq dial Inl p2 dl by (intro fatal) simp_all
      next
        case a
        then show thesis
          using eq dial Inl p2 dl t1 t2 by (intro again) force+
      qed
    next
      case (Inr c)
      obtain bt st3 where bi: "bootID T c st2 = (bt, st3)"
        by (metis prod.collapse)
      have p3: "probed 1 1 st st2" "probed 1 1 st st3" "probed 1 0 st (do_close T c st3)"
        using p2 probed_trans [OF p2 bootID_probed [OF bi]] probed_trans [OF _ close_probed, of 1 1 st st3] Inr
        by (simp_all add: is_ok_def)
      have t4: "clock_runs T \<Longrightarrow> now T st + reconnectDelay \<le> now T (do_close T c st3)"
        using t1 dial(1) t2 clock_runs_bootID [OF _ bi] clock_runs_close [of T st3 c] by fastforce
      show thesis
        using eq dial Inr p3 dl t4 bi
        by (cases bt; cases "oldBoot = ''''"; cases "bt = Inr oldBoot")
          (auto intro: reached again simp del: One_nat_def)
    qed
  qed
qed



text \<open>Termination, with the number of connection attempts the deadline leaves room for.\<close>

lemma wait_loop_returns:
  assumes "clock_runs T"
  shows "\<exists>r st'. wait_loop T p timeout oldBoot deadline lst saw st = Some (r, st') \<and>
                 (\<exists>k. probed k (if is_ok r then 1 else 0) st st' \<and> int k * reconnectDelay \<le> max 0 (deadline - now T st))"
proof (induction "nat (deadline - now T st)" arbitrary: lst saw st rule: less_induct)
  case less
  show ?case
  proof (cases rule: wait_iter_cases [of T p timeout oldBoot deadline lst saw st])
    case (again lst' saw' st')
    have pos: "0 < reconnectDelay"
      by (simp add: reconnectDelay_def Second_def)
    note t = again(3,4) [OF assms]
    then have "nat (deadline - now T st') < nat (deadline - now T st)"
      using pos by linarith
    from less.hyps [OF this] obtain r st'' k where
      IH: "wait_loop T p timeout oldBoot deadline lst' saw' st' = Some (r, st'')" "probed k (if is_ok r then 1 else 0) st' st''"
        "int k * reconnectDelay \<le> max 0 (deadline - now T st')"
      by blast
    have "probed (1 + k) (if is_ok r then 1 else 0) st st''"
      using probed_trans [OF again(2) IH(2)] by simp
    moreover have "int (1 + k) * reconnectDelay \<le> max 0 (deadline - now T st)"
      using IH(3) t by (simp add: distrib_right)
    ultimately show ?thesis
      using IH(1) again(1) wait_loop.simps [of T p timeout oldBoot deadline lst saw st] by auto
  qed (use assms wait_loop.simps [of T p timeout oldBoot deadline lst saw st] in \<open>force simp: le_Suc_eq is_ok_def\<close>)+
qed

text \<open>
  Waiting for a host ends: as long as sleeping makes the clock advance and nothing turns it back,
  \<open>waitForHost\<close> returns, having run nothing on the host but the boot ID query, and having dialled at
  most once per five seconds of the reconnect timeout.
\<close>

theorem waitForHost_returns:
  assumes "clock_runs T" and "0 \<le> timeout"
  shows "\<exists>r st'. waitForHost T p timeout oldBoot st = Some (r, st') \<and>
           set (exec_requests (new_events st st')) \<subseteq> {probe_request bootIDCommand} \<and>
           int (dials (new_events st st')) * reconnectDelay \<le> timeout"
  using wait_loop_returns [OF assms(1), of p timeout oldBoot "now T st + timeout"] assms(2)
  by (fastforce simp: waitForHost_def probed_def)

theorem waitForHost_returns_witness:
  "\<exists>r st'. waitForHost example_world example_plan (60 * Second) ''boot-a'' (at_time 0) = Some (r, st') \<and>
     set (exec_requests (new_events (at_time 0) st')) \<subseteq> {probe_request bootIDCommand} \<and>
     int (dials (new_events (at_time 0) st')) * reconnectDelay \<le> 60 * Second"
  by (rule waitForHost_returns) (simp_all add: clock_runs_def example_world_def Second_def)

text \<open>What a wait that returned has found.\<close>

lemma wait_loop_result:
  assumes "wait_loop T p timeout oldBoot deadline lst saw st = Some (r, st')"
  shows "(\<exists>k. probed k (if is_ok r then 1 else 0) st st') \<and>
         (case r of
            Inr c \<Rightarrow> oldBoot \<noteq> '''' \<longrightarrow> (\<exists>i st2. bootID T c st2 = (Inr i, st') \<and> i \<noteq> oldBoot)
          | Inl f \<Rightarrow> f = wait_cancelled \<or> fatal_reconnect (Category f) \<or>
                     Category f \<in> {CatCommandFailed, CatConnectionTimeout} \<and> deadline < now T st')"
  using assms
proof (induction T p timeout oldBoot deadline lst saw st "(r, st')" rule: wait_loop.raw_induct [rotated, consumes 1])
  case (1 wl T p timeout oldBoot deadline lst saw st)
  show ?case
  proof (cases rule: wait_iter_cases [of T p timeout oldBoot deadline lst saw st])
    case (again lst' saw' st1)
    then have "wl T p timeout oldBoot deadline lst' saw' st1 = Some (r, st')"
      using 1(2) by simp
    from 1(1) [OF this] show ?thesis
      using probed_trans [OF again(2)] by (metis add_0)
  qed (use 1(2) in \<open>auto simp: is_ok_def\<close>)
qed

text \<open>
  C19: A reboot is only believed with proof: when the wait that follows a reboot step returns a
  connection, the last thing done was to read the boot ID over that connection, and it was a non-empty
  ID that differs from the one read before the reboot. A host that is still shutting down is never taken
  for one that is back.
\<close>

theorem waitForHost_new_boot:
  assumes "waitForHost T p timeout oldBoot st = Some (Inr c, st')" and "oldBoot \<noteq> ''''"
  shows "\<exists>st2 res. do_exec T c (probe_request bootIDCommand) st2 = ((res, None), st') \<and> rs_ExitCode res = Some 0 \<and>
           trim_space (rs_Stdout res) \<noteq> '''' \<and> trim_space (rs_Stdout res) \<noteq> oldBoot"
proof -
  obtain i st2 where b: "bootID T c st2 = (Inr i, st')" "i \<noteq> oldBoot"
    using wait_loop_result [OF assms(1) [unfolded waitForHost_def]] assms(2) by auto
  obtain res f st3 where e: "do_exec T c (probe_request bootIDCommand) st2 = ((res, f), st3)"
    by (metis prod.collapse)
  then show ?thesis
    using b by (auto simp: bootID_def Let_def split: option.splits if_splits)
qed

lemma example_wait:
  "\<exists>st'. waitForHost example_world example_plan (30 * Second) ''boot-a'' (at_time (8 * Second)) = Some (Inr 0, st')"
  by (subst waitForHost_def, subst wait_loop.simps)
    (simp add: wait_iter_def example_sleep example_dial reconnectDelay_def example_bootID(1)
      at_time_def Second_def Let_def split_beta)

theorem waitForHost_new_boot_witness:
  "\<exists>st2 st' res. do_exec example_world 0 (probe_request bootIDCommand) st2 = ((res, None), st') \<and>
     trim_space (rs_Stdout res) \<noteq> ''boot-a''"
proof -
  obtain st' where w: "waitForHost example_world example_plan (30 * Second) ''boot-a'' (at_time (8 * Second)) = Some (Inr 0, st')"
    using example_wait by blast
  show ?thesis
    using waitForHost_new_boot [OF w] by blast
qed

text \<open>
  When the wait gives up, the failure says why: the run was cancelled, or the host refused the
  login or presented a wrong or unknown host key (which is never retried), or the deadline has passed.
\<close>

theorem waitForHost_failure:
  assumes "waitForHost T p timeout oldBoot st = Some (Inl f, st')"
  shows "f = wait_cancelled \<or> fatal_reconnect (Category f) \<or>
         Category f \<in> {CatCommandFailed, CatConnectionTimeout} \<and> now T st + timeout < now T st'"
  using wait_loop_result [OF assms [unfolded waitForHost_def]] by simp


lemma example_wait_expires:
  "waitForHost example_world example_plan (3 * Second) ''boot-a'' (at_time 0) =
     Some (Inl (Fail CatConnectionTimeout ''host did not come back within 3s (last: no connection attempt made)''),
       \<lparr>rs_world = 5000000000, rs_trace = [EvSleep 5000000000]\<rparr>)"
proof -
  have "Duration_String 3000000000 = ''3s''"
    by code_simp
  then show ?thesis
    by (subst waitForHost_def, subst wait_loop.simps)
      (simp add: wait_iter_def example_sleep reconnectDelay_def at_time_def Second_def Let_def emit_def)
qed

theorem waitForHost_failure_witness:
  "now example_world (at_time 0) + 3 * Second < now example_world \<lparr>rs_world = 5000000000, rs_trace = [EvSleep 5000000000]\<rparr>"
  using waitForHost_failure [OF example_wait_expires] by (simp add: wait_cancelled_def fatal_reconnect_def)

end
