(* ===== verification/Host_Outcome.thy ===== *)
theory Host_Outcome
  imports Connect_Props
begin

text \<open>
  Properties of a whole host: that it is finished at all, how often a command can run, how the result of
  the host follows from the results of its steps, and what a result can show of a secret.
\<close>

section \<open>What a step can do to a host\<close>

text \<open>At most \<open>n\<close> runs of a step's own command, and \<open>k\<close> more open connections than before.\<close>

definition ran :: "nat \<Rightarrow> int \<Rightarrow> 'w rstate \<Rightarrow> 'w rstate \<Rightarrow> bool" where
  "ran n k st st' \<longleftrightarrow>
     extends st st' \<and> command_runs (exec_requests (new_events st st')) \<le> n \<and> open_conns (new_events st st') = k"

lemma ran_trans:
  assumes "ran m k st st1" and "ran n l st1 st2"
  shows "ran (m + n) (k + l) st st2"
proof -
  have "new_events st st2 = new_events st st1 @ new_events st1 st2" "extends st st2"
    using assms new_events_trans [of st st1 st2] extends_trans [of st st1 st2] by (simp_all add: ran_def)
  then show ?thesis
    using assms by (simp add: ran_def)
qed

lemma ran_trans0: "ran m k st st1 \<Longrightarrow> ran 0 l st1 st2 \<Longrightarrow> ran m (k + l) st st2"
  using ran_trans [of m k st st1 0 l st2] by simp

lemma ran_refl [simp]: "ran n 0 st st"
  by (simp add: ran_def)

lemma probed_ran:
  assumes "probed n k st st'"
  shows "ran 0 k st st'"
proof -
  have "set reqs \<subseteq> {probe_request bootIDCommand} \<Longrightarrow> command_runs reqs = 0" for reqs
    by (induction reqs) (auto simp: probe_request_def)
  then show ?thesis
    using assms by (simp add: probed_def ran_def)
qed

lemma ran_keepalive [simp]: "ran 0 0 st (do_keepalive c on st)"
  by (simp add: ran_def do_keepalive_events)

lemma ran_alive: "do_alive T c st = (b, st') \<Longrightarrow> ran 0 0 st st'"
  using do_alive_events [of T c st b st'] by (simp add: ran_def)

lemma runStep_ran: "runStep R T c p a pw st = ((sr, f), st') \<Longrightarrow> ran (nat (act_Retries a + 1)) 0 st st'"
  using runStep_events [of R T c p a pw st sr f st'] local_events [of "new_events st st'"] by (simp add: ran_def)

text \<open>A step result that says the same as the failure the step returned.\<close>

definition step_agrees :: "'k Runner \<Rightarrow> Action \<Rightarrow> Failure option \<Rightarrow> StepResult \<Rightarrow> bool" where
  "step_agrees R a f sr \<longleftrightarrow>
     sr_Name sr = act_Name a \<and> sr_Kind sr = act_Kind a \<and> sr_Command sr = act_Display a \<and>
     (case f of
        None \<Rightarrow> sr_Status sr = StatusSuccess \<and> sr_Category sr = None \<and> sr_Reason sr = ''''
      | Some g \<Rightarrow> sr_Status sr \<in> {StatusFailed, StatusCancelled} \<and> sr_Category sr = Some (Category g) \<and>
                  sr_Reason sr = String (rn_redact R) (Reason g))"

lemma runStep_agrees:
  assumes "runStep R T c p a pw st = ((sr, f), st')"
  shows "step_agrees R a f sr \<and> sr_Attempts sr \<le> nat (act_Retries a + 1)"
proof -
  obtain sr0 f0 st0 where
    l: "step_loop R T c p a pw (nat (act_Retries a + 1)) 0 (step_result a StatusSuccess) None st = ((sr0, f0), st0)"
    by (metis prod.collapse)
  show ?thesis
    using assms l step_loop_result [OF l]
    by (auto simp: runStep_def Let_def step_result_def with_failure_def step_agrees_def failed_status_def
        split: option.splits)
qed

lemma reconnect_result:
  assumes "reconnect R T c p a oldBoot sr st = Some ((sr', f, client), st')" and "step_agrees R a None sr"
  shows "step_agrees R a f sr' \<and> ran 0 (if client = None then -1 else 0) st st' \<and> (client = None \<longleftrightarrow> f \<noteq> None)"
proof -
  have c: "ran 0 (-1) st (do_close T c st)"
    using close_probed probed_ran by blast
  obtain r where w: "waitForHost T p (act_ReconnectTimeout a) oldBoot (do_close T c st) = Some (r, st')"
    and r: "case r of Inl g \<Rightarrow> sr' = with_failure R g sr \<and> f = Some g \<and> client = None
                    | Inr nc \<Rightarrow> sr' = sr\<lparr>sr_Note := back_note a (now T st' - now T (do_close T c st))\<rparr> \<and> f = None \<and> client = Some nc"
    using assms(1) by (auto simp: reconnect_def Let_def split: option.splits sum.splits)
  have "ran 0 (if is_ok r then 1 else 0) (do_close T c st) st'"
    using wait_loop_result [OF w [unfolded waitForHost_def]] probed_ran by blast
  then have "ran 0 (-1 + (if is_ok r then 1 else 0)) st st'"
    using ran_trans0 [OF c] by blast
  then have "ran 0 (if client = None then -1 else 0) st st'"
    using r by (auto simp: is_ok_def split: sum.splits)
  then show ?thesis
    using r assms(2) by (auto simp: step_agrees_def with_failure_def failed_status_def split: sum.splits)
qed

lemma with_success_agrees: "step_agrees R a f sr \<Longrightarrow> step_agrees R a None (with_success sr)"
  by (simp add: step_agrees_def with_success_def)


lemma runDisconnecting_cases:
  assumes "runDisconnecting R T c p a pw st = Some ((sr', f', client), st')"
  obtains (no_boot) g where "ran 0 0 st st'" "f' = Some g" "client = Some c" "act_Reboot a"
      "sr' = (step_result a StatusFailed)\<lparr>sr_Category := Some (Category g), sr_Reason := String (rn_redact R) (Reason g)\<rparr>"
  | (real_failure) st1 st2 g where "ran 0 0 st st1" "runStep R T c p a pw st1 = ((sr', Some g), st2)" "f' = Some g"
      "client = Some c" "ran 0 0 st2 st'" "\<not> lost_connection sr' g"
  | (survived) st1 st2 where "ran 0 0 st st1" "runStep R T c p a pw st1 = ((sr', None), st2)" "f' = None"
      "client = Some c" "ran 0 0 st2 st'" "\<not> act_Reboot a"
  | (reconnected) st1 sr f st2 st3 oldBoot where "ran 0 0 st st1" "runStep R T c p a pw st1 = ((sr, f), st2)" "ran 0 0 st2 st3"
      "(case f of None \<Rightarrow> True | Some g \<Rightarrow> lost_connection sr g)"
      "reconnect R T c p a oldBoot (case f of None \<Rightarrow> sr | Some g \<Rightarrow> with_success sr) st3 = Some ((sr', f', client), st')"
proof -
  obtain b st1 where b: "(if act_Reboot a then bootID T c st else (Inr '''', st)) = (b, st1)"
    by (metis prod.collapse)
  have r1: "ran 0 0 st st1"
    using b bootID_probed [of T c st b st1] probed_ran by (auto split: if_splits)
  obtain sr f st3 where s: "runStep R T c p a pw (do_keepalive c True st1) = ((sr, f), st3)"
    by (metis prod.collapse)
  obtain alive st5 where al: "do_alive T c (do_keepalive c False st3) = (alive, st5)"
    by (metis prod.collapse)
  have r2: "ran 0 0 st (do_keepalive c True st1)"
    using ran_trans0 [OF r1 ran_keepalive] by simp
  have r5: "ran 0 0 st3 st5"
    using ran_trans0 [OF ran_keepalive ran_alive [OF al]] by simp
  note eq = assms [unfolded runDisconnecting_def b Let_def prod.case]
  show thesis
  proof (cases b)
    case (Inl g0)
    then have "act_Reboot a"
      using b by (auto split: if_splits)
    then show thesis
      using eq Inl r1 by (intro no_boot) auto
  next
    case (Inr oldBoot)
    show thesis
    proof (cases f)
      case (Some g)
      show thesis
      proof (cases "lost_connection sr g")
        case True
        then show thesis
          using eq Inr s Some r2 by (intro reconnected [OF r2 s ran_keepalive]) auto
      next
        case False
        then show thesis
          using eq Inr s Some r2 by (intro real_failure [of "do_keepalive c True st1" g st3]) auto
      qed
    next
      case None
      consider (rb) "act_Reboot a" | (al) "\<not> act_Reboot a" "alive" | (dead) "\<not> act_Reboot a" "\<not> alive"
        by blast
      then show thesis
      proof cases
        case rb
        then show thesis
          using eq Inr s None by (intro reconnected [OF r2 s ran_keepalive]) auto
      next
        case al': al
        then show thesis
          using eq Inr s None al r2 r5 by (intro survived [OF r2, of st3]) auto
      next
        case dead
        then show thesis
          using eq Inr s None al by (intro reconnected [OF r2 s r5]) auto
      qed
    qed
  qed
qed

text \<open>What any step leaves behind, whatever its kind.\<close>

lemma run_action_result:
  assumes "run_action R T c p a pw st = Some ((sr, f, client), st')"
  shows "step_agrees R a f sr \<and> ran (nat (act_Retries a + 1)) (if client = None then -1 else 0) st st' \<and>
         (client = None \<longrightarrow> f \<noteq> None \<and> act_Disconnect a)"
proof (cases "act_Disconnect a")
  case True
  then have "runDisconnecting R T c p a pw st = Some ((sr, f, client), st')"
    using assms by (simp add: run_action_def)
  then show ?thesis
  proof (cases rule: runDisconnecting_cases)
    case (no_boot g)
    then show ?thesis
      by (auto simp: step_agrees_def step_result_def ran_def)
  next
    case (real_failure st1 st2 g)
    then show ?thesis
      using runStep_agrees [OF real_failure(2)] ran_trans [OF real_failure(1) runStep_ran [OF real_failure(2)]]
        ran_trans0 [of _ 0 st st2 0 st'] by auto
  next
    case (survived st1 st2)
    then show ?thesis
      using runStep_agrees [OF survived(2)] ran_trans [OF survived(1) runStep_ran [OF survived(2)]]
        ran_trans0 [of _ 0 st st2 0 st'] by auto
  next
    case (reconnected st1 sr0 f0 st2 st3 oldBoot)
    have ag: "step_agrees R a None (case f0 of None \<Rightarrow> sr0 | Some g \<Rightarrow> with_success sr0)"
      using runStep_agrees [OF reconnected(2)] with_success_agrees by (auto split: option.splits)
    have "ran (nat (act_Retries a + 1)) 0 st st3"
      using ran_trans [OF reconnected(1) runStep_ran [OF reconnected(2)]] ran_trans0 [OF _ reconnected(3)] by force
    then show ?thesis
      using reconnect_result [OF reconnected(5) ag] ran_trans0 [of _ 0 st st3 _ st'] True by fastforce
  qed
next
  case False
  obtain sr0 f0 st0 where s: "runStep R T c p a pw st = ((sr0, f0), st0)"
    by (metis prod.collapse)
  show ?thesis
    using assms False s runStep_agrees [OF s] runStep_ran [OF s] with_success_agrees [of R a f0 sr0]
    by (auto simp: run_action_def runForget_def step_agrees_def split: if_splits option.splits)
qed


section \<open>Every host is finished\<close>

lemma run_action_returns:
  assumes "clock_runs T"
  shows "\<exists>sr f client st'. run_action R T c p a pw st = Some ((sr, f, client), st')"
proof -
  have rec: "\<exists>sr' f client st'. reconnect R T c p a oldBoot sr st0 = Some ((sr', f, client), st')" for oldBoot sr st0
  proof -
    obtain r st' where "waitForHost T p (act_ReconnectTimeout a) oldBoot (do_close T c st0) = Some (r, st')"
      using wait_loop_returns [OF assms] by (fastforce simp: waitForHost_def)
    then show ?thesis
      by (cases r) (auto simp: reconnect_def Let_def)
  qed
  obtain b st1 where b: "(if act_Reboot a then bootID T c st else (Inr '''', st)) = (b, st1)"
    by (metis prod.collapse)
  obtain sr f st3 where s: "runStep R T c p a pw (do_keepalive c True st1) = ((sr, f), st3)"
    by (metis prod.collapse)
  obtain alive st5 where al: "do_alive T c (do_keepalive c False st3) = (alive, st5)"
    by (metis prod.collapse)
  have "\<exists>sr f client st'. runDisconnecting R T c p a pw st = Some ((sr, f, client), st')"
    unfolding runDisconnecting_def b Let_def prod.case
    using rec by (cases b; cases f) (simp_all add: s al)
  then show ?thesis
    by (auto simp: run_action_def Let_def split: prod.splits)
qed

lemma run_actions_returns:
  assumes "clock_runs T"
  shows "\<exists>h' client' st'. run_actions R T p pw as client h st = Some ((h', client'), st')"
proof (induction as arbitrary: client h st)
  case (Cons a as)
  obtain sr f cl st1 where r: "run_action R T client p a pw st = Some ((sr, f, cl), st1)"
    using run_action_returns [OF assms] by blast
  show ?case
    using run_action_result [OF r] Cons.IH r
    by (cases cl; cases f) (auto simp: stops_host_def Let_def)
qed simp

lemma runHost_defined:
  assumes "clock_runs T" and "-1 \<le> o_MaxRetryDelay (rn_opts R)"
  shows "\<exists>h st'. runHost R T p st = Some (h, st')"
proof -
  obtain r n st1 where c: "connect R T p st = Some ((r, n), st1)"
    using connect_loop_returns [OF assms(2), of T p 1 st] by (auto simp: connect_def)
  show ?thesis
  proof (cases r)
    case (Inr cl)
    obtain pw st2 where "needsSudoPassword T cl p st1 = (pw, st2)"
      by (metis prod.collapse)
    then show ?thesis
      using c Inr run_actions_returns [OF assms(1), of R p pw "pl_Actions p" cl
          "(new_host p StatusSuccess '''')\<lparr>hr_ConnectAttempts := n\<rparr>" st2]
      by (auto simp: runHost_def Let_def)
  qed (use c in \<open>simp add: runHost_def Let_def\<close>)
qed

lemma example_clock: "clock_runs example_world"
  by (simp add: clock_runs_def example_world_def)

lemma example_runHost: "\<exists>h st'. runHost example_runner example_world example_plan st = Some (h, st')"
  by (rule runHost_defined [OF example_clock]) (simp add: example_runner_def example_options_def Second_def)

text \<open>
  C16: Every host is finished: while the clock runs, with a sensible maximal delay, \<open>runHost\<close> returns a
  result whatever the host does. In particular no step is ever run on a connection that is gone (a nil
  client), which would be the other way not to return.
\<close>

theorem runHost_returns:
  assumes "clock_runs T" and "-1 \<le> o_MaxRetryDelay (rn_opts R)"
  shows "\<exists>h st'. runHost R T p st = Some (h, st')"
  using runHost_defined [OF assms] .

theorem runHost_returns_witness:
  "\<exists>h st'. runHost example_runner example_world example_plan (at_time 0) = Some (h, st')"
  by (rule runHost_returns [OF example_clock]) (simp add: example_runner_def example_options_def Second_def)

section \<open>How often a command runs\<close>

text \<open>
  C1: No command that drops the connection or is fired and forgotten runs twice: for a step built from
  such a job step, with whatever defaults, one execution of the step sends its command at most once,
  through reconnects and boot ID queries, and however the network behaves. Any other step sends its
  command at most once per allowed try.
\<close>

theorem run_action_at_most_once:
  assumes "build j stp vars s = Inr a" and "run_action R T c p a pw st = Some ((sr, f, client), st')"
  shows "command_runs (exec_requests (new_events st st')) \<le>
           (if act_Disconnect a \<or> act_FireAndForget a then 1 else nat (act_Retries a + 1))"
  using build_reruns [OF assms(1)] run_action_result [OF assms(2)] by (auto simp: ran_def)

theorem run_action_at_most_once_witness:
  "\<exists>sr f client st'. run_action example_runner example_world 0 example_plan example_built True (at_time 0) =
       Some ((sr, f, client), st') \<and> command_runs (exec_requests (new_events (at_time 0) st')) \<le> 1"
proof -
  obtain sr f client st' where
    r: "run_action example_runner example_world 0 example_plan example_built True (at_time 0) = Some ((sr, f, client), st')"
    using run_action_returns [OF example_clock] by blast
  moreover have "act_Disconnect example_built"
    by code_simp
  ultimately show ?thesis
    using run_action_at_most_once [OF example_build r] by auto
qed

section \<open>The result of a host\<close>

text \<open>
  The result of a host follows from its steps: with no failure the host is a success, with no reason
  and no failed step, and all its steps are; otherwise the first step that is not a success gives the host
  its category, its reason and the name of the failed step.
\<close>

definition first_bad :: "StepResult list \<Rightarrow> StepResult option" where
  "first_bad srs = find (\<lambda>s. sr_Status s \<noteq> StatusSuccess) srs"

definition category_status :: "Category \<Rightarrow> Status" where
  "category_status c = (if c = CatCancelled then StatusCancelled else StatusFailed)"

definition host_agrees :: "HostResult \<Rightarrow> bool" where
  "host_agrees h \<longleftrightarrow>
     (case hr_Category h of
        None \<Rightarrow> hr_Status h = StatusSuccess \<and> hr_FailedStep h = '''' \<and> hr_Reason h = '''' \<and> first_bad (hr_Steps h) = None
      | Some c \<Rightarrow> hr_Status h = category_status c \<and>
          (case first_bad (hr_Steps h) of
             None \<Rightarrow> False
           | Some s \<Rightarrow> sr_Status s \<noteq> StatusSkipped \<and> sr_Category s = Some c \<and> sr_Reason s = hr_Reason h \<and>
                       sr_Name s = hr_FailedStep h))"

lemma first_bad_simps [simp]:
  "first_bad [] = None"
  "first_bad (srs @ [s]) =
     (case first_bad srs of Some b \<Rightarrow> Some b | None \<Rightarrow> if sr_Status s \<noteq> StatusSuccess then Some s else None)"
proof -
  have "find P (xs @ [x]) = (case find P xs of Some b \<Rightarrow> Some b | None \<Rightarrow> if P x then Some x else None)"
    for P :: "StepResult \<Rightarrow> bool" and xs x
    by (induction xs) auto
  then show "first_bad (srs @ [s]) =
     (case first_bad srs of Some b \<Rightarrow> Some b | None \<Rightarrow> if sr_Status s \<noteq> StatusSuccess then Some s else None)"
    by (simp add: first_bad_def)
qed (simp add: first_bad_def)

text \<open>The host result after one step.\<close>

definition after_step :: "'k Runner \<Rightarrow> Action \<Rightarrow> StepResult \<Rightarrow> Failure option \<Rightarrow> HostResult \<Rightarrow> HostResult" where
  "after_step R a sr f h =
     (case f of None \<Rightarrow> add_step sr h | Some g \<Rightarrow> fail_host R g (act_Name a) (add_step sr h))"

lemma after_step_fields [simp]:
  "hr_Steps (after_step R a sr f h) = hr_Steps h @ [sr]"
  "hr_Host (after_step R a sr f h) = hr_Host h"
  "hr_ConnectAttempts (after_step R a sr f h) = hr_ConnectAttempts h"
  "hr_Category (after_step R a sr f h) = None \<longleftrightarrow> hr_Category h = None \<and> f = None"
  by (auto simp: after_step_def add_step_def fail_host_def split: option.splits)

lemma after_step_agrees:
  "host_agrees h \<Longrightarrow> step_agrees R a f sr \<Longrightarrow> host_agrees (after_step R a sr f h)"
  by (cases "hr_Category h"; cases f)
    (auto simp: host_agrees_def step_agrees_def after_step_def add_step_def fail_host_def failed_status_def
      category_status_def split: option.splits)

lemma skip_agrees:
  "host_agrees h \<Longrightarrow> hr_Category h \<noteq> None \<Longrightarrow> host_agrees (add_step (step_result a StatusSkipped) h)"
  by (auto simp: host_agrees_def add_step_def split: option.splits)

text \<open>How one round of the loop over the steps can go.\<close>

lemma run_actions_cases:
  assumes "run_actions R T p pw (a # as) client h st = Some ((h', client'), st')"
  obtains (stop) sr f where "run_action R T client p a pw st = Some ((sr, f, client'), st')" "f \<noteq> None"
      "stops_host a client' (the f)" "h' = skip_steps as (after_step R a sr f h)"
  | (go_on) sr f c st1 where "run_action R T client p a pw st = Some ((sr, f, Some c), st1)"
      "case f of None \<Rightarrow> True | Some g \<Rightarrow> \<not> stops_host a (Some c) g"
      "run_actions R T p pw as c (after_step R a sr f h) st1 = Some ((h', client'), st')"
proof -
  obtain sr f cl st1 where r: "run_action R T client p a pw st = Some ((sr, f, cl), st1)"
    using assms by (auto split: option.splits)
  show thesis
  proof (cases "f \<noteq> None \<and> stops_host a cl (the f)")
    case True
    then show thesis
      using assms r by (intro stop [of sr f]) (auto simp: after_step_def Let_def)
  next
    case False
    then obtain c where "cl = Some c"
      using run_action_result [OF r] by (cases cl) (auto simp: stops_host_def)
    then show thesis
      using assms r False by (intro go_on [of sr f c st1]) (auto simp: after_step_def Let_def split: option.splits if_splits)
  qed
qed

lemma skip_steps_invariant:
  assumes "I h" and "hr_Category h \<noteq> None"
    and "\<And>a h. I h \<Longrightarrow> hr_Category h \<noteq> None \<Longrightarrow> I (add_step (step_result a StatusSkipped) h)"
  shows "I (skip_steps as h)"
  using assms(1,2)
proof (induction as arbitrary: h)
  case (Cons a as)
  have "I (add_step (step_result a StatusSkipped) h)"
    by (rule assms(3)) (rule Cons.prems)+
  moreover have "hr_Category (add_step (step_result a StatusSkipped) h) \<noteq> None"
    using Cons.prems(2) by (simp add: add_step_def)
  ultimately have "I (skip_steps as (add_step (step_result a StatusSkipped) h))"
    by (rule Cons.IH)
  then show ?case
    by simp
qed simp

text \<open>An invariant of the host result that every step and every skip preserves holds at the end.\<close>

lemma run_actions_invariant:
  assumes "run_actions R T p pw as client h st = Some ((h', client'), st')" and "I h"
    and step: "\<And>c a st sr f cl st' h. a \<in> set as \<Longrightarrow> run_action R T c p a pw st = Some ((sr, f, cl), st') \<Longrightarrow>
                  I h \<Longrightarrow> I (after_step R a sr f h)"
    and skip: "\<And>a h. I h \<Longrightarrow> hr_Category h \<noteq> None \<Longrightarrow> I (add_step (step_result a StatusSkipped) h)"
  shows "I h'"
  using assms(1-3)
proof (induction as arbitrary: client h st)
  case (Cons a as)
  from Cons.prems(1) show ?case
  proof (cases rule: run_actions_cases)
    case (stop sr f)
    have "I (after_step R a sr f h)"
      by (rule Cons.prems(3) [OF _ stop(1) Cons.prems(2)]) simp
    moreover have "hr_Category (after_step R a sr f h) \<noteq> None"
      using stop(2) by simp
    ultimately show ?thesis
      unfolding stop(4) by (rule skip_steps_invariant) (rule skip)
  next
    case (go_on sr f c st1)
    have "I (after_step R a sr f h)"
      by (rule Cons.prems(3) [OF _ go_on(1) Cons.prems(2)]) simp
    with go_on(3) show ?thesis
    proof (rule Cons.IH)
      fix c b st0 sr0 f0 cl st1' h0
      assume "b \<in> set as" "run_action R T c p b pw st0 = Some ((sr0, f0, cl), st1')" "I h0"
      then show "I (after_step R b sr0 f0 h0)"
        by (intro Cons.prems(3) [of b]) simp_all
    qed
  qed
qed simp


lemma runHost_cases:
  assumes "runHost R T p st = Some (h, st')"
  obtains (unreachable) e n d where "connect R T p st = Some ((Inl e, n), st')"
      "h = (skip_steps (pl_Actions p) (fail_host R (AsFailure e) '''' ((new_host p StatusSuccess '''')\<lparr>hr_ConnectAttempts := n\<rparr>)))
             \<lparr>hr_Duration := d\<rparr>"
  | (connected) c n st1 pw st2 h' client st3 d where "connect R T p st = Some ((Inr c, n), st1)"
      "needsSudoPassword T c p st1 = (pw, st2)"
      "run_actions R T p pw (pl_Actions p) c ((new_host p StatusSuccess '''')\<lparr>hr_ConnectAttempts := n\<rparr>) st2 =
         Some ((h', client), st3)"
      "st' = close_client T client st3" "h = h'\<lparr>hr_Duration := d\<rparr>"
proof -
  obtain r n st1 where c: "connect R T p st = Some ((r, n), st1)"
    using assms by (auto simp: runHost_def Let_def split: option.splits)
  show thesis
  proof (cases r)
    case (Inl e)
    then show thesis
      using assms c by (intro unreachable [of e n "now T st1 - now T st"]) (auto simp: runHost_def Let_def)
  next
    case (Inr cl)
    obtain pw st2 where n: "needsSudoPassword T cl p st1 = (pw, st2)"
      by (metis prod.collapse)
    obtain h' client st3 where r: "run_actions R T p pw (pl_Actions p) cl
        ((new_host p StatusSuccess '''')\<lparr>hr_ConnectAttempts := n\<rparr>) st2 = Some ((h', client), st3)"
      using assms c Inr n by (auto simp: runHost_def Let_def split: option.splits)
    show thesis
      using assms c Inr n r
      by (intro connected [OF c [unfolded Inr] n r, of "now T (close_client T client st3) - now T st"])
        (auto simp: runHost_def Let_def)
  qed
qed

lemma new_host_agrees: "host_agrees ((new_host p StatusSuccess '''')\<lparr>hr_ConnectAttempts := n\<rparr>)"
  by (simp add: host_agrees_def new_host_def)

lemma host_agrees_duration [simp]: "host_agrees (h\<lparr>hr_Duration := d\<rparr>) = host_agrees h"
  by (auto simp: host_agrees_def split: option.splits)

lemma skip_steps_fields:
  "hr_Steps (skip_steps as h) = hr_Steps h @ map (\<lambda>a. step_result a StatusSkipped) as \<and>
   hr_Category (skip_steps as h) = hr_Category h \<and> hr_Status (skip_steps as h) = hr_Status h \<and>
   hr_Reason (skip_steps as h) = hr_Reason h \<and> hr_FailedStep (skip_steps as h) = hr_FailedStep h \<and>
   hr_ConnectAttempts (skip_steps as h) = hr_ConnectAttempts h \<and> hr_Host (skip_steps as h) = hr_Host h \<and>
   hr_Address (skip_steps as h) = hr_Address h"
  by (induction as arbitrary: h) (auto simp: add_step_def)

lemma runHost_judged:
  assumes "runHost R T p st = Some (h, st')"
  shows "(\<exists>c n st1. connect R T p st = Some ((Inr c, n), st1)) \<and> host_agrees h \<or>
         (\<exists>e n. connect R T p st = Some ((Inl e, n), st') \<and> hr_Category h = Some (Category (AsFailure e)) \<and>
            hr_Status h = category_status (Category (AsFailure e)) \<and>
            hr_Reason h = String (rn_redact R) (Reason (AsFailure e)) \<and> hr_FailedStep h = '''' \<and>
            (\<forall>s \<in> set (hr_Steps h). sr_Status s = StatusSkipped))"
  using assms
proof (cases rule: runHost_cases)
  case (unreachable e n d)
  then show ?thesis
    by (auto simp: skip_steps_fields fail_host_def new_host_def failed_status_def category_status_def step_result_def)
next
  case (connected c n st1 pw st2 h' client st3 d)
  have "host_agrees h'"
    using run_actions_invariant [OF connected(3) new_host_agrees after_step_agrees skip_agrees]
      run_action_result by blast
  then show ?thesis
    using connected by simp
qed

text \<open>Success of a host is success of every step.\<close>

lemma runHost_success:
  assumes "runHost R T p st = Some (h, st')" and "hr_Status h = StatusSuccess"
  shows "\<forall>s \<in> set (hr_Steps h). sr_Status s = StatusSuccess"
proof -
  have "host_agrees h"
    using runHost_judged [OF assms(1)] assms(2) by (auto simp: category_status_def split: if_splits)
  then have "first_bad (hr_Steps h) = None"
    using assms(2) by (auto simp: host_agrees_def category_status_def split: option.splits if_splits)
  then show ?thesis
    by (auto simp: first_bad_def find_None_iff)
qed

text \<open>
  C15: The verdict on a host follows from what happened: on a host that could be reached, no failure
  category means success with every step a success, and otherwise the first step that is not a success
  gives the host its category, its (redacted) reason and the name of the failed step, and the status is
  CANCELLED exactly for a cancellation. A host that could not be reached fails with the connection
  error, no failed step and all steps skipped.
\<close>

theorem runHost_verdict:
  assumes "runHost R T p st = Some (h, st')"
  shows "(\<exists>c n st1. connect R T p st = Some ((Inr c, n), st1)) \<and> host_agrees h \<or>
         (\<exists>e n. connect R T p st = Some ((Inl e, n), st') \<and> hr_Category h = Some (Category (AsFailure e)) \<and>
            hr_Status h = category_status (Category (AsFailure e)) \<and>
            hr_Reason h = String (rn_redact R) (Reason (AsFailure e)) \<and> hr_FailedStep h = '''' \<and>
            (\<forall>s \<in> set (hr_Steps h). sr_Status s = StatusSkipped))"
  by (rule runHost_judged [OF assms])

theorem runHost_verdict_witness:
  "\<exists>h st'. runHost example_runner example_world example_plan (at_time 0) = Some (h, st') \<and>
     hr_Category h = Some CatConnectionRefused \<and> hr_Status h = StatusFailed"
proof -
  obtain h st' where r: "runHost example_runner example_world example_plan (at_time 0) = Some (h, st')"
    using example_runHost by blast
  show ?thesis
    using runHost_verdict [OF r] r by (simp add: example_connect category_status_def AsFailure_def as_failure_def)
qed

section \<open>Which steps are skipped\<close>

text \<open>
  The step results of a list of actions: those that ran, in order, and then skipped ones. Where there
  are skipped ones, the last step that ran failed and was one that stops the host.
\<close>

definition stops_run :: "Action \<Rightarrow> StepResult \<Rightarrow> bool" where
  "stops_run a s \<longleftrightarrow> sr_Status s \<in> {StatusFailed, StatusCancelled} \<and>
     (\<not> act_ContinueOnError a \<or> act_Disconnect a \<or> sr_Category s \<in> {Some CatCancelled, Some CatSessionFailed})"

definition step_of :: "Action \<Rightarrow> StepResult \<Rightarrow> bool" where
  "step_of a s \<longleftrightarrow> sr_Name s = act_Name a \<and> sr_Kind s = act_Kind a \<and> sr_Command s = act_Display a"

fun steps_of :: "Action list \<Rightarrow> StepResult list \<Rightarrow> bool" where
  "steps_of [] [] = True"
| "steps_of (a # as) (s # ss) \<longleftrightarrow>
     step_of a s \<and> sr_Status s \<noteq> StatusSkipped \<and>
     (if stops_run a s then steps_of as ss \<or> ss = map (\<lambda>a. step_result a StatusSkipped) as else steps_of as ss)"
| "steps_of _ _ = False"

lemma run_actions_steps:
  assumes "run_actions R T p pw as client h st = Some ((h', client'), st')"
  shows "\<exists>srs. hr_Steps h' = hr_Steps h @ srs \<and> steps_of as srs"
  using assms
proof (induction as arbitrary: client h st)
  case (Cons a as)
  have agree: "step_of a sr \<and> sr_Status sr \<noteq> StatusSkipped" if "step_agrees R a f sr" for sr f
    using that by (auto simp: step_of_def step_agrees_def split: option.splits)
  from Cons.prems show ?case
  proof (cases rule: run_actions_cases)
    case (stop sr f)
    note r = run_action_result [OF stop(1)]
    then have "stops_run a sr"
      using stop(2,3) by (auto simp: stops_run_def step_agrees_def stops_host_def)
    then show ?thesis
      using r agree stop(4) by (auto simp: skip_steps_fields intro!: exI [of _ "sr # map (\<lambda>a. step_result a StatusSkipped) as"])
  next
    case (go_on sr f c st1)
    note r = run_action_result [OF go_on(1)]
    from Cons.IH [OF go_on(3)] obtain srs where "hr_Steps h' = hr_Steps (after_step R a sr f h) @ srs" "steps_of as srs"
      by blast
    then show ?thesis
      using r agree by (intro exI [of _ "sr # srs"]) auto
  qed
qed simp

text \<open>
  Every action of the plan has exactly one step result, in order, with its name, kind and
  display. If the host was reached, the steps that did not run form the end of the list, and they are
  only skipped after a step that failed and was not allowed to continue, lost the connection, or was
  cancelled; otherwise all of them are skipped.
\<close>

theorem runHost_steps:
  assumes "runHost R T p st = Some (h, st')"
  shows "list_all2 step_of (pl_Actions p) (hr_Steps h) \<and>
         (steps_of (pl_Actions p) (hr_Steps h) \<or>
          hr_Steps h = map (\<lambda>a. step_result a StatusSkipped) (pl_Actions p) \<and> hr_Status h \<noteq> StatusSuccess)"
proof -
  have skipped: "list_all2 step_of as (map (\<lambda>a. step_result a StatusSkipped) as)" for as
    by (simp add: list_all2_map2 list_all2_refl step_of_def step_result_def)
  have l2: "steps_of as srs \<Longrightarrow> list_all2 step_of as srs" for as srs
    by (induction as srs rule: steps_of.induct) (auto simp: skipped split: if_splits)
  from assms show ?thesis
  proof (cases rule: runHost_cases)
    case (unreachable e n d)
    then show ?thesis
      by (simp add: skip_steps_fields fail_host_def new_host_def failed_status_def skipped)
  next
    case (connected c n st1 pw st2 h' client st3 d)
    then show ?thesis
      using run_actions_steps [OF connected(3)] l2 by (auto simp: new_host_def)
  qed
qed


theorem runHost_steps_witness:
  "\<exists>h st'. runHost example_runner example_world example_plan (at_time (9 * Second)) = Some (h, st') \<and>
     list_all2 step_of (pl_Actions example_plan) (hr_Steps h)"
proof -
  obtain h st' where r: "runHost example_runner example_world example_plan (at_time (9 * Second)) = Some (h, st')"
    using example_runHost by blast
  show ?thesis
    using runHost_steps [OF r] r by blast
qed

section \<open>Connections\<close>

lemma run_actions_ran:
  assumes "run_actions R T p pw as client h st = Some ((h', client'), st')"
  shows "\<exists>n. ran n (if client' = None then -1 else 0) st st'"
  using assms
proof (induction as arbitrary: client h st)
  case (Cons a as)
  from Cons.prems show ?case
  proof (cases rule: run_actions_cases)
    case (stop sr f)
    then show ?thesis
      using run_action_result by blast
  next
    case (go_on sr f c st1)
    have "ran (nat (act_Retries a + 1)) 0 st st1"
      using run_action_result [OF go_on(1)] by simp
    then show ?thesis
      using Cons.IH [OF go_on(3)] ran_trans [of _ 0 st st1] by fastforce
  qed
qed auto

lemma needsSudoPassword_ran: "needsSudoPassword T c p st = (pw, st') \<Longrightarrow> ran 1 0 st st'"
  using do_exec_events [of T c "probe_request ''sudo -n true''" st]
  by (auto simp: needsSudoPassword_def ran_def Let_def split: if_splits prod.splits)



section \<open>Secrets in the results\<close>

text \<open>A step result or a host result in which a secret occurs neither in an output nor in a reason.\<close>

definition step_hides :: "string \<Rightarrow> StepResult \<Rightarrow> bool" where
  "step_hides sec s \<longleftrightarrow> \<not> contains (sr_Stdout s) sec \<and> \<not> contains (sr_Stderr s) sec \<and> \<not> contains (sr_Reason s) sec"

definition host_hides :: "string \<Rightarrow> HostResult \<Rightarrow> bool" where
  "host_hides sec h \<longleftrightarrow> \<not> contains (hr_Reason h) sec \<and> (\<forall>s \<in> set (hr_Steps h). step_hides sec s)"

definition hidden_by :: "'k Runner \<Rightarrow> string \<Rightarrow> bool" where
  "hidden_by R sec \<longleftrightarrow>
     redactor_ok (rn_redact R) \<and> sec \<in> set (rd_secrets (rn_redact R)) \<and> maskable sec \<and> \<not> contains SensitiveMask sec"

lemma hidden_simps:
  assumes "hidden_by R sec"
  shows "\<not> contains (String (rn_redact R) s) sec" "\<not> contains (mask R a s) sec" "\<not> contains '''' sec"
proof -
  show s: "\<not> contains (String (rn_redact R) s) sec" for s
    using assms by (intro String_hides) (simp_all add: hidden_by_def)
  then show "\<not> contains (mask R a s) sec"
    using assms by (simp add: mask_def hidden_by_def)
  show "\<not> contains '''' sec"
    using assms by (auto simp: hidden_by_def maskable_def contains_iff)
qed

lemma step_loop_hides:
  assumes "hidden_by R sec" and "step_loop R T c p a pw n i sr f st = ((sr', f'), st')" and "step_hides sec sr"
  shows "step_hides sec sr'"
  using assms(2,3)
proof (induction n arbitrary: i sr f st)
  case (Suc n)
  have rec: "step_hides sec (record_attempt R a i res sr)" for res
    using Suc.prems(2) hidden_simps [OF assms(1)] by (simp add: step_hides_def record_attempt_def)
  from Suc.prems(1) show ?case
  proof (cases rule: step_loop_cases)
    case cancelled
    then show ?thesis
      using Suc.prems(2) by simp
  next
    case (again res f1 st1 st2)
    then show ?thesis
      using Suc.IH [OF again(6) rec] by simp
  next
    case (final res st1)
    then show ?thesis
      using rec by simp
  qed
qed simp

lemma step_result_hides: "hidden_by R sec \<Longrightarrow> step_hides sec (step_result a status)"
  using hidden_simps [of R sec] by (simp add: step_hides_def step_result_def)

lemma runStep_hides:
  assumes "hidden_by R sec" and "runStep R T c p a pw st = ((sr, f), st')"
  shows "step_hides sec sr"
proof -
  obtain sr0 f0 st0 where
    l: "step_loop R T c p a pw (nat (act_Retries a + 1)) 0 (step_result a StatusSuccess) None st = ((sr0, f0), st0)"
    by (metis prod.collapse)
  then have "step_hides sec sr0"
    using step_loop_hides [OF assms(1) l step_result_hides [OF assms(1)]] by simp
  then show ?thesis
    using assms(2) l hidden_simps [OF assms(1)]
    by (auto simp: runStep_def Let_def with_failure_def step_hides_def split: option.splits)
qed

lemma reconnect_hides:
  assumes "hidden_by R sec" and "step_hides sec sr" and "reconnect R T c p a oldBoot sr st = Some ((sr', f, client), st')"
  shows "step_hides sec sr'"
  using assms(2,3) hidden_simps [OF assms(1)]
  by (auto simp: reconnect_def Let_def with_failure_def step_hides_def split: option.splits sum.splits)

lemma with_success_hides: "hidden_by R sec \<Longrightarrow> step_hides sec sr \<Longrightarrow> step_hides sec (with_success sr)"
  using hidden_simps [of R sec] by (simp add: step_hides_def with_success_def)

lemma run_action_hides:
  assumes "hidden_by R sec" and "run_action R T c p a pw st = Some ((sr, f, client), st')"
  shows "step_hides sec sr"
proof (cases "act_Disconnect a")
  case True
  then have "runDisconnecting R T c p a pw st = Some ((sr, f, client), st')"
    using assms by (simp add: run_action_def)
  then show ?thesis
  proof (cases rule: runDisconnecting_cases)
    case (no_boot g)
    then show ?thesis
      using hidden_simps [OF assms(1)] by (simp add: step_hides_def step_result_def)
  next
    case (reconnected st1 sr0 f0 st2 st3 oldBoot)
    then show ?thesis
      using reconnect_hides [OF assms(1) _ reconnected(5)] runStep_hides [OF assms(1) reconnected(2)]
        with_success_hides [OF assms(1)] by (auto split: option.splits)
  qed (use runStep_hides [OF assms(1)] in blast)+
next
  case False
  obtain sr0 f0 st0 where s: "runStep R T c p a pw st = ((sr0, f0), st0)"
    by (metis prod.collapse)
  show ?thesis
    using assms(2) False s runStep_hides [OF assms(1) s] with_success_hides [OF assms(1), of sr0]
    by (auto simp: run_action_def runForget_def step_hides_def split: if_splits option.splits)
qed

lemma runHost_host_hides:
  assumes "hidden_by R sec" and "runHost R T p st = Some (h, st')"
  shows "host_hides sec h"
  using assms(2)
proof (cases rule: runHost_cases)
  case (unreachable e n d)
  then show ?thesis
    using hidden_simps [OF assms(1)] step_result_hides [OF assms(1)]
    by (auto simp: host_hides_def skip_steps_fields fail_host_def new_host_def)
next
  case (connected c n st1 pw st2 h' client st3 d)
  have init: "host_hides sec ((new_host p StatusSuccess '''')\<lparr>hr_ConnectAttempts := n\<rparr>)"
    using hidden_simps [OF assms(1)] by (simp add: host_hides_def new_host_def)
  have "host_hides sec h'"
  proof (rule run_actions_invariant [where I = "host_hides sec", OF connected(3) init])
    fix c a st sr f cl st' h
    assume "run_action R T c p a pw st = Some ((sr, f, cl), st')" "host_hides sec h"
    then show "host_hides sec (after_step R a sr f h)"
      using run_action_hides [OF assms(1)] hidden_simps [OF assms(1)]
      by (auto simp: host_hides_def after_step_def fail_host_def add_step_def split: option.splits)
  next
    fix a h
    assume "host_hides sec h"
    then show "host_hides sec (add_step (step_result a StatusSkipped) h)"
      using step_result_hides [OF assms(1)] by (simp add: host_hides_def add_step_def)
  qed
  then show ?thesis
    using connected(5) by (simp add: host_hides_def)
qed

text \<open>
  C6: No result of a host shows a registered secret: for a secret the redactor knows (and that can be
  told apart from the redaction markers), neither the output nor the error output nor the reason of any
  step, nor the reason of the host, contains it, whatever the host printed and however the steps ended.
\<close>

theorem runHost_hides_secrets:
  assumes "hidden_by R sec" and "runHost R T p st = Some (h, st')"
  shows "host_hides sec h"
  using runHost_host_hides [OF assms] .

theorem runHost_hides_secrets_witness:
  "\<exists>h st'. runHost example_runner example_world example_plan (at_time (9 * Second)) = Some (h, st') \<and>
     host_hides ''hunter2'' h"
proof -
  obtain h st' where r: "runHost example_runner example_world example_plan (at_time (9 * Second)) = Some (h, st')"
    using example_runHost by blast
  have "redactor_ok (rn_redact example_runner)"
    unfolding example_runner_def Runner.simps by (rule redactor_ok_Add) (simp add: redactor_ok_def)
  moreover have "''hunter2'' \<in> set (rd_secrets (rn_redact example_runner))"
    by (simp add: example_runner_def set_Add MinSecretLen_def)
  moreover have "maskable ''hunter2''" "\<not> contains SensitiveMask ''hunter2''"
    by code_simp+
  ultimately have "hidden_by example_runner ''hunter2''"
    by (simp add: hidden_by_def)
  from runHost_hides_secrets [OF this r] r show ?thesis
    by blast
qed

end
