(* ===== verification/Scheduler.thy ===== *)
theory Scheduler
  imports Host_Outcome
begin

text \<open>
  \<open>Runner.Run\<close> of \<open>internal/runner/runner.go\<close>: the loop that starts a goroutine per host, bounded by a
  semaphore, stopped by Ctrl+C and by too many failures. It is a step relation whose steps are the atomic
  actions of the loop and of the goroutines, in any interleaving. What a goroutine's \<open>runHost\<close> may
  return is a predicate \<open>outcome\<close> on the index of the plan and the result.
\<close>

section \<open>State and steps\<close>

text \<open>Who runs the closure \<open>finish\<close>, and what it does next. A goroutine also returns its slot.\<close>

datatype who = Loop | Goroutine

datatype phase = Store | CountFailed | CountDone | Notify | Release

text \<open>
  How far the run is with one host. The loop is at the \<open>select\<close> for a waiting host, at the test of
  \<open>MaxFailures\<close> when it took a slot, and on its way to skip the host in the next two.
\<close>

datatype stage =
    Waiting
  | Testing
  | Returning
  | Skipping
  | Running
  | Finishing who phase HostResult
  | Over HostResult

record sched =
  sc_stages :: "stage list"
  sc_next :: nat
  sc_sem :: nat
  sc_hosts :: "HostResult option list"
  sc_failed :: nat
  sc_done :: nat
  sc_running :: nat
  sc_calls :: "(nat \<times> HostResult) list"
  sc_cancelled :: bool
  sc_report :: "Report option"

definition conc :: "'k Runner \<Rightarrow> nat" where
  "conc R = nat (max 1 (o_Concurrency (rn_opts R)))"

definition over_limit :: "'k Runner \<Rightarrow> sched \<Rightarrow> bool" where
  "over_limit R s \<longleftrightarrow> o_MaxFailures (rn_opts R) > 0 \<and> int (sc_failed s) \<ge> o_MaxFailures (rn_opts R)"

definition skip_reason :: "'k Runner \<Rightarrow> nat \<Rightarrow> string" where
  "skip_reason R n =
     ''not started: '' @ nat_string n @ '' hosts failed (--max-failures '' @ itoa (o_MaxFailures (rn_opts R)) @ '')''"

definition cancelled_host :: "'k Plan \<Rightarrow> HostResult" where
  "cancelled_host p = notStarted p StatusCancelled ''cancelled before start''"

definition skipped_host :: "'k Runner \<Rightarrow> 'k Plan \<Rightarrow> nat \<Rightarrow> HostResult" where
  "skipped_host R p n = notStarted p StatusSkipped (skip_reason R n)"

definition at_stage :: "nat \<Rightarrow> stage \<Rightarrow> sched \<Rightarrow> sched" where
  "at_stage i g s = s\<lparr>sc_stages := (sc_stages s)[i := g]\<rparr>"

text \<open>One atomic action of \<open>finish(i, h)\<close>, and of the deferred release of a goroutine's slot.\<close>

fun finish_step :: "nat \<Rightarrow> who \<Rightarrow> phase \<Rightarrow> HostResult \<Rightarrow> sched \<Rightarrow> sched" where
  "finish_step i w Store h s = at_stage i (Finishing w CountFailed h) (s\<lparr>sc_hosts := (sc_hosts s)[i := Some h]\<rparr>)"
| "finish_step i w CountFailed h s =
     at_stage i (Finishing w CountDone h)
       (if hr_Status h = StatusFailed then s\<lparr>sc_failed := sc_failed s + 1\<rparr> else s)"
| "finish_step i w CountDone h s = at_stage i (Finishing w Notify h) (s\<lparr>sc_done := sc_done s + 1\<rparr>)"
| "finish_step i Goroutine Notify h s =
     at_stage i (Finishing Goroutine Release h) (s\<lparr>sc_calls := sc_calls s @ [(i, h)]\<rparr>)"
| "finish_step i Loop Notify h s =
     at_stage i (Over h) (s\<lparr>sc_calls := sc_calls s @ [(i, h)], sc_next := sc_next s + 1\<rparr>)"
| "finish_step i w Release h s = at_stage i (Over h) (s\<lparr>sc_sem := sc_sem s - 1\<rparr>)"

definition run_init :: "'k Runner \<Rightarrow> sched \<Rightarrow> bool" where
  "run_init R s \<longleftrightarrow>
     s = \<lparr>sc_stages = map (\<lambda>_. Waiting) (rn_Plans R), sc_next = 0, sc_sem = 0, sc_hosts = map (\<lambda>_. None) (rn_Plans R),
          sc_failed = 0, sc_done = 0, sc_running = 0, sc_calls = [], sc_cancelled = False, sc_report = None\<rparr>"

inductive run_step :: "'k Runner \<Rightarrow> (nat \<Rightarrow> HostResult \<Rightarrow> bool) \<Rightarrow> sched \<Rightarrow> sched \<Rightarrow> bool"
  for R :: "'k Runner" and outcome :: "nat \<Rightarrow> HostResult \<Rightarrow> bool" where
  cancel:
    "\<not> sc_cancelled s \<Longrightarrow> run_step R outcome s (s\<lparr>sc_cancelled := True\<rparr>)"
| take_slot:
    "i = sc_next s \<Longrightarrow> i < length (sc_stages s) \<Longrightarrow> sc_stages s ! i = Waiting \<Longrightarrow> sc_sem s < conc R \<Longrightarrow>
     run_step R outcome s (at_stage i Testing (s\<lparr>sc_sem := sc_sem s + 1\<rparr>))"
| ctx_done:
    "i = sc_next s \<Longrightarrow> i < length (sc_stages s) \<Longrightarrow> sc_stages s ! i = Waiting \<Longrightarrow> sc_cancelled s \<Longrightarrow>
     run_step R outcome s (at_stage i (Finishing Loop Store (cancelled_host (rn_Plans R ! i))) s)"
| too_many:
    "i = sc_next s \<Longrightarrow> i < length (sc_stages s) \<Longrightarrow> sc_stages s ! i = Testing \<Longrightarrow> over_limit R s \<Longrightarrow>
     run_step R outcome s (at_stage i Returning s)"
| give_back:
    "i = sc_next s \<Longrightarrow> i < length (sc_stages s) \<Longrightarrow> sc_stages s ! i = Returning \<Longrightarrow>
     run_step R outcome s (at_stage i Skipping (s\<lparr>sc_sem := sc_sem s - 1\<rparr>))"
| skip:
    "i = sc_next s \<Longrightarrow> i < length (sc_stages s) \<Longrightarrow> sc_stages s ! i = Skipping \<Longrightarrow>
     run_step R outcome s (at_stage i (Finishing Loop Store (skipped_host R (rn_Plans R ! i) (sc_failed s))) s)"
| start:
    "i = sc_next s \<Longrightarrow> i < length (sc_stages s) \<Longrightarrow> sc_stages s ! i = Testing \<Longrightarrow> \<not> over_limit R s \<Longrightarrow>
     run_step R outcome s (at_stage i Running (s\<lparr>sc_running := sc_running s + 1, sc_next := sc_next s + 1\<rparr>))"
| host_returns:
    "i < length (sc_stages s) \<Longrightarrow> sc_stages s ! i = Running \<Longrightarrow> outcome i h \<Longrightarrow>
     run_step R outcome s (at_stage i (Finishing Goroutine Store h) (s\<lparr>sc_running := sc_running s - 1\<rparr>))"
| finishing:
    "i < length (sc_stages s) \<Longrightarrow> sc_stages s ! i = Finishing w ph h \<Longrightarrow> run_step R outcome s (finish_step i w ph h s)"
| complete:
    "sc_next s = length (sc_stages s) \<Longrightarrow> (\<forall>g \<in> set (sc_stages s). \<exists>h. g = Over h) \<Longrightarrow> sc_report s = None \<Longrightarrow>
     run_step R outcome s (s\<lparr>sc_report := Some (Report_finish
       ((newReport (rn_job R) t0)\<lparr>rep_Hosts := map the (sc_hosts s)\<rparr>) t1)\<rparr>)"

section \<open>The invariant\<close>

text \<open>What each stage contributes to the shared counters.\<close>

fun slots :: "stage \<Rightarrow> nat" where
  "slots Testing = 1" | "slots Returning = 1" | "slots Running = 1"
| "slots (Finishing Goroutine ph h) = 1" | "slots _ = 0"

fun running :: "stage \<Rightarrow> nat" where
  "running Running = 1" | "running _ = 0"

text \<open>A goroutine that may still count a failure.\<close>

fun pending :: "stage \<Rightarrow> nat" where
  "pending Running = 1" | "pending (Finishing Goroutine Store h) = 1" | "pending (Finishing Goroutine CountFailed h) = 1"
| "pending _ = 0"

definition failure_of :: "HostResult \<Rightarrow> nat" where
  "failure_of h = (if hr_Status h = StatusFailed then 1 else 0)"

fun failures :: "stage \<Rightarrow> nat" where
  "failures (Finishing w CountDone h) = failure_of h" | "failures (Finishing w Notify h) = failure_of h"
| "failures (Finishing w Release h) = failure_of h" | "failures (Over h) = failure_of h" | "failures _ = 0"

fun dones :: "stage \<Rightarrow> nat" where
  "dones (Finishing w Notify h) = 1" | "dones (Finishing w Release h) = 1" | "dones (Over h) = 1" | "dones _ = 0"

fun stored :: "stage \<Rightarrow> HostResult option" where
  "stored (Finishing w Store h) = None" | "stored (Finishing w ph h) = Some h" | "stored (Over h) = Some h"
| "stored _ = None"

fun notified :: "stage \<Rightarrow> HostResult option" where
  "notified (Finishing w Release h) = Some h" | "notified (Over h) = Some h" | "notified _ = None"

text \<open>The result a host will have.\<close>

fun verdict :: "stage \<Rightarrow> HostResult option" where
  "verdict (Finishing w ph h) = Some h" | "verdict (Over h) = Some h" | "verdict _ = None"

text \<open>Stages the loop has left behind, and those it is in.\<close>

fun passed :: "stage \<Rightarrow> bool" where
  "passed Running = True" | "passed (Finishing Goroutine ph h) = True" | "passed (Over h) = True" | "passed _ = False"

fun in_loop :: "stage \<Rightarrow> bool" where
  "in_loop (Finishing w ph h) \<longleftrightarrow> w = Loop \<and> ph \<noteq> Release" | "in_loop Running = False" | "in_loop (Over h) = False"
| "in_loop _ = True"

definition total :: "(stage \<Rightarrow> nat) \<Rightarrow> sched \<Rightarrow> nat" where
  "total f s = sum_list (map f (sc_stages s))"

lemma total_at_stage:
  assumes "i < length (sc_stages s)"
  shows "total f (at_stage i g s) + f (sc_stages s ! i) = total f s + f g"
proof -
  have "f (sc_stages s ! i) \<le> sum_list (map f (sc_stages s))"
    using assms by (intro member_le_sum_list) auto
  then show ?thesis
    using assms sum_list_update [of i "map f (sc_stages s)" "f g"]
    by (simp add: total_def at_stage_def map_update)
qed


lemma total_bound: "i < length (sc_stages s) \<Longrightarrow> f (sc_stages s ! i) \<le> total f s"
  unfolding total_def by (intro member_le_sum_list) auto

lemma total_move:
  "i < length (sc_stages s) \<Longrightarrow> total f (at_stage i g s) = total f s + f g - f (sc_stages s ! i)"
  using total_at_stage [of i s f g] total_bound [of i s f] by simp

lemma total_frame [simp]:
  "total f (s\<lparr>sc_sem := a\<rparr>) = total f s" "total f (s\<lparr>sc_hosts := b\<rparr>) = total f s"
  "total f (s\<lparr>sc_failed := c\<rparr>) = total f s" "total f (s\<lparr>sc_done := c\<rparr>) = total f s"
  "total f (s\<lparr>sc_running := c\<rparr>) = total f s" "total f (s\<lparr>sc_calls := d\<rparr>) = total f s"
  "total f (s\<lparr>sc_next := c\<rparr>) = total f s" "total f (s\<lparr>sc_cancelled := e\<rparr>) = total f s"
  "total f (s\<lparr>sc_report := r\<rparr>) = total f s"
  by (simp_all add: total_def)

lemma at_stage_fields [simp]:
  "sc_stages (at_stage i g s) = (sc_stages s)[i := g]" "sc_next (at_stage i g s) = sc_next s"
  "sc_sem (at_stage i g s) = sc_sem s" "sc_hosts (at_stage i g s) = sc_hosts s" "sc_failed (at_stage i g s) = sc_failed s"
  "sc_done (at_stage i g s) = sc_done s" "sc_running (at_stage i g s) = sc_running s" "sc_calls (at_stage i g s) = sc_calls s"
  "sc_cancelled (at_stage i g s) = sc_cancelled s" "sc_report (at_stage i g s) = sc_report s"
  by (simp_all add: at_stage_def)

text \<open>The loop has handled the hosts before its index, is busy with the one at it, and not at the later ones.\<close>

definition inv_order :: "'k Runner \<Rightarrow> sched \<Rightarrow> bool" where
  "inv_order R s \<longleftrightarrow> length (sc_stages s) = length (rn_Plans R) \<and> sc_next s \<le> length (sc_stages s) \<and>
     (\<forall>j < length (sc_stages s).
        if j < sc_next s then passed (sc_stages s ! j)
        else if j = sc_next s then in_loop (sc_stages s ! j) else sc_stages s ! j = Waiting)"

text \<open>The shared counters and the results are what the stages of the hosts say.\<close>

definition inv_counts :: "'k Runner \<Rightarrow> sched \<Rightarrow> bool" where
  "inv_counts R s \<longleftrightarrow> sc_sem s = total slots s \<and> sc_sem s \<le> conc R \<and> sc_failed s = total failures s \<and>
     sc_done s = total dones s \<and> sc_running s = total running s \<and> sc_hosts s = map stored (sc_stages s)"

text \<open>Which host a stage can belong to.\<close>

lemma order_loop:
  assumes "inv_order R s" and "i < length (sc_stages s)" and "\<not> passed (sc_stages s ! i)" and "sc_stages s ! i \<noteq> Waiting"
  shows "i = sc_next s"
  using assms unfolding inv_order_def by (metis linorder_neqE_nat)

lemma order_goroutine:
  assumes "inv_order R s" and "i < length (sc_stages s)" and "\<not> in_loop (sc_stages s ! i)"
  shows "i < sc_next s"
  using assms unfolding inv_order_def by (metis in_loop.simps(4) linorder_neqE_nat)

lemma order_move:
  assumes "inv_order R s" and "sc_stages t = (sc_stages s)[i := g]" and "i < length (sc_stages s)"
    and "sc_next t = sc_next s \<and> (i < sc_next s \<and> passed g \<or> i = sc_next s \<and> in_loop g) \<or>
         sc_next t = sc_next s + 1 \<and> i = sc_next s \<and> passed g"
  shows "inv_order R t"
proof -
  have "if j < sc_next t then passed (sc_stages t ! j)
        else if j = sc_next t then in_loop (sc_stages t ! j) else sc_stages t ! j = Waiting"
    if j: "j < length (sc_stages t)" for j
  proof (cases "j = i")
    case True
    then have "sc_stages t ! j = g"
      using assms(2,3) by simp
    then show ?thesis
      using assms(4) True by (elim disjE conjE) simp_all
  next
    case False
    then have st: "sc_stages t ! j = sc_stages s ! j"
      using assms(2) by simp
    have old: "if j < sc_next s then passed (sc_stages s ! j)
               else if j = sc_next s then in_loop (sc_stages s ! j) else sc_stages s ! j = Waiting"
      using assms(1,2) j by (simp add: inv_order_def)
    from assms(4) consider "sc_next t = sc_next s" | "sc_next t = sc_next s + 1" "i = sc_next s"
      by blast
    then show ?thesis
      unfolding st using old False by cases (auto split: if_splits)
  qed
  moreover have "sc_next t \<le> length (sc_stages t)" "length (sc_stages t) = length (rn_Plans R)"
    using assms by (auto simp: inv_order_def)
  ultimately show ?thesis
    by (simp add: inv_order_def)
qed

text \<open>The stage after one action of \<open>finish\<close>, and the counters it leaves alone.\<close>

fun after_phase :: "who \<Rightarrow> phase \<Rightarrow> HostResult \<Rightarrow> stage" where
  "after_phase w Store h = Finishing w CountFailed h"
| "after_phase w CountFailed h = Finishing w CountDone h"
| "after_phase w CountDone h = Finishing w Notify h"
| "after_phase Goroutine Notify h = Finishing Goroutine Release h"
| "after_phase Loop Notify h = Over h"
| "after_phase w Release h = Over h"

lemma finish_step_fields [simp]:
  "sc_stages (finish_step i w ph h s) = (sc_stages s)[i := after_phase w ph h]"
  "sc_next (finish_step i w ph h s) = sc_next s + (if w = Loop \<and> ph = Notify then 1 else 0)"
  "sc_sem (finish_step i w ph h s) = (if ph = Release then sc_sem s - 1 else sc_sem s)"
  "sc_hosts (finish_step i w ph h s) = (if ph = Store then (sc_hosts s)[i := Some h] else sc_hosts s)"
  "sc_failed (finish_step i w ph h s) = sc_failed s + (if ph = CountFailed then failure_of h else 0)"
  "sc_done (finish_step i w ph h s) = sc_done s + (if ph = CountDone then 1 else 0)"
  "sc_running (finish_step i w ph h s) = sc_running s"
  "sc_calls (finish_step i w ph h s) = sc_calls s @ (if ph = Notify then [(i, h)] else [])"
  "sc_cancelled (finish_step i w ph h s) = sc_cancelled s" "sc_report (finish_step i w ph h s) = sc_report s"
  by (cases w; cases ph; simp add: failure_of_def)+

declare finish_step.simps [simp del]

lemma finish_step_total:
  assumes "i < length (sc_stages s)"
  shows "total f (finish_step i w ph h s) = total f s + f (after_phase w ph h) - f (sc_stages s ! i)"
proof -
  have "total f (finish_step i w ph h s) = total f (at_stage i (after_phase w ph h) s)"
    by (simp add: total_def)
  then show ?thesis
    using total_move [OF assms] by simp
qed

lemma inv_order_step:
  assumes "run_step R outcome s t" and "inv_order R s"
  shows "inv_order R t"
  using assms(1)
proof (cases rule: run_step.cases)
  case (finishing i w ph h)
  have loop: "i = sc_next s" if "w = Loop"
    using order_loop [OF assms(2) finishing(2)] finishing(3) that by simp
  have gor: "i < sc_next s" if "\<not> (w = Loop \<and> ph \<noteq> Release)"
    using order_goroutine [OF assms(2) finishing(2)] finishing(3) that by simp
  show ?thesis
    unfolding finishing(1)
  proof (rule order_move [OF assms(2) _ finishing(2)])
    show "sc_stages (finish_step i w ph h s) = (sc_stages s)[i := after_phase w ph h]"
      by simp
    show "sc_next (finish_step i w ph h s) = sc_next s \<and>
            (i < sc_next s \<and> passed (after_phase w ph h) \<or> i = sc_next s \<and> in_loop (after_phase w ph h)) \<or>
          sc_next (finish_step i w ph h s) = sc_next s + 1 \<and> i = sc_next s \<and> passed (after_phase w ph h)"
      using loop gor by (cases w; cases ph) simp_all
  qed
next
  case (host_returns i h)
  then show ?thesis
    using order_goroutine [OF assms(2) host_returns(2)]
    by (intro order_move [OF assms(2) _ host_returns(2), of _ "Finishing Goroutine Store h"]) simp_all
next
  case (start i)
  then show ?thesis
    by (intro order_move [OF assms(2) _ start(3), of _ Running]) simp_all
next
  case (take_slot i)
  then show ?thesis
    by (intro order_move [OF assms(2) _ take_slot(3), of _ Testing]) simp_all
next
  case (ctx_done i)
  then show ?thesis
    by (intro order_move [OF assms(2) _ ctx_done(3), of _ "Finishing Loop Store (cancelled_host (rn_Plans R ! i))"]) simp_all
next
  case (skip i)
  then show ?thesis
    by (intro order_move [OF assms(2) _ skip(3), of _ "Finishing Loop Store (skipped_host R (rn_Plans R ! i) (sc_failed s))"])
      simp_all
next
  case (too_many i)
  then show ?thesis
    by (intro order_move [OF assms(2) _ too_many(3), of _ Returning]) simp_all
next
  case (give_back i)
  then show ?thesis
    by (intro order_move [OF assms(2) _ give_back(3), of _ Skipping]) simp_all
qed (use assms(2) in \<open>simp_all add: inv_order_def\<close>)

lemma map_update_same: "f (xs ! i) = v \<Longrightarrow> (map f xs)[i := v] = map f xs"
  by (metis list_update_id map_update)

lemma inv_counts_step:
  assumes "run_step R outcome s t" and "inv_order R s" and "inv_counts R s"
  shows "inv_counts R t"
  using assms(1)
proof (cases rule: run_step.cases)
  case (finishing i w ph h)
  have "\<not> (w = Loop \<and> ph = Release)"
    using order_loop [OF assms(2) finishing(2)] finishing(2,3) assms(2) by (auto simp: inv_order_def)
  moreover have "f (Finishing w ph h) \<le> total f s" for f
    using total_bound [OF finishing(2), of f] finishing(3) by simp
  moreover have "map stored (sc_stages (finish_step i w ph h s)) = sc_hosts (finish_step i w ph h s)"
    using assms(3) finishing(2,3) by (cases w; cases ph) (auto simp: inv_counts_def map_update map_update_same)
  ultimately show ?thesis
    unfolding finishing(1) using assms(3) finishing(2,3)
    by (cases w; cases ph) (auto simp: inv_counts_def finish_step_total)
qed (use assms(3) in \<open>auto simp: inv_counts_def total_move map_update map_update_same\<close>)


text \<open>Where a result comes from: a host that was run, or one the loop did not start.\<close>

definition not_started :: "'k Runner \<Rightarrow> sched \<Rightarrow> nat \<Rightarrow> HostResult \<Rightarrow> bool" where
  "not_started R s j h \<longleftrightarrow>
     sc_cancelled s \<and> h = cancelled_host (rn_Plans R ! j) \<or>
     over_limit R s \<and> (\<exists>k \<le> sc_failed s. o_MaxFailures (rn_opts R) \<le> int k \<and> h = skipped_host R (rn_Plans R ! j) k)"

fun legit :: "'k Runner \<Rightarrow> (nat \<Rightarrow> HostResult \<Rightarrow> bool) \<Rightarrow> sched \<Rightarrow> nat \<Rightarrow> stage \<Rightarrow> bool" where
  "legit R outcome s j (Finishing Goroutine ph h) = outcome j h"
| "legit R outcome s j (Finishing Loop ph h) = not_started R s j h"
| "legit R outcome s j (Over h) = (outcome j h \<or> not_started R s j h)"
| "legit R outcome s j Returning = over_limit R s"
| "legit R outcome s j Skipping = over_limit R s"
| "legit R outcome s j _ = True"

definition inv_verdicts :: "'k Runner \<Rightarrow> (nat \<Rightarrow> HostResult \<Rightarrow> bool) \<Rightarrow> sched \<Rightarrow> bool" where
  "inv_verdicts R outcome s \<longleftrightarrow> (\<forall>j < length (sc_stages s). legit R outcome s j (sc_stages s ! j))"

lemma step_mono:
  assumes "run_step R outcome s t"
  shows "sc_failed s \<le> sc_failed t" and "sc_cancelled s \<Longrightarrow> sc_cancelled t"
    and "length (sc_stages t) = length (sc_stages s)"
  using assms by (cases rule: run_step.cases; simp)+

lemma legit_mono:
  assumes "legit R outcome s j g" and "sc_failed s \<le> sc_failed t" and "sc_cancelled s \<Longrightarrow> sc_cancelled t"
  shows "legit R outcome t j g"
proof -
  have o: "over_limit R s \<Longrightarrow> over_limit R t"
    using assms(2) by (auto simp: over_limit_def)
  have "not_started R s j h \<Longrightarrow> not_started R t j h" for h
  proof -
    assume "not_started R s j h"
    then consider "sc_cancelled s" "h = cancelled_host (rn_Plans R ! j)"
      | k where "over_limit R s" "k \<le> sc_failed s" "o_MaxFailures (rn_opts R) \<le> int k"
          "h = skipped_host R (rn_Plans R ! j) k"
      by (auto simp: not_started_def)
    then show "not_started R t j h"
    proof cases
      case 1
      then show ?thesis
        using assms(3) by (simp add: not_started_def)
    next
      case 2
      then show ?thesis
        unfolding not_started_def using o order_trans [OF 2(2) assms(2)] by blast
    qed
  qed
  then show ?thesis
    using assms(1) o by (cases "(R, outcome, s, j, g)" rule: legit.cases) auto
qed

lemma verdicts_move:
  assumes "inv_verdicts R outcome s" and "run_step R outcome s t" and "sc_stages t = (sc_stages s)[i := g]"
    and "legit R outcome t i g"
  shows "inv_verdicts R outcome t"
  unfolding inv_verdicts_def
proof (intro allI impI)
  fix j
  assume j: "j < length (sc_stages t)"
  show "legit R outcome t j (sc_stages t ! j)"
  proof (cases "j = i")
    case True
    then show ?thesis
      using assms(3,4) j by simp
  next
    case False
    have "legit R outcome s j (sc_stages s ! j)"
      using assms(1,3) j by (simp add: inv_verdicts_def)
    then show ?thesis
      using legit_mono [OF _ step_mono(1,2) [OF assms(2)]] assms(3) False by simp
  qed
qed

lemma verdicts_same:
  assumes "inv_verdicts R outcome s" and "run_step R outcome s t" and "sc_stages t = sc_stages s"
  shows "inv_verdicts R outcome t"
  unfolding inv_verdicts_def assms(3)
proof (intro allI impI)
  fix j
  assume "j < length (sc_stages s)"
  then have "legit R outcome s j (sc_stages s ! j)"
    using assms(1) by (simp add: inv_verdicts_def)
  then show "legit R outcome t j (sc_stages s ! j)"
    by (rule legit_mono) (use step_mono [OF assms(2)] in simp_all)
qed

lemma inv_verdicts_step:
  assumes "run_step R outcome s t" and "inv_verdicts R outcome s"
  shows "inv_verdicts R outcome t"
  using assms(1)
proof (cases rule: run_step.cases)
  case cancel
  show ?thesis
    by (rule verdicts_same [OF assms(2,1)]) (simp add: cancel)
next
  case (complete t0 t1)
  show ?thesis
    by (rule verdicts_same [OF assms(2,1)]) (simp add: complete)
next
  case (finishing i w ph h)
  have "legit R outcome s i (Finishing w ph h)"
    using assms(2) finishing(2,3) by (auto simp: inv_verdicts_def)
  then have "legit R outcome s i (after_phase w ph h)"
    by (cases w; cases ph) simp_all
  then have "legit R outcome t i (after_phase w ph h)"
    using legit_mono [OF _ step_mono(1,2) [OF assms(1)]] by blast
  then show ?thesis
    by (rule verdicts_move [OF assms(2,1), rotated]) (simp add: finishing)
next
  case (skip i)
  have "over_limit R s"
    using assms(2) skip(3,4) by (auto simp: inv_verdicts_def)
  then show ?thesis
    using skip by (intro verdicts_move [OF assms(2,1), of i "Finishing Loop Store (skipped_host R (rn_Plans R ! i) (sc_failed s))"])
      (auto simp: not_started_def over_limit_def)
next
  case (give_back i)
  then show ?thesis
    using assms(2) by (intro verdicts_move [OF assms(2,1), of i Skipping]) (auto simp: inv_verdicts_def over_limit_def)
next
  case (too_many i)
  then show ?thesis
    by (intro verdicts_move [OF assms(2,1), of i Returning]) (simp_all add: over_limit_def)
next
  case (ctx_done i)
  then show ?thesis
    by (intro verdicts_move [OF assms(2,1), of i "Finishing Loop Store (cancelled_host (rn_Plans R ! i))"]) (simp_all add: not_started_def)
next
  case (host_returns i h)
  then show ?thesis
    by (intro verdicts_move [OF assms(2,1), of i "Finishing Goroutine Store h"]) simp_all
next
  case (start i)
  then show ?thesis
    by (intro verdicts_move [OF assms(2,1), of i Running]) simp_all
next
  case (take_slot i)
  then show ?thesis
    by (intro verdicts_move [OF assms(2,1), of i Testing]) simp_all
qed

section \<open>Callbacks and the failure limit\<close>

text \<open>\<open>OnHostDone\<close> was called once for each host that is done.\<close>

definition inv_calls :: "sched \<Rightarrow> bool" where
  "inv_calls s \<longleftrightarrow> distinct (map fst (sc_calls s)) \<and>
     (\<forall>j h. (j, h) \<in> set (sc_calls s) \<longleftrightarrow> j < length (sc_stages s) \<and> notified (sc_stages s ! j) = Some h)"

lemma calls_move:
  assumes "inv_calls s" and "sc_calls t = sc_calls s" and "sc_stages t = (sc_stages s)[i := g]"
    and "notified g = notified (sc_stages s ! i)"
  shows "inv_calls t"
proof -
  have "j < length (sc_stages t) \<and> notified (sc_stages t ! j) = Some h \<longleftrightarrow>
        j < length (sc_stages s) \<and> notified (sc_stages s ! j) = Some h" for j h
    using assms(3,4) by (cases "j = i") auto
  then show ?thesis
    using assms(1,2) by (simp add: inv_calls_def)
qed

lemma inv_calls_step:
  assumes "run_step R outcome s t" and "inv_calls s"
  shows "inv_calls t"
  using assms(1)
proof (cases rule: run_step.cases)
  case (finishing i w ph h)
  show ?thesis
  proof (cases "ph = Notify")
    case True
    have n: "notified (sc_stages s ! i) = None" "notified (after_phase w Notify h) = Some h"
      using finishing(3) True by (simp, cases w, simp_all)
    then have "i \<notin> fst ` set (sc_calls s)"
      using assms(2) by (force simp: inv_calls_def)
    moreover have "(j, h') \<in> set (sc_calls s @ [(i, h)]) \<longleftrightarrow>
        j < length (sc_stages s) \<and> notified ((sc_stages s)[i := after_phase w Notify h] ! j) = Some h'" for j h'
      using assms(2) finishing(2) n by (cases "j = i") (auto simp: inv_calls_def)
    ultimately show ?thesis
      using assms(2) True unfolding finishing(1) inv_calls_def by simp
  next
    case False
    then have "notified (after_phase w ph h) = notified (sc_stages s ! i)"
      using finishing(3) by (cases w; cases ph) simp_all
    then show ?thesis
      using False by (intro calls_move [OF assms(2), of _ i "after_phase w ph h"]) (simp_all add: finishing(1))
  qed
qed (use assms(2) in \<open>auto simp: inv_calls_def nth_list_update split: if_splits\<close>)

text \<open>Started hosts can exceed the limit of failures by the hosts that run at the same time.\<close>

definition inv_limit :: "'k Runner \<Rightarrow> sched \<Rightarrow> bool" where
  "inv_limit R s \<longleftrightarrow> (o_MaxFailures (rn_opts R) > 0 \<longrightarrow>
     int (sc_failed s) + int (total pending s) \<le> o_MaxFailures (rn_opts R) - 1 + int (conc R))"

lemma pending_slots: "total pending s \<le> total slots s"
proof -
  have "pending g \<le> slots g" for g
    by (induction g rule: pending.induct) auto
  then show ?thesis
    unfolding total_def by (intro sum_list_mono) simp
qed

lemma not_started_status: "not_started R s j h \<Longrightarrow> failure_of h = 0"
  by (auto simp: not_started_def cancelled_host_def skipped_host_def notStarted_def new_host_def failure_of_def
      skip_steps_fields Let_def)

lemma inv_limit_step:
  assumes "run_step R outcome s t" and "inv_counts R s" and "inv_verdicts R outcome s" and "inv_counts R t" and "inv_limit R s"
  shows "inv_limit R t"
  using assms(1)
proof (cases rule: run_step.cases)
  case (finishing i w ph h)
  have l: "legit R outcome s i (Finishing w ph h)"
    using assms(3) finishing(2,3) by (auto simp: inv_verdicts_def)
  have b: "pending (Finishing w ph h) \<le> total pending s"
    using total_bound [OF finishing(2), of pending] finishing(3) by simp
  have f: "failure_of h \<le> 1"
    by (simp add: failure_of_def)
  show ?thesis
    unfolding finishing(1)
    using assms(5) l b f finishing(2,3) not_started_status [of R s i h]
    by (cases w; cases ph) (auto simp: inv_limit_def finish_step_total)
next
  case (start i)
  then have "int (sc_failed t) \<le> o_MaxFailures (rn_opts R) - 1" if "o_MaxFailures (rn_opts R) > 0"
    using that by (simp add: over_limit_def)
  then show ?thesis
    using pending_slots [of t] assms(4) by (auto simp: inv_limit_def inv_counts_def)
qed (use assms(5) in \<open>auto simp: inv_limit_def total_move\<close>)

definition inv_report :: "'k Runner \<Rightarrow> sched \<Rightarrow> bool" where
  "inv_report R s \<longleftrightarrow>
     (case sc_report s of
        None \<Rightarrow> True
      | Some rep \<Rightarrow> sc_next s = length (sc_stages s) \<and> (\<forall>g \<in> set (sc_stages s). \<exists>h. g = Over h) \<and>
          (\<exists>t0 t1. rep = Report_finish ((newReport (rn_job R) t0)\<lparr>rep_Hosts := map the (sc_hosts s)\<rparr>) t1))"

lemma inv_report_step:
  assumes "run_step R outcome s t" and "inv_report R s"
  shows "inv_report R t"
proof (cases "sc_report s")
  case (Some rep)
  then have over: "\<exists>h. sc_stages s ! i = Over h" if "i < length (sc_stages s)" for i
    using assms(2) that by (auto simp: inv_report_def)
  have same: "sc_report t = sc_report s \<and> sc_stages t = sc_stages s \<and> sc_next t = sc_next s \<and> sc_hosts t = sc_hosts s"
    using assms(1) by (cases rule: run_step.cases) (use Some in \<open>auto dest!: over\<close>)
  then show ?thesis
    using assms(2) by (auto simp: inv_report_def split: option.splits)
next
  case None
  show ?thesis
    using assms(1)
    by (cases rule: run_step.cases) (use None in \<open>auto simp: inv_report_def\<close>)
qed

definition sched_inv :: "'k Runner \<Rightarrow> (nat \<Rightarrow> HostResult \<Rightarrow> bool) \<Rightarrow> sched \<Rightarrow> bool" where
  "sched_inv R outcome s \<longleftrightarrow>
     inv_order R s \<and> inv_counts R s \<and> inv_verdicts R outcome s \<and> inv_calls s \<and> inv_limit R s \<and> inv_report R s"

lemma sched_inv_init: "run_init R s \<Longrightarrow> sched_inv R outcome s"
proof -
  assume i: "run_init R s"
  have z: "total f s = 0" if "f Waiting = 0" for f
    using i that by (simp add: run_init_def total_def sum_list_eq_0_iff)
  show ?thesis
    using i z [of slots] z [of failures] z [of dones] z [of running] z [of pending]
    by (auto simp: sched_inv_def inv_order_def inv_counts_def inv_verdicts_def inv_calls_def inv_limit_def inv_report_def
        run_init_def conc_def)
qed

lemma sched_inv_step: "sched_inv R outcome s \<Longrightarrow> run_step R outcome s t \<Longrightarrow> sched_inv R outcome t"
  unfolding sched_inv_def
  using inv_order_step inv_counts_step inv_verdicts_step inv_calls_step inv_limit_step inv_report_step by metis

text \<open>Every step brings some host nearer to its end.\<close>

fun weight :: "stage \<Rightarrow> nat" where
  "weight Waiting = 12" | "weight Testing = 11" | "weight Returning = 10" | "weight Skipping = 9" | "weight Running = 8"
| "weight (Finishing w Store h) = 6" | "weight (Finishing w CountFailed h) = 5" | "weight (Finishing w CountDone h) = 4"
| "weight (Finishing w Notify h) = 3" | "weight (Finishing w Release h) = 2" | "weight (Over h) = 0"

definition sched_rank :: "sched \<Rightarrow> nat" where
  "sched_rank s = total weight s + (if sc_cancelled s then 0 else 1) + (if sc_report s = None then 1 else 0)"

lemma sched_rank_step:
  assumes "run_step R outcome s t"
  shows "sched_rank t < sched_rank s"
  using assms
proof (cases rule: run_step.cases)
  case (finishing i w ph h)
  have "weight (Finishing w ph h) \<le> total weight s"
    using total_bound [OF finishing(2), of weight] finishing(3) by simp
  then show ?thesis
    unfolding finishing(1) using finishing(2,3)
    by (cases w; cases ph) (simp_all add: sched_rank_def finish_step_total)
next
  case (host_returns i h)
  then show ?thesis
    using total_bound [OF host_returns(2), of weight] by (simp add: sched_rank_def total_move)
qed (use total_bound [of "sc_next s" s weight] in \<open>auto simp: sched_rank_def total_move\<close>)

interpretation sched: terminating_system "run_init R" "run_step R outcome" "sched_inv R outcome" sched_rank
  for R :: "'k Runner" and outcome
  by unfold_locales (auto intro: sched_inv_init sched_inv_step sched_rank_step)


section \<open>Properties of a run\<close>

lemmas run_inv = sched.inv_reachable [unfolded sched_inv_def]

text \<open>When there is a report, every host is over and has the result the report has.\<close>

lemma report_over:
  assumes "reachable (run_init R) (run_step R outcome) s" and "sc_report s = Some rep"
  shows "sc_stages s = map Over (rep_Hosts rep)"
proof -
  have over: "\<forall>g \<in> set (sc_stages s). \<exists>h. g = Over h" and rep: "rep_Hosts rep = map (the \<circ> stored) (sc_stages s)"
    using run_inv [OF assms(1)] assms(2) by (auto simp: inv_report_def inv_counts_def Report_finish_def)
  then show ?thesis
    by (intro nth_equalityI) (auto simp: all_set_conv_all_nth dest!: spec)
qed

text \<open>\<open>OnHostDone\<close> was called once per host, with the result of the host.\<close>

lemma report_calls:
  assumes "reachable (run_init R) (run_step R outcome) s" and "sc_report s = Some rep"
  shows "distinct (map fst (sc_calls s))" "set (sc_calls s) = set (enumerate 0 (rep_Hosts rep))"
  using run_inv [OF assms(1)] report_over [OF assms] by (auto simp: inv_calls_def in_set_enumerate_eq)

lemma report_results:
  assumes "reachable (run_init R) (run_step R outcome) s" and "sc_report s = Some rep" and "j < length (rn_Plans R)"
  shows "outcome j (rep_Hosts rep ! j) \<or> not_started R s j (rep_Hosts rep ! j)"
  using run_inv [OF assms(1)] report_over [OF assms(1,2)] assms(3) by (auto simp: inv_verdicts_def inv_order_def)

text \<open>
  C18: At most \<open>max(1, Concurrency)\<close> hosts are worked on at the same time, in every interleaving: the
  goroutines that exist never exceed it, and the semaphore counts them exactly (with the slot the loop
  itself may hold).
\<close>

theorem Run_concurrency:
  assumes "reachable (run_init R) (run_step R outcome) s"
  shows "length (filter (\<lambda>g. slots g = 1 \<and> passed g) (sc_stages s)) \<le> conc R \<and> sc_sem s \<le> conc R \<and>
         sc_sem s = total slots s"
proof -
  have "length (filter (\<lambda>g. slots g = 1 \<and> passed g) gs) \<le> sum_list (map slots gs)" for gs
    by (induction gs) auto
  from this [of "sc_stages s"] show ?thesis
    using run_inv [OF assms] unfolding inv_counts_def total_def by linarith
qed

text \<open>
  C3: With \<open>MaxFailures = m > 0\<close>, a host is only started while fewer than \<open>m\<close> hosts have failed, and so at
  most \<open>m - 1 + max(1, Concurrency)\<close> hosts can ever fail: those that were already running when the
  limit was reached. The counter the decision uses is the number of hosts whose result is FAILED.
\<close>

theorem Run_max_failures:
  assumes "reachable (run_init R) (run_step R outcome) s" and "o_MaxFailures (rn_opts R) > 0"
  shows "int (sc_failed s) \<le> o_MaxFailures (rn_opts R) - 1 + int (conc R) \<and>
         sc_failed s = total failures s \<and>
         (\<forall>t i. run_step R outcome s t \<and> sc_stages s ! i = Testing \<and> sc_stages t ! i = Running \<longrightarrow>
            int (sc_failed s) < o_MaxFailures (rn_opts R))"
proof -
  have "int (sc_failed s) < o_MaxFailures (rn_opts R)"
    if "run_step R outcome s t" "sc_stages s ! i = Testing" "sc_stages t ! i = Running" for t i
    using that
  proof (cases rule: run_step.cases)
    case (start j)
    then show ?thesis
      using assms(2) by (simp add: over_limit_def)
  next
    case (finishing j w ph h)
    then show ?thesis
      using that(2,3) by (cases w; cases ph; cases "i = j") auto
  qed (use that(2,3) in \<open>auto simp: nth_list_update split: if_splits\<close>)
  then show ?thesis
    using run_inv [OF assms(1)] assms(2) by (auto simp: inv_limit_def inv_counts_def)
qed

text \<open>
  C2: The report is complete: when \<open>Run\<close> returns, every host has exactly one result. It is what its
  \<open>runHost\<close> returned, or says that it was cancelled before it started (only after Ctrl+C), or that it was
  skipped because of the failure limit (only when that many hosts had failed). \<open>OnHostDone\<close> was
  called exactly once per host, with that result, every slot is free again, and the counters agree.
\<close>

theorem Run_complete:
  assumes "reachable (run_init R) (run_step R outcome) s" and "sc_report s = Some rep"
  shows "length (rep_Hosts rep) = length (rn_Plans R) \<and>
         (\<forall>j < length (rn_Plans R). outcome j (rep_Hosts rep ! j) \<or> not_started R s j (rep_Hosts rep ! j)) \<and>
         distinct (map fst (sc_calls s)) \<and> set (sc_calls s) = set (enumerate 0 (rep_Hosts rep)) \<and>
         sc_sem s = 0 \<and> sc_running s = 0 \<and> sc_done s = length (rn_Plans R) \<and>
         sc_failed s = length (with_status StatusFailed (rep_Hosts rep))"
proof -
  note inv = run_inv [OF assms(1)]
  have n: "length (sc_stages s) = length (rn_Plans R)"
    using inv by (simp add: inv_order_def)
  note st = report_over [OF assms]
  have tot: "total f s = sum_list (map (f \<circ> Over) (rep_Hosts rep))" for f
    by (simp add: total_def st)
  have "sum_list (map failure_of hs) = length (with_status StatusFailed hs)" for hs
    by (induction hs) (simp_all add: failure_of_def with_status_def)
  then have "total failures s = length (with_status StatusFailed (rep_Hosts rep))"
    by (simp add: tot comp_def)
  moreover have "total dones s = length (rn_Plans R)" "total slots s = 0" "total running s = 0"
    using n by (simp_all add: tot comp_def sum_list_triv st)
  ultimately show ?thesis
    using inv n report_calls [OF assms] report_results [OF assms] by (auto simp: inv_counts_def st)
qed


text \<open>When the loop waits for a slot and no goroutine is left, a slot is free.\<close>

lemma free_slot:
  assumes "inv_order R s" and "inv_counts R s" and "sc_next s < length (sc_stages s)" and "sc_stages s ! sc_next s = Waiting"
    and no: "\<And>i w ph h. i < length (sc_stages s) \<Longrightarrow> sc_stages s ! i \<noteq> Running \<and> sc_stages s ! i \<noteq> Finishing w ph h"
  shows "sc_sem s < conc R"
proof -
  have "slots (sc_stages s ! i) = 0" if i: "i < length (sc_stages s)" for i
  proof -
    have "sc_stages s ! i = Waiting \<or> passed (sc_stages s ! i)"
      using assms(1,4) i unfolding inv_order_def by metis
    then show ?thesis
      using no [OF i] by (cases "sc_stages s ! i") auto
  qed
  then have "total slots s = 0"
    by (auto simp: total_def sum_list_eq_0_iff in_set_conv_nth)
  then show ?thesis
    using assms(2) by (simp add: inv_counts_def conc_def)
qed

text \<open>A run that has not returned can go on, as long as every \<open>runHost\<close> returns.\<close>

lemma run_progress:
  assumes "sched_inv R outcome s" and "\<And>i. i < length (rn_Plans R) \<Longrightarrow> \<exists>h. outcome i h" and "sc_report s = None"
  shows "\<exists>t. run_step R outcome s t \<and> sc_cancelled t = sc_cancelled s"
proof (cases "\<exists>i < length (sc_stages s). sc_stages s ! i = Running \<or> (\<exists>w ph h. sc_stages s ! i = Finishing w ph h)")
  case True
  then obtain i where i: "i < length (sc_stages s)" "sc_stages s ! i = Running \<or> (\<exists>w ph h. sc_stages s ! i = Finishing w ph h)"
    by blast
  obtain h where h: "outcome i h"
    using assms(1,2) i(1) by (auto simp: sched_inv_def inv_order_def)
  from i(2) show ?thesis
  proof (elim disjE exE)
    assume "sc_stages s ! i = Running"
    note step = host_returns [where outcome = outcome and R = R, OF i(1) this h]
    have "sc_cancelled (at_stage i (Finishing Goroutine Store h) (s\<lparr>sc_running := sc_running s - 1\<rparr>)) = sc_cancelled s"
      by simp
    then show ?thesis
      using step by blast
  next
    fix w ph g
    assume "sc_stages s ! i = Finishing w ph g"
    then show ?thesis
      using finishing [where outcome = outcome and R = R, OF i(1)] finish_step_fields(9) by blast
  qed
next
  case False
  then have no: "sc_stages s ! i \<noteq> Running" "sc_stages s ! i \<noteq> Finishing w ph h" if "i < length (sc_stages s)" for i w ph h
    using that by blast+
  have order: "inv_order R s" and counts: "inv_counts R s"
    using assms(1) by (simp_all add: sched_inv_def)
  show ?thesis
  proof (cases "sc_next s < length (sc_stages s)")
    case True
    let ?g = "sc_stages s ! sc_next s"
    have "?g \<in> {Waiting, Testing, Returning, Skipping}"
      using order True no [OF True] unfolding inv_order_def by (cases ?g) auto
    moreover have "sc_sem s < conc R" if "?g = Waiting"
      using free_slot [OF order counts True that] no by blast
    ultimately show ?thesis
      using take_slot [OF refl True] too_many [OF refl True] start [OF refl True] give_back [OF refl True]
        skip [OF refl True] by fastforce
  next
    case False
    then have "sc_next s = length (sc_stages s)"
      using order by (simp add: inv_order_def)
    moreover have "\<exists>h. sc_stages s ! i = Over h" if i: "i < length (sc_stages s)" for i
      using order False no [OF i] i unfolding inv_order_def by (cases "sc_stages s ! i") fastforce+
    ultimately show ?thesis
      using complete [of s R outcome, OF _ _ assms(3)] by (fastforce simp: all_set_conv_all_nth)
  qed
qed

text \<open>A run without Ctrl+C goes on without it.\<close>

interpretation quiet: terminating_system "run_init R" "\<lambda>s t. run_step R outcome s t \<and> sc_cancelled t = sc_cancelled s"
  "sched_inv R outcome" sched_rank
  for R :: "'k Runner" and outcome
  by unfold_locales (auto intro: sched_inv_init sched_inv_step sched_rank_step)

lemma run_completes:
  assumes "reachable (run_init R) (run_step R outcome) s" and "\<And>i. i < length (rn_Plans R) \<Longrightarrow> \<exists>h. outcome i h"
  obtains t rep where "(run_step R outcome)\<^sup>*\<^sup>* s t" "reachable (run_init R) (run_step R outcome) t" "sc_report t = Some rep"
    "sc_cancelled t = sc_cancelled s"
proof -
  let ?step = "\<lambda>s t. run_step R outcome s t \<and> sc_cancelled t = sc_cancelled s"
  have inv: "sched_inv R outcome s"
    using sched.inv_reachable [OF assms(1)] .
  obtain t where t: "?step\<^sup>*\<^sup>* s t" "\<forall>u. \<not> ?step t u"
    using quiet.reaches_final [OF inv] by blast
  from t(1) have s: "(run_step R outcome)\<^sup>*\<^sup>* s t" and c: "sc_cancelled t = sc_cancelled s"
    by (induction rule: rtranclp_induct) auto
  have "reachable (run_init R) (run_step R outcome) t"
    using s by (induction rule: rtranclp_induct) (auto intro: assms(1) reach_step)
  moreover have "sc_report t \<noteq> None"
    using run_progress [OF quiet.inv_steps [OF t(1) inv] assms(2)] t(2) by blast
  ultimately show thesis
    using that s c by blast
qed

text \<open>What can happen with fewer outcomes can happen with more.\<close>

lemma run_reach_mono:
  assumes "reachable (run_init R) (run_step R outcome) s" and "\<And>i h. outcome i h \<Longrightarrow> outcome' i h"
  shows "reachable (run_init R) (run_step R outcome') s"
  using assms(1)
proof (induction rule: reachable.induct)
  case (reach_step s t)
  have "run_step R outcome' s t"
    using reach_step.hyps(2)
  proof (cases rule: run_step.cases)
    case (host_returns i h)
    show ?thesis
      unfolding host_returns(1) using host_returns(2-4) assms(2) by (intro run_step.host_returns)
  next
    case (finishing i w ph h)
    then show ?thesis
      using run_step.finishing [where outcome = outcome'] by simp
  next
    case (complete t0 t1)
    then show ?thesis
      using run_step.complete [where outcome = outcome'] by simp
  qed (simp_all add: run_step.cancel run_step.take_slot [simplified] run_step.ctx_done run_step.too_many run_step.give_back [simplified]
      run_step.skip run_step.start [simplified])
  then show ?case
    by (rule reachable.reach_step [OF reach_step.IH])
qed (rule reach_init)



section \<open>A concrete run\<close>

text \<open>One host, which fails at once, with a failure limit of one.\<close>

definition limited_runner :: "unit Runner" where
  "limited_runner = example_runner\<lparr>rn_opts := example_options\<lparr>o_MaxFailures := 1\<rparr>\<rparr>"

definition failing :: "nat \<Rightarrow> HostResult \<Rightarrow> bool" where
  "failing i h \<longleftrightarrow> h = example_host ''web1'' StatusFailed"

definition fresh_run :: sched where
  "fresh_run = \<lparr>sc_stages = [Waiting], sc_next = 0, sc_sem = 0, sc_hosts = [None], sc_failed = 0, sc_done = 0,
     sc_running = 0, sc_calls = [], sc_cancelled = False, sc_report = None\<rparr>"

lemma fresh_reachable: "reachable (run_init limited_runner) (run_step limited_runner failing) fresh_run"
  by (rule reach_init) (simp add: run_init_def fresh_run_def limited_runner_def example_runner_def)

lemma example_completes:
  "\<exists>s rep. reachable (run_init limited_runner) (run_step limited_runner failing) s \<and> sc_report s = Some rep"
  by (rule run_completes [OF fresh_reachable]) (auto simp: failing_def)

theorem Run_concurrency_witness: "sc_sem fresh_run \<le> conc limited_runner"
  using Run_concurrency [OF fresh_reachable] by blast

theorem Run_max_failures_witness:
  "int (sc_failed fresh_run) \<le> o_MaxFailures (rn_opts limited_runner) - 1 + int (conc limited_runner)"
  using Run_max_failures [OF fresh_reachable] by (simp add: limited_runner_def)

theorem Run_complete_witness:
  "\<exists>(s :: sched) rep. sc_report s = Some rep \<and> length (rep_Hosts rep) = length (rn_Plans limited_runner) \<and> sc_sem s = 0"
proof -
  obtain s rep where "reachable (run_init limited_runner) (run_step limited_runner failing) s" "sc_report s = Some rep"
    using example_completes by blast
  from Run_complete [OF this] this(2) show ?thesis
    by blast
qed


end
