(* ===== verification/Max_Failures.thy ===== *)
theory Max_Failures
  imports Job_Types Go_Float
begin

text \<open>
  \<open>ParseMaxFailures\<close> of \<open>internal/job/job.go\<close>: the failure limit of a job as a number of hosts. The
  conversion of a float to an integer is exact in the range of a 64-bit integer; outside of it the
  result depends on the machine and is a parameter.
\<close>

definition int_range :: "int \<Rightarrow> bool" where
  "int_range k \<longleftrightarrow> - (2 ^ 63) \<le> k \<and> k < 2 ^ 63"

text \<open>\<open>int(math.Ceil(x))\<close> and \<open>int(x)\<close>.\<close>

definition int_of_ceil :: "(float64 \<Rightarrow> int) \<Rightarrow> float64 \<Rightarrow> int" where
  "int_of_ceil conv x = (case x of Fin m e \<Rightarrow> if int_range (ceil_int m e) then ceil_int m e else conv x | _ \<Rightarrow> conv x)"

definition trunc_int :: "int \<Rightarrow> int \<Rightarrow> int" where
  "trunc_int m e = (let (a, b) = num_den m e in if a < 0 then - ((- a) div b) else a div b)"

definition int_of_float :: "(float64 \<Rightarrow> int) \<Rightarrow> float64 \<Rightarrow> int" where
  "int_of_float conv x = (case x of Fin m e \<Rightarrow> if int_range (trunc_int m e) then trunc_int m e else conv x | _ \<Rightarrow> conv x)"

definition ParseMaxFailures :: "(float64 \<Rightarrow> int) \<Rightarrow> string \<Rightarrow> int \<Rightarrow> string + int" where
  "ParseMaxFailures conv v hosts =
     (let pct = has_suffix v ''%''; bad = Inl (fmt_q v @ '': want a positive number of hosts or a percentage like 5%'') in
      case ParseFloat (trim_suffix v ''%'') of
        None \<Rightarrow> bad
      | Some n \<Rightarrow>
          if less_eq_int n 0 \<or> pct \<and> greater_int n 100 then bad
          else if pct then Inr (max 1 (int_of_ceil conv (fdiv_int (fmul n (of_integer hosts)) 100)))
          else if not_whole n then Inl (fmt_q v @ '': want a whole number of hosts'')
          else Inr (int_of_float conv n))"

section \<open>Whole numbers\<close>

lemma read_mantissa_digits:
  "(\<And>c. c \<in> set s \<Longrightarrow> dec_digit c) \<Longrightarrow> \<not> mt_dot r \<Longrightarrow>
   read_mantissa False r s =
     (r\<lparr>mt_value := foldl (\<lambda>v c. v * 10 + digit_value c) (mt_value r) s, mt_digits := mt_digits r \<or> s \<noteq> []\<rparr>, [])"
proof (induction s arbitrary: r)
  case (Cons c s)
  have "dec_digit c" "c \<noteq> CHR ''_''" "c \<noteq> CHR ''.''"
    using Cons.prems(1) [of c] by (auto simp: dec_digit_def less_eq_char_def)
  then show ?case
    using Cons.IH [of "r\<lparr>mt_value := mt_value r * 10 + digit_value c, mt_digits := True\<rparr>"] Cons.prems by simp
qed simp

lemma ParseFloat_nat_string: "ParseFloat (nat_string n) = (case round64 (int n) 1 of Fin m e \<Rightarrow> Some (Fin m e) | _ \<Rightarrow> None)"
proof -
  let ?s = "nat_string n"
  have d: "dec_digit c" if "c \<in> set ?s" for c
    using nat_string_digits [OF that] digit_chars by auto
  obtain c s where s: "?s = c # s"
    using nat_string_hd [of n] by auto
  have low: "lower x = x" "x \<noteq> CHR ''+''" "x \<noteq> CHR ''-''" "x \<noteq> CHR ''i''" "x \<noteq> CHR ''n''" "x \<noteq> CHR ''x''"
    if "x \<in> set ?s" for x
    using d [OF that] by (auto simp: dec_digit_def lower_def less_eq_char_def)
  have sp: "special False ?s = None"
    using low [of c] s by (auto simp: special_def Let_def)
  have hex: "\<not> is_hex ?s"
  proof
    assume h: "is_hex ?s"
    then have "?s ! 1 \<in> set ?s"
      by (simp add: is_hex_def)
    then show False
      using h low(1,6) by (auto simp: is_hex_def)
  qed
  have m: "read_mantissa False \<lparr>mt_value = 0, mt_frac = 0, mt_dot = False, mt_digits = False, mt_under = False\<rparr> ?s =
      (\<lparr>mt_value = int n, mt_frac = 0, mt_dot = False, mt_digits = True, mt_under = False\<rparr>, [])"
    using read_mantissa_digits [of ?s, OF d] foldl_nat_string [of n] s by simp
  have e: "read_exponent False [] = Some ((0, False), [])"
    by (simp add: read_exponent_def)
  have p: "parse_number False ?s = (case round64 (int n) 1 of Fin m e \<Rightarrow> Some (Fin m e) | _ \<Rightarrow> None)"
    by (simp add: parse_number_def m e scale_decimal_def)
  have sg: "hd ?s \<notin> set ''+-''" "hd ?s \<noteq> CHR ''-''"
    using low [of c] s by auto
  show ?thesis
    using sg hex sp p by (simp add: ParseFloat_def Let_def option.map_id0)
qed

text \<open>
  A whole number of hosts means what it says: for every \<open>n\<close> from 1 to \<open>2 ^ 53 - 1\<close>, the limit written
  in decimal is parsed, through floating point, to exactly \<open>n\<close>, whatever the number of hosts.
\<close>

theorem ParseMaxFailures_whole:
  assumes "0 < n" and "n < 2 ^ 53"
  shows "ParseMaxFailures conv (nat_string n) hosts = Inr (int n)"
proof -
  have "(2::nat) ^ 53 = 9007199254740992"
    by simp
  then have n: "0 < int n" "int n < 2 ^ 53"
    using assms by simp_all
  obtain k where r: "round64 (int n) 1 = Fin (int n * 2 ^ k) (- int k)"
    using round64_exact [OF n, of 1] by auto
  have nd: "num_den (int n * 2 ^ k) (- int k) = (int n * 2 ^ k, 2 ^ k)"
    by (cases "k = 0") (simp_all add: num_den_def)
  have pf: "ParseFloat (nat_string n) = Some (Fin (int n * 2 ^ k) (- int k))"
    by (simp add: ParseFloat_nat_string r)
  have last: "c \<noteq> CHR ''%''" if c: "c \<in> set (nat_string n)" for c
  proof
    assume "c = CHR ''%''"
    moreover obtain m where "c = digit_char m"
      using nat_string_digits [OF c] by blast
    ultimately show False
      using digit_chars(1) [of m] by (simp add: dec_digit_def less_eq_char_def)
  qed
  have suf: "\<not> has_suffix (nat_string n) ''%''"
  proof
    assume "has_suffix (nat_string n) ''%''"
    then obtain zs where "nat_string n = zs @ ''%''"
      by (auto simp: has_suffix_iff suffix_def)
    then show False
      using last [of "CHR ''%''"] by simp
  qed
  have "trunc_int (int n * 2 ^ k) (- int k) = int n" "int_range (int n)"
    using n by (auto simp: trunc_int_def nd int_range_def mult_less_0_iff)
  moreover have "\<not> less_eq_int (Fin (int n * 2 ^ k) (- int k)) 0" "\<not> not_whole (Fin (int n * 2 ^ k) (- int k))"
    using n(1) by (simp_all add: nd mult_le_0_iff)
  ultimately show ?thesis
    using suf by (simp add: ParseMaxFailures_def Let_def trim_suffix_def pf int_of_float_def)
qed

theorem ParseMaxFailures_whole_witness: "ParseMaxFailures (\<lambda>_. 0) (nat_string 25) 1000 = Inr 25"
  using ParseMaxFailures_whole [of 25] by simp

text \<open>
  What is parsed is usable: a percentage always gives at least one host, and an accepted limit
  that is a finite number in the range of an integer gives at least one host.
\<close>

theorem ParseMaxFailures_positive:
  assumes "ParseMaxFailures conv v hosts = Inr k"
  shows "1 \<le> k \<or> (\<exists>x. ParseFloat v = Some x \<and> k = conv x \<and> (\<forall>m e. x = Fin m e \<longrightarrow> \<not> int_range (trunc_int m e)))"
proof (cases "has_suffix v ''%''")
  case True
  then show ?thesis
    using assms by (auto simp: ParseMaxFailures_def Let_def split: option.splits if_splits)
next
  case False
  then obtain x where x: "ParseFloat v = Some x" "\<not> less_eq_int x 0" "\<not> not_whole x" "k = int_of_float conv x"
    using assms by (auto simp: ParseMaxFailures_def Let_def trim_suffix_def split: option.splits if_splits)
  show ?thesis
  proof (cases x)
    case (Fin m e)
    obtain a b where ab: "num_den m e = (a, b)"
      by (cases "num_den m e")
    have "0 < b"
      using ab by (auto simp: num_den_def split: if_splits)
    moreover have "0 < a" "a mod b = 0"
      using x(2,3) Fin ab by (auto simp: not_le)
    ultimately have "1 \<le> a div b"
      by (metis int_one_le_iff_zero_less mod_0_imp_dvd pos_imp_zdiv_pos_iff zdvd_imp_le)
    then have "1 \<le> trunc_int m e"
      using ab \<open>0 < a\<close> by (simp add: trunc_int_def)
    then show ?thesis
      using x(1,4) Fin by (auto simp: int_of_float_def)
  qed (use x in \<open>auto simp: int_of_float_def\<close>)
qed

theorem ParseMaxFailures_positive_witness: "(1::int) \<le> 34"
proof -
  have p: "ParseMaxFailures (\<lambda>_. 0) ''1.1%'' 3000 = Inr 34"
    by code_simp
  have "has_suffix ''1.1%'' ''%''"
    by code_simp
  have "ParseFloat ''1.1%'' = None"
    by code_simp
  then show ?thesis
    using ParseMaxFailures_positive [OF p] by simp
qed

text \<open>
  The rounding of a percentage is that of floating point: 1.1 percent of 3000 hosts is 33 hosts, but the
  parsed limit is 34; and an infinite limit is accepted, with a result that depends on the machine.
\<close>

theorem ParseMaxFailures_rounding:
  "ParseMaxFailures conv ''1.1%'' 3000 = Inr 34 \<and> ParseMaxFailures conv ''inf'' 3000 = Inr (conv (Inf False))"
  by code_simp

end
