(* ===== verification/Progress.thy ===== *)
theory Progress
  imports Scheduler Go_Duration Max_Failures
begin

text \<open>
  \<open>logProgress\<close> of \<open>internal/runner/runner.go\<close>: the goroutine that logs how far a run is. At every tick it loads three
  counters of the run, one after the other and without a lock, while the run goes on.
\<close>

section \<open>The log\<close>

record progress_line =
  pg_done :: nat
  pg_total :: nat
  pg_running :: nat
  pg_failed :: nat
  pg_eta :: "string option"

text \<open>The channel the \<open>select\<close> received from: a tick, with the loaded counters and the time since the start, or the end.\<close>

datatype progress_event = Tick nat nat nat duration | Quit

text \<open>\<open>time.Duration(float64(time.Since(start)) / float64(d) * float64(int64(total)-d))\<close>\<close>

definition eta :: "(float64 \<Rightarrow> int) \<Rightarrow> duration \<Rightarrow> nat \<Rightarrow> nat \<Rightarrow> duration" where
  "eta conv since hosts d =
     int_of_float conv (fmul (fdiv (of_integer since) (of_integer (int d))) (of_integer (int hosts - int d)))"

definition progress_args :: "(float64 \<Rightarrow> int) \<Rightarrow> nat \<Rightarrow> nat \<Rightarrow> nat \<Rightarrow> nat \<Rightarrow> duration \<Rightarrow> progress_line" where
  "progress_args conv hosts d r f since =
     \<lparr>pg_done = d, pg_total = hosts, pg_running = r, pg_failed = f,
      pg_eta = (if d > 0 then Some (Duration_String (Duration_Round (eta conv since hosts d) Second)) else None)\<rparr>"

fun progress_loop :: "(float64 \<Rightarrow> int) \<Rightarrow> nat \<Rightarrow> progress_event list \<Rightarrow> progress_line list" where
  "progress_loop conv hosts [] = []"
| "progress_loop conv hosts (Quit # es) = []"
| "progress_loop conv hosts (Tick d r f since # es) =
     progress_args conv hosts d r f since # progress_loop conv hosts es"

definition logProgress :: "(float64 \<Rightarrow> int) \<Rightarrow> Options \<Rightarrow> nat \<Rightarrow> progress_event list \<Rightarrow> progress_line list" where
  "logProgress conv opts hosts es = (if o_Progress opts \<le> 0 then [] else progress_loop conv hosts es)"

section \<open>The estimate\<close>

lemma int_of_float_num:
  assumes "is_num x n" and "int_range n"
  shows "int_of_float conv x = n"
proof -
  obtain m e where x: "x = Fin m e"
    using assms(1) by (auto simp: is_num_def)
  obtain a b where ab: "num_den m e = (a, b)"
    by fastforce
  then have "a = n * b" "0 < b"
    using is_num_num_den assms(1) x by blast+
  then have "trunc_int m e = n"
    by (cases "n < 0") (simp_all add: trunc_int_def ab mult_less_0_iff flip: mult_minus_left)
  then show ?thesis
    using assms(2) by (simp add: int_of_float_def x)
qed

text \<open>When the hosts so far took \<open>k\<close> each, the estimate is \<open>k\<close> for each of the others, without a rounding error.\<close>

lemma eta_steady:
  assumes "0 < d" and "d \<le> hosts" and "int hosts < 2 ^ 53" and "0 \<le> k" and "k * int d < 2 ^ 53" and "k * (int hosts - int d) < 2 ^ 53"
  shows "eta conv (k * int d) hosts d = k * (int hosts - int d)"
proof -
  have "k * 1 \<le> k * int d"
    using assms(1,4) by (intro mult_left_mono) simp_all
  then have "is_num (fdiv (of_integer (k * int d)) (of_integer (int d))) k"
    using assms by (intro fdiv_num [of _ k "int d"] of_integer_num) simp_all
  moreover have "is_num (of_integer (int hosts - int d)) (int hosts - int d)"
    using assms by (intro of_integer_num) simp_all
  ultimately have "is_num (fmul (fdiv (of_integer (k * int d)) (of_integer (int d))) (of_integer (int hosts - int d))) (k * (int hosts - int d))"
    using assms by (intro fmul_num) simp_all
  then show ?thesis
    using assms unfolding eta_def by (intro int_of_float_num) (auto simp: int_range_def intro: order_trans [of _ 0])
qed

text \<open>When all hosts are done, nothing is left to wait for (in the first hundred days).\<close>

lemma eta_done:
  assumes "0 < d" and "int d < 2 ^ 53" and "0 \<le> since" and "since < 2 ^ 53"
  shows "eta conv since d d = 0"
proof -
  have x: "is_num (of_integer since) since" and y: "is_num (of_integer (int d)) (int d)"
    using assms by (simp_all add: of_integer_num)
  then obtain m e m' e' where xy: "of_integer since = Fin m e" "of_integer (int d) = Fin m' e'"
    by (auto simp: is_num_def)
  obtain a b c c' where nd: "num_den m e = (a, b)" "num_den m' e' = (c, c')"
    by fastforce
  have ab: "a = since * b" "0 < b" and cd: "c = int d * c'" "0 < c'"
    using is_num_num_den nd x y xy by simp_all
  have "since * (b * c') \<le> 2 ^ 53 * (b * c')" "1 * (b * c') \<le> int d * (b * c')" "0 < b * c'"
    using assms ab(2) cd(2) by (auto intro!: mult_right_mono)
  then have "a * c' < b * c * 2 ^ 64" "0 \<le> a * c'" "0 < b * c"
    using assms ab cd by (simp_all add: ac_simps)
  then obtain n q where "fdiv (of_integer since) (of_integer (int d)) = Fin n q"
    using round64_finite [of "a * c'" "b * c"] xy nd by auto
  then have "fmul (fdiv (of_integer since) (of_integer (int d))) (of_integer 0) = Fin 0 0"
    by (simp add: of_integer_def round64_def num_den_def)
  then have "is_num (fmul (fdiv (of_integer since) (of_integer (int d))) (of_integer (int d - int d))) 0"
    by (simp add: is_num_def)
  then show ?thesis
    unfolding eta_def by (intro int_of_float_num) (simp_all add: int_range_def)
qed

section \<open>The log of a run\<close>

text \<open>
  The ticks of a goroutine that watches a run: between the loads of the three counters, and between two ticks, the run
  makes any number of steps.
\<close>

inductive observes :: "'k Runner \<Rightarrow> (nat \<Rightarrow> HostResult \<Rightarrow> bool) \<Rightarrow> sched \<Rightarrow> progress_event list \<Rightarrow> bool"
  for R :: "'k Runner" and outcome :: "nat \<Rightarrow> HostResult \<Rightarrow> bool" where
  obs_end: "observes R outcome s []"
| obs_quit: "observes R outcome s [Quit]"
| obs_tick:
    "(run_step R outcome)\<^sup>*\<^sup>* s a \<Longrightarrow> (run_step R outcome)\<^sup>*\<^sup>* a b \<Longrightarrow> (run_step R outcome)\<^sup>*\<^sup>* b c \<Longrightarrow>
     0 \<le> since \<Longrightarrow> since < 2 ^ 53 \<Longrightarrow> observes R outcome c es \<Longrightarrow>
     observes R outcome s (Tick (sc_done a) (sc_running b) (sc_failed c) since # es)"

lemma counters_step:
  assumes "run_step R outcome s t"
  shows "sc_done s \<le> sc_done t \<and> sc_failed s \<le> sc_failed t"
  using assms by (cases rule: run_step.cases) auto

lemma counters_grow: "(run_step R outcome)\<^sup>*\<^sup>* s t \<Longrightarrow> sc_done s \<le> sc_done t \<and> sc_failed s \<le> sc_failed t"
  by (induction rule: rtranclp_induct) (use counters_step in \<open>force+\<close>)

lemma sum_list_le_length: "(\<And>x. f x \<le> (1 :: nat)) \<Longrightarrow> sum_list (map f xs) \<le> length xs"
  by (induction xs) (auto intro: add_le_mono [of _ 1, simplified])

text \<open>The counters of one moment: a host is not running and done at the same time, and the running ones hold a slot.\<close>

lemma counters_bound:
  assumes "sched_inv R outcome s"
  shows "sc_done s + sc_running s \<le> length (rn_Plans R) \<and> sc_running s \<le> conc R \<and> sc_failed s \<le> length (rn_Plans R)"
proof -
  have "dones g + running g \<le> 1" for g
    by (cases g rule: dones.cases) simp_all
  moreover have "running g \<le> slots g" for g
    by (cases g) simp_all
  moreover have "failures g \<le> 1" for g
    by (cases g rule: failures.cases) (simp_all add: failure_of_def)
  ultimately have "total (\<lambda>g. dones g + running g) s \<le> length (sc_stages s)" "total running s \<le> total slots s"
    "total failures s \<le> length (sc_stages s)"
    by (simp_all add: total_def sum_list_le_length sum_list_mono)
  then show ?thesis
    using assms by (auto simp: sched_inv_def inv_order_def inv_counts_def total_def sum_list_addf)
qed

text \<open>What a line may say.\<close>

definition line_ok :: "'k Runner \<Rightarrow> progress_line \<Rightarrow> bool" where
  "line_ok R l \<longleftrightarrow>
     pg_total l = length (rn_Plans R) \<and> pg_done l + pg_running l \<le> pg_total l \<and> pg_running l \<le> conc R \<and> pg_failed l \<le> pg_total l \<and>
     (pg_eta l = None) = (pg_done l = 0) \<and> (0 < pg_done l \<and> pg_done l = pg_total l \<longrightarrow> pg_eta l = Some ''0s'')"

lemma tick_ok:
  assumes "sched_inv R outcome s" and "(run_step R outcome)\<^sup>*\<^sup>* s a" and "(run_step R outcome)\<^sup>*\<^sup>* a b" and "(run_step R outcome)\<^sup>*\<^sup>* b c"
    and "0 \<le> since" and "since < 2 ^ 53" and "int (length (rn_Plans R)) < 2 ^ 53"
  shows "line_ok R (progress_args conv (length (rn_Plans R)) (sc_done a) (sc_running b) (sc_failed c) since)"
proof -
  have "sched_inv R outcome b" "sched_inv R outcome c"
    using sched.inv_steps assms(1-4) by (metis rtranclp_trans)+
  note b = counters_bound [OF this(1)] and c = counters_bound [OF this(2)]
  have "sc_done a \<le> sc_done b"
    using counters_grow [OF assms(3)] by simp
  moreover have "Duration_String (Duration_Round 0 Second) = ''0s''"
    by code_simp
  ultimately show ?thesis
    using b c eta_done [of "sc_done a" since conv] assms(5-7) by (auto simp: line_ok_def progress_args_def)
qed

text \<open>
  C30: The progress log can be trusted although its counters are read one by one while hosts start and finish: no line claims
  more hosts done and running together than the job has, or more running than the concurrency allows, or more failed
  than there are; the numbers of done and of failed hosts never go back from line to line; an estimate is there as soon as a
  host is done, and is \<open>0s\<close> once all are.
\<close>

theorem progress_consistent:
  assumes "reachable (run_init R) (run_step R outcome) s" and "observes R outcome s es" and "int (length (rn_Plans R)) < 2 ^ 53"
  shows "list_all (line_ok R) (logProgress conv (rn_opts R) (length (rn_Plans R)) es) \<and>
         sorted (map pg_done (logProgress conv (rn_opts R) (length (rn_Plans R)) es)) \<and>
         sorted (map pg_failed (logProgress conv (rn_opts R) (length (rn_Plans R)) es))"
proof -
  let ?loop = "progress_loop conv (length (rn_Plans R))"
  have "list_all (line_ok R) (?loop es) \<and> sorted (map pg_done (?loop es)) \<and> sorted (map pg_failed (?loop es)) \<and>
      (\<forall>l \<in> set (?loop es). sc_done s \<le> pg_done l \<and> sc_failed s \<le> pg_failed l)"
    if "sched_inv R outcome s" "observes R outcome s es" for s es
    using that(2,1)
  proof (induction rule: observes.induct)
    case (obs_tick s a b c since es)
    have "sched_inv R outcome c"
      using sched.inv_steps obs_tick by (metis rtranclp_trans)
    moreover have "sc_done s \<le> sc_done a" "sc_done a \<le> sc_done c" "sc_failed s \<le> sc_failed c"
      using counters_grow obs_tick(1-3) by (meson order_trans)+
    moreover have "line_ok R (progress_args conv (length (rn_Plans R)) (sc_done a) (sc_running b) (sc_failed c) since)"
      using tick_ok obs_tick assms(3) by blast
    ultimately show ?case
      using obs_tick.IH by (fastforce simp: progress_args_def)
  qed simp_all
  then show ?thesis
    using sched.inv_reachable [OF assms(1)] assms(2) by (simp add: logProgress_def)
qed

section \<open>An example\<close>

definition watched_runner :: "unit Runner" where
  "watched_runner = example_runner\<lparr>rn_opts := example_options\<lparr>o_Progress := 10 * Second\<rparr>\<rparr>"

lemma watched_fields [simp]: "length (rn_Plans watched_runner) = 1" "o_Progress (rn_opts watched_runner) = 10 * Second"
  by (simp_all add: watched_runner_def example_runner_def example_options_def)

lemma watched_reachable: "reachable (run_init watched_runner) (run_step watched_runner failing) fresh_run"
  by (rule reach_init) (simp add: run_init_def fresh_run_def watched_runner_def example_runner_def)

theorem progress_consistent_witness:
  "\<exists>d r f l l'. logProgress (\<lambda>_. 0) (rn_opts watched_runner) 1 [Tick 0 0 0 Second, Tick d r f (5 * Second), Quit] = [l, l'] \<and>
     pg_eta l = None \<and> pg_done l' = 1 \<and> pg_eta l' = Some ''0s''"
proof -
  obtain t rep where t: "(run_step watched_runner failing)\<^sup>*\<^sup>* fresh_run t"
    "reachable (run_init watched_runner) (run_step watched_runner failing) t" "sc_report t = Some rep"
    by (rule run_completes [OF watched_reachable]) (auto simp: failing_def)
  have st: "sc_stages t = map Over (rep_Hosts rep)"
    using report_over [OF t(2,3)] .
  then have d: "sc_done t = 1"
    using run_inv [OF t(2)] by (simp add: inv_counts_def inv_order_def total_def comp_def sum_list_triv)
  have "observes watched_runner failing fresh_run [Tick (sc_done fresh_run) (sc_running fresh_run) (sc_failed fresh_run) Second,
      Tick (sc_done t) (sc_running t) (sc_failed t) (5 * Second), Quit]"
    by (intro obs_tick [OF _ _ _ _ _ obs_tick [OF t(1) _ _ _ _ obs_quit]]) (simp_all add: Second_def)
  from progress_consistent [OF watched_reachable this, of "\<lambda>_. 0"] d show ?thesis
    by (intro exI [of _ "sc_done t"] exI [of _ "sc_running t"] exI [of _ "sc_failed t"])
      (simp add: logProgress_def fresh_run_def progress_args_def line_ok_def Second_def)
qed

end
