(* ===== verification/Validate.thy ===== *)
theory Validate
  imports Build Max_Failures "HOL-Library.Code_Target_Nat"
begin

text \<open>
  \<open>internal/job/job.go\<close>: the validation of a job and of its template references. Validation collects
  every problem it finds, in order. What \<open>regexp.Compile\<close> answers for a pattern (an error text or nothing)
  is a parameter.
\<close>

section \<open>Patterns\<close>

definition is_alnum :: "char \<Rightarrow> bool" where
  "is_alnum c \<longleftrightarrow> (CHR ''A'' \<le> c \<and> c \<le> CHR ''Z'') \<or> (CHR ''a'' \<le> c \<and> c \<le> CHR ''z'') \<or> is_digit c"

definition namePattern :: string where
  "namePattern = ''^[A-Za-z0-9][A-Za-z0-9._-]{0,127}$''"

definition match_name :: "string \<Rightarrow> bool" where
  "match_name s \<longleftrightarrow> s \<noteq> [] \<and> is_alnum (hd s) \<and> length (tl s) \<le> 127 \<and>
     list_all (\<lambda>c. is_alnum c \<or> c \<in> set ''._-'') (tl s)"

definition varPattern :: string where
  "varPattern = ''^[A-Za-z_][A-Za-z0-9_]{0,63}$''"

definition match_var :: "string \<Rightarrow> bool" where
  "match_var s \<longleftrightarrow> s \<noteq> [] \<and> is_alpha_us (hd s) \<and> length (tl s) \<le> 63 \<and> list_all is_name_char (tl s)"

definition is_octal :: "char \<Rightarrow> bool" where
  "is_octal c \<longleftrightarrow> CHR ''0'' \<le> c \<and> c \<le> CHR ''7''"

definition match_mode :: "string \<Rightarrow> bool" where
  "match_mode s \<longleftrightarrow> list_all is_octal s \<and> (length s = 3 \<or> length s = 4 \<and> hd s = CHR ''0'')"

section \<open>References\<close>

definition checkRefs :: "Job \<Rightarrow> string \<Rightarrow> string \<Rightarrow> bool \<Rightarrow> issues" where
  "checkRefs j txt loc allowSensitive =
     (case References txt of
        Inl err \<Rightarrow> [loc @ '': '' @ err]
      | Inr refs \<Rightarrow>
          concat (map (\<lambda>r.
            case map_of (job_Variables j) r of
              None \<Rightarrow> [loc @ '': undeclared variable '' @ fmt_q r]
            | Some v \<Rightarrow>
                if var_Sensitive v \<and> \<not> allowSensitive
                then [loc @ '': uses sensitive variable '' @ fmt_q r @ '' and must be marked sensitive: true'']
                else []) refs))"

section \<open>Validation\<close>

definition issue_if :: "bool \<Rightarrow> string \<Rightarrow> issues" where
  "issue_if b msg = (if b then [msg] else [])"

definition err_issue :: "string \<Rightarrow> string + unit \<Rightarrow> issues" where
  "err_issue pre r = (case r of Inl e \<Rightarrow> [pre @ e] | Inr _ \<Rightarrow> [])"

definition max_timeout_string :: string where
  "max_timeout_string = ''24h0m0s''"

definition validate_head :: "(float64 \<Rightarrow> int) \<Rightarrow> Job \<Rightarrow> issues" where
  "validate_head conv j =
     issue_if (\<not> match_name (job_Name j)) (''name is required and must match '' @ namePattern) @
     (if job_MaxFailures j = ''''
      then [''max_failures is required: e.g. '' @ fmt_q ''5'' @ '' hosts, '' @ fmt_q ''1%'' @ '' of hosts, or '' @
            fmt_q ''100%'' @ '' to never stop'']
      else (case ParseMaxFailures conv (job_MaxFailures j) 1 of Inl e \<Rightarrow> [''max_failures: '' @ e] | Inr _ \<Rightarrow> [])) @
     issue_if (def_Timeout (job_Defaults j) < 0 \<or> def_Timeout (job_Defaults j) > MaxTimeout \<or> def_RetryDelay (job_Defaults j) < 0)
       (''defaults: timeout must be 0-'' @ max_timeout_string @ '' and retry_delay >= 0'') @
     issue_if (def_Retries (job_Defaults j) < 0 \<or> def_Retries (job_Defaults j) > MaxRetries)
       (''defaults.retries must be 0-'' @ itoa MaxRetries)"

definition validate_variable :: "string \<times> Variable \<Rightarrow> issues" where
  "validate_variable nv =
     (let (name, v) = nv in
      issue_if (\<not> match_var name) (''variable '' @ fmt_q name @ '': name must match '' @ varPattern) @
      issue_if (var_Sensitive v \<and> var_Default v \<noteq> None)
        (''variable '' @ fmt_q name @ '': sensitive variables cannot have a default'') @
      (case var_Default v of
         None \<Rightarrow> []
       | Some d \<Rightarrow> err_issue (''variable '' @ fmt_q name @ '' default: '') (CheckValue d)))"

definition kinds :: "Step \<Rightarrow> nat" where
  "kinds s = length (filter id [st_Command s \<noteq> '''', st_Script s \<noteq> '''', st_Copy s \<noteq> None])"

definition validate_copy :: "string \<Rightarrow> Copy \<Rightarrow> issues" where
  "validate_copy loc c =
     issue_if (copy_Src c = '''' \<or> \<not> has_prefix (copy_Dest c) ''/'') (loc @ '': copy needs src and an absolute dest'') @
     err_issue (loc @ '': copy.dest: '') (CheckValue (copy_Dest c)) @
     issue_if (copy_Mode c \<noteq> '''' \<and> \<not> match_mode (copy_Mode c))
       (loc @ '': copy.mode '' @ fmt_q (copy_Mode c) @ '' must be octal like 0644'')"

definition validate_flags :: "nat \<Rightarrow> nat \<Rightarrow> string \<Rightarrow> Step \<Rightarrow> issues" where
  "validate_flags n i loc s =
     issue_if (st_Timeout s < 0 \<or> st_Timeout s > MaxTimeout \<or> st_RetryDelay s < 0)
       (loc @ '': timeout must be 0-'' @ max_timeout_string @ '' and retry_delay >= 0'') @
     (case st_Retries s of
        None \<Rightarrow> []
      | Some r \<Rightarrow> issue_if (r < 0 \<or> r > MaxRetries) (loc @ '': retries must be 0-'' @ itoa MaxRetries)) @
     (if st_Reboot s \<or> st_Disconnect s then
        issue_if (st_Copy s \<noteq> None) (loc @ '': reboot/disconnect apply to command and script steps'') @
        (case st_Retries s of
           None \<Rightarrow> []
         | Some r \<Rightarrow> issue_if (r > 0)
             (loc @ '': retries cannot be combined with reboot/disconnect (the command must not run twice)''))
      else []) @
     (if st_FireAndForget s then
        (if st_Command s = '''' then [loc @ '': fire_and_forget applies to command steps'']
         else if i + 1 \<noteq> n
           then [loc @ '': fire_and_forget must be the last step (the connection may be gone afterwards)'']
         else issue_if (st_Reboot s \<or> st_Disconnect s \<or> st_Retries s \<noteq> None \<or> st_Sensitive s \<or> st_Expect s \<noteq> Expect_zero)
           (loc @ '': fire_and_forget checks nothing, so it cannot be combined with reboot, disconnect, retries, '' @
            ''sensitive or expect''))
      else []) @
     issue_if (st_ReconnectTimeout s < 0 \<or> st_ReconnectTimeout s > MaxTimeout \<or>
         st_ReconnectTimeout s > 0 \<and> \<not> st_Reboot s \<and> \<not> st_Disconnect s)
       (loc @ '': reconnect_timeout needs reboot or disconnect and must be 0-'' @ max_timeout_string)"

definition expect_texts :: "Step \<Rightarrow> string list" where
  "expect_texts s = elems (ex_Contains (st_Expect s)) @ elems (ex_NotContains (st_Expect s))"

definition validate_expect :: "(string \<Rightarrow> string option) \<Rightarrow> string \<Rightarrow> Step \<Rightarrow> issues" where
  "validate_expect recompile loc s =
     (let e = st_Expect s in
      (case ex_ExitCode e of
         None \<Rightarrow> []
       | Some c \<Rightarrow> issue_if (c < 0 \<or> c > 255) (loc @ '': expect.exit_code must be 0-255'')) @
      (if length (ex_Regex e) > MaxRegexLen then [loc @ '': expect.regex longer than '' @ nat_string MaxRegexLen]
       else (case recompile (ex_Regex e) of Some err \<Rightarrow> [loc @ '': expect.regex: '' @ err] | None \<Rightarrow> [])) @
      concat (map (\<lambda>c. issue_if (c = '''') (loc @ '': expect contains/not_contains entries must not be empty''))
        (expect_texts s)))"

text \<open>The texts of a step that are rendered when it is built.\<close>

definition step_texts :: "Step \<Rightarrow> string list" where
  "step_texts s = [st_Command s] @ expect_texts s @ (case st_Copy s of None \<Rightarrow> [] | Some c \<Rightarrow> [copy_Dest c])"

definition validate_step ::
  "(string \<Rightarrow> string option) \<Rightarrow> Job \<Rightarrow> nat \<Rightarrow> string list \<Rightarrow> Step \<Rightarrow> issues" where
  "validate_step recompile j i seen s =
     (let loc = ''steps['' @ nat_string i @ '']'' in
      (if \<not> match_name (st_Name s) then [loc @ '': name is required and must match '' @ namePattern]
       else issue_if (st_Name s \<in> set seen) (loc @ '': duplicate step name '' @ fmt_q (st_Name s))) @
      issue_if (kinds s \<noteq> 1) (loc @ '': exactly one of command, script or copy is required'') @
      (case st_Copy s of None \<Rightarrow> [] | Some c \<Rightarrow> validate_copy loc c) @
      validate_flags (length (job_Steps j)) i loc s @
      validate_expect recompile loc s @
      concat (map (\<lambda>t. checkRefs j t loc (st_Sensitive s)) (step_texts s)) @
      issue_if (contains (ex_Regex (st_Expect s)) ''{{'') (loc @ '': expect.regex must not contain template references''))"

fun validate_steps :: "(string \<Rightarrow> string option) \<Rightarrow> Job \<Rightarrow> nat \<Rightarrow> string list \<Rightarrow> Step list \<Rightarrow> issues" where
  "validate_steps recompile j i seen [] = []"
| "validate_steps recompile j i seen (s # ss) =
     validate_step recompile j i seen s @ validate_steps recompile j (i + 1) (st_Name s # seen) ss"

definition Validate :: "(string \<Rightarrow> string option) \<Rightarrow> (float64 \<Rightarrow> int) \<Rightarrow> Job \<Rightarrow> issues + unit" where
  "Validate recompile conv j =
     (let iss = validate_head conv j @ concat (map validate_variable (job_Variables j)) @
                issue_if (job_Steps j = []) ''steps: at least one step is required'' @
                validate_steps recompile j 0 [] (job_Steps j)
      in if iss \<noteq> [] then Inl iss else Inr ())"


section \<open>What validation guarantees\<close>

definition refs_ok :: "Job \<Rightarrow> bool \<Rightarrow> string \<Rightarrow> bool" where
  "refs_ok j allowSensitive t \<longleftrightarrow>
     (\<exists>ns. References t = Inr ns \<and>
       (\<forall>n \<in> set ns. \<exists>v. map_of (job_Variables j) n = Some v \<and> (var_Sensitive v \<longrightarrow> allowSensitive)))"

lemma checkRefs_ok: "checkRefs j t loc al = [] \<longleftrightarrow> refs_ok j al t"
  by (auto simp: checkRefs_def refs_ok_def split: sum.splits option.splits if_splits)

lemma refs_ok_mono: "refs_ok j al t \<Longrightarrow> refs_ok j True t"
  unfolding refs_ok_def by blast

text \<open>Variable values for every declared variable.\<close>

definition covers :: "Job \<Rightarrow> (string, string) gomap \<Rightarrow> bool" where
  "covers j vars \<longleftrightarrow> fst ` set (job_Variables j) \<subseteq> fst ` set vars"

lemma issue_if_Nil [simp]: "issue_if b m = [] \<longleftrightarrow> \<not> b"
  by (simp add: issue_if_def)

lemma validate_steps_nth:
  "validate_steps rc j i seen ss = [] \<Longrightarrow> k < length ss \<Longrightarrow> \<exists>seen. validate_step rc j (i + k) seen (ss ! k) = []"
proof (induction ss arbitrary: i seen k)
  case (Cons s ss)
  then show ?case
  proof (cases k)
    case (Suc k')
    then show ?thesis
      using Cons.IH [of "i + 1" "st_Name s # seen" k'] Cons.prems by simp
  qed auto
qed simp

lemma Validate_step:
  assumes "Validate rc conv j = Inr ()" and "k < length (job_Steps j)"
  shows "\<exists>seen. validate_step rc j k seen (job_Steps j ! k) = []"
proof -
  have "validate_steps rc j 0 [] (job_Steps j) = []"
    using assms(1) by (auto simp: Validate_def Let_def split: if_splits)
  from validate_steps_nth [OF this assms(2)] show ?thesis
    by simp
qed

text \<open>The facts a valid step gives, for the proofs below.\<close>

lemma validate_stepD:
  assumes "validate_step rc j i seen s = []"
  shows "kinds s = 1" and "\<And>t. t \<in> set (step_texts s) \<Longrightarrow> refs_ok j (st_Sensitive s) t"
    and "validate_flags (length (job_Steps j)) i (''steps['' @ nat_string i @ '']'') s = []"
    and "\<And>c. st_Copy s = Some c \<Longrightarrow> validate_copy (''steps['' @ nat_string i @ '']'') c = []"
    and "validate_expect rc (''steps['' @ nat_string i @ '']'') s = []"
  using assms by (auto simp: validate_step_def Let_def checkRefs_ok)

section \<open>Building a valid job\<close>

lemma Render_refs_ok:
  assumes "refs_ok j al t" and "covers j vars"
  shows "\<exists>r. Render t vars = Inr r"
proof -
  obtain ns where ns: "References t = Inr ns" "\<And>n. n \<in> set ns \<Longrightarrow> \<exists>v. map_of (job_Variables j) n = Some v"
    using assms(1) unfolding refs_ok_def by blast
  have "n \<in> fst ` set vars" if n: "n \<in> set ns" for n
  proof -
    obtain v where "(n, v) \<in> set (job_Variables j)"
      using ns(2) [OF n] map_of_SomeD by fast
    then show ?thesis
      using assms(2) unfolding covers_def by force
  qed
  then have "is_ok (Render t vars)"
    unfolding Render_ok_iff using ns(1) by blast
  then show ?thesis
    by (cases "Render t vars") (auto simp: is_ok_def)
qed



lemma build_valid:
  assumes "validate_step rc j i seen s = []" and "covers j vars"
    and "\<And>c. st_Copy s = Some c \<Longrightarrow> copy_Template c \<Longrightarrow> \<exists>b. copy_body c = Some b \<and> refs_ok j True b"
  shows "\<exists>a. build j s vars cfg = Inr a"
proof -
  note d = validate_stepD [OF assms(1)]
  have r: "\<exists>r. Render t vars = Inr r" if "t \<in> set (step_texts s)" for t
    using Render_refs_ok [OF d(2) [OF that] assms(2)] by blast
  have c: "\<exists>cs. renderAll (elems (ex_Contains (st_Expect s))) vars = Inr cs"
    unfolding renderAll_def by (rule map_result_total) (simp add: r step_texts_def expect_texts_def)
  have n: "\<exists>cs. renderAll (elems (ex_NotContains (st_Expect s))) vars = Inr cs"
    unfolding renderAll_def by (rule map_result_total) (simp add: r step_texts_def expect_texts_def)
  have k: "\<exists>a'. build_kind s vars a = Inr a'" for a
  proof (cases "st_Command s = '''' \<and> st_Script s = ''''")
    case True
    show ?thesis
    proof (cases "st_Copy s")
      case (Some cp)
      then have "\<exists>x. Render (copy_Dest cp) vars = Inr x"
        using r [of "copy_Dest cp"] by (simp add: step_texts_def)
      moreover have "\<exists>x. Render (case copy_body cp of None \<Rightarrow> '''' | Some b \<Rightarrow> b) vars = Inr x" if "copy_Template cp"
        using assms(3) [OF Some that] Render_refs_ok [OF _ assms(2), where al = True] by fastforce
      ultimately show ?thesis
        using True Some by (auto simp: build_kind_def result_simps Let_def)
    qed (use True in \<open>simp add: build_kind_def\<close>)
  next
    case False
    then show ?thesis
      using r [of "st_Command s"] by (auto simp: build_kind_def result_simps step_texts_def)
  qed
  from c n k show ?thesis
    by (auto simp: build_def result_simps)
qed


text \<open>
  Rendering looks at no variable but the referenced ones, so two assignments that agree on them give the
  same text.
\<close>

lemma replace_refs_cong:
  "(\<And>n. n \<in> snd ` set (find_refs pos s) \<Longrightarrow> map_of vars n = map_of vars' n) \<Longrightarrow> replace_refs vars s = replace_refs vars' s"
proof (induction pos s rule: find_refs.induct)
  case (1 pos s)
  show ?case
  proof (cases s)
    case (Cons c s')
    show ?thesis
    proof (cases "match_ref s")
      case None
      then have "find_refs pos s = find_refs (pos + 1) s'"
        using Cons by (subst find_refs.simps) simp
      then show ?thesis
        using "1.IH"(1) [OF Cons None] "1.prems" None Cons by (simp add: replace_refs_None)
    next
      case (Some nr)
      obtain name rest where nr: "nr = (name, rest)"
        by (cases nr)
      then have "find_refs pos s = (pos, name) # find_refs (pos + (length s - length rest)) rest"
        using Cons Some by (subst find_refs.simps) simp
      then show ?thesis
        using "1.IH"(2) [OF Cons Some nr [symmetric]] "1.prems" Some nr by (simp add: replace_refs_Some split: option.splits)
    qed
  qed simp
qed

lemma Render_cong:
  assumes "References t = Inr ns" and "\<And>n. n \<in> set ns \<Longrightarrow> map_of vars n = map_of vars' n"
  shows "Render t vars = Render t vars'"
proof -
  have "replace_refs vars t = replace_refs vars' t"
    using References_Inr [OF assms(1)] assms(2) by (intro replace_refs_cong [where pos = 0]) auto
  then show ?thesis
    by (simp add: Render_def)
qed

text \<open>Two assignments that differ at most on sensitive variables.\<close>

definition agree_public :: "Job \<Rightarrow> (string, string) gomap \<Rightarrow> (string, string) gomap \<Rightarrow> bool" where
  "agree_public j vars vars' \<longleftrightarrow>
     (\<forall>(n, v) \<in> set (job_Variables j). \<not> var_Sensitive v \<longrightarrow> map_of vars n = map_of vars' n)"

lemma Render_public:
  assumes "refs_ok j False t" and "agree_public j vars vars'"
  shows "Render t vars = Render t vars'"
proof -
  obtain ns where ns: "References t = Inr ns"
    and decl: "\<And>n. n \<in> set ns \<Longrightarrow> \<exists>v. map_of (job_Variables j) n = Some v \<and> \<not> var_Sensitive v"
    using assms(1) unfolding refs_ok_def by blast
  have "map_of vars n = map_of vars' n" if "n \<in> set ns" for n
    using decl [OF that] assms(2) by (auto simp: agree_public_def dest!: map_of_SomeD)
  then show ?thesis
    by (rule Render_cong [OF ns])
qed

lemma map_result_cong: "(\<And>x. x \<in> set xs \<Longrightarrow> f x = g x) \<Longrightarrow> map_result f xs = map_result g xs"
  by (induction xs) auto

text \<open>
  C7: Validation confines sensitive variables: in a valid job, what is shown, compared or put on a
  command line for a step that is not marked sensitive (its display, its command, its target path and
  its expected texts) does not depend on the values of the sensitive variables. Only uploaded content
  may.
\<close>

theorem Validate_noninterference:
  assumes "Validate rc conv j = Inr ()" and "k < length (job_Steps j)" and "\<not> st_Sensitive (job_Steps j ! k)"
    and "agree_public j vars vars'"
    and "build j (job_Steps j ! k) vars cfg = Inr a" and "build j (job_Steps j ! k) vars' cfg = Inr a'"
  shows "a\<lparr>act_Content := None\<rparr> = a'\<lparr>act_Content := None\<rparr>"
proof -
  let ?s = "job_Steps j ! k"
  obtain seen where v: "validate_step rc j k seen ?s = []"
    using Validate_step [OF assms(1,2)] by blast
  have r: "Render t vars = Render t vars'" if "t \<in> set (step_texts ?s)" for t
    using Render_public [OF _ assms(4)] validate_stepD(2) [OF v that] assms(3) by simp
  have "renderAll (elems (ex_Contains (st_Expect ?s))) vars = renderAll (elems (ex_Contains (st_Expect ?s))) vars'"
    "renderAll (elems (ex_NotContains (st_Expect ?s))) vars = renderAll (elems (ex_NotContains (st_Expect ?s))) vars'"
    unfolding renderAll_def by (rule map_result_cong, rule r, simp add: step_texts_def expect_texts_def)+
  then obtain cs ncs b b' where
      b: "build_kind ?s vars ((build_base j ?s cfg)\<lparr>act_Contains := cs, act_NotContains := ncs\<rparr>) = Inr b" "a = build_mask b"
    and b': "build_kind ?s vars' ((build_base j ?s cfg)\<lparr>act_Contains := cs, act_NotContains := ncs\<rparr>) = Inr b'" "a' = build_mask b'"
    using assms(5,6) by (auto simp: build_def result_simps)
  have "b\<lparr>act_Content := None\<rparr> = b'\<lparr>act_Content := None\<rparr>"
    using b(1) b'(1) r [of "st_Command ?s"] r [of "copy_Dest (the (st_Copy ?s))"]
    by (auto simp: build_kind_def result_simps step_texts_def Let_def split: if_splits option.splits)
  moreover have "\<not> act_Sensitive b" "\<not> act_Sensitive b'"
    using build_kind_keeps [OF b(1)] build_kind_keeps [OF b'(1)] assms(3) by (simp_all add: build_base_def Let_def)
  ultimately show ?thesis
    using b(2) b'(2) by (simp add: build_mask_def)
qed


section \<open>Bounds\<close>

lemma validate_flagsD:
  assumes "validate_flags n i loc s = []"
  shows "0 \<le> st_Timeout s \<and> st_Timeout s \<le> MaxTimeout"
    and "\<And>r. st_Retries s = Some r \<Longrightarrow> 0 \<le> r \<and> r \<le> MaxRetries"
    and "0 \<le> st_ReconnectTimeout s \<and> st_ReconnectTimeout s \<le> MaxTimeout"
    and "st_FireAndForget s \<Longrightarrow>
      st_Command s \<noteq> '''' \<and> i + 1 = n \<and> \<not> st_Reboot s \<and> \<not> st_Disconnect s \<and> \<not> st_Sensitive s"
  using assms by (auto simp: validate_flags_def split: if_splits)

lemma validate_expectD:
  "validate_expect rc loc s = [] \<Longrightarrow> ex_ExitCode (st_Expect s) = Some c \<Longrightarrow> 0 \<le> c \<and> c \<le> 255"
  by (simp add: validate_expect_def Let_def)

lemma build_fields:
  assumes "build j s vars cfg = Inr a"
  shows "act_Retries a = act_Retries (build_base j s cfg)" and "act_ExitCode a = act_ExitCode (build_base j s cfg)"
    and "act_Timeout a = act_Timeout (build_base j s cfg)"
    and "act_ReconnectTimeout a = act_ReconnectTimeout (build_base j s cfg)"
    and "act_Disconnect a = (st_Reboot s \<or> st_Disconnect s)" and "act_FireAndForget a = st_FireAndForget s"
    and "st_Command s \<noteq> '''' \<Longrightarrow> \<not> st_Sensitive s \<Longrightarrow> act_Content a = None"
proof -
  obtain cs ncs a' where
    b: "build_kind s vars ((build_base j s cfg)\<lparr>act_Contains := cs, act_NotContains := ncs\<rparr>) = Inr a'"
    and a: "a = build_mask a'"
    using build_InrD [OF assms] by blast
  note k = build_kind_keeps [OF b]
  show "act_ExitCode a = act_ExitCode (build_base j s cfg)"
    using b a by (auto simp: build_kind_def build_mask_def result_simps Let_def split: if_splits option.splits)
  show "st_Command s \<noteq> '''' \<Longrightarrow> \<not> st_Sensitive s \<Longrightarrow> act_Content a = None"
    using b a by (auto simp: build_kind_def build_mask_def build_base_def result_simps Let_def)
  show "act_Retries a = act_Retries (build_base j s cfg)" "act_Timeout a = act_Timeout (build_base j s cfg)"
    "act_ReconnectTimeout a = act_ReconnectTimeout (build_base j s cfg)"
    using k a by simp_all
  show "act_Disconnect a = (st_Reboot s \<or> st_Disconnect s)" "act_FireAndForget a = st_FireAndForget s"
    using k a by (simp_all add: build_base_def Let_def)
qed

text \<open>
  C28: The numbers of a valid job stay in their limits when its steps are built: every step is tried
  at most eleven times, an expected exit code is a byte, a disconnecting step waits a positive time of at
  most a day, a step that is fired and forgotten is the last one, and, where the defaults given on the command
  line are in range, every step has a timeout of at most a day.
\<close>

theorem Validate_build_bounds:
  assumes "Validate rc conv j = Inr ()" and "k < length (job_Steps j)" and "build j (job_Steps j ! k) vars cfg = Inr a"
    and "0 < set_Timeout cfg" and "set_Timeout cfg \<le> MaxTimeout"
  shows "0 \<le> act_Retries a \<and> act_Retries a \<le> MaxRetries \<and> 0 \<le> act_ExitCode a \<and> act_ExitCode a \<le> 255 \<and>
         0 < act_Timeout a \<and> act_Timeout a \<le> MaxTimeout \<and>
         (act_Disconnect a \<longrightarrow> 0 < act_ReconnectTimeout a \<and> act_ReconnectTimeout a \<le> MaxTimeout) \<and>
         (act_FireAndForget a \<longrightarrow> k + 1 = length (job_Steps j) \<and> \<not> act_Disconnect a \<and> act_Content a = None)"
proof -
  let ?s = "job_Steps j ! k"
  obtain seen where v: "validate_step rc j k seen ?s = []"
    using Validate_step [OF assms(1,2)] by blast
  note f = validate_flagsD [OF validate_stepD(3) [OF v]] and e = validate_expectD [OF validate_stepD(5) [OF v]]
  note d = build_fields [OF assms(3)]
  have hd: "0 \<le> def_Retries (job_Defaults j)" "def_Retries (job_Defaults j) \<le> MaxRetries"
    "0 \<le> def_Timeout (job_Defaults j)" "def_Timeout (job_Defaults j) \<le> MaxTimeout"
    using assms(1) by (auto simp: Validate_def validate_head_def Let_def split: if_splits)
  have "0 \<le> act_Retries a \<and> act_Retries a \<le> MaxRetries"
    unfolding d(1) using f(2) hd by (auto simp: build_base_def Let_def MaxRetries_def split: option.splits)
  moreover have "0 \<le> act_ExitCode a \<and> act_ExitCode a \<le> 255"
    unfolding d(2) using e by (auto simp: build_base_def Let_def split: option.splits)
  moreover have "0 < act_Timeout a \<and> act_Timeout a \<le> MaxTimeout"
    unfolding d(3) using f(1) hd assms(4,5) by (auto simp: build_base_def Let_def)
  moreover have "0 < act_ReconnectTimeout a \<and> act_ReconnectTimeout a \<le> MaxTimeout" if "act_Disconnect a"
    using that f(3) unfolding d(4,5)
    by (auto simp: build_base_def Let_def DefaultRebootTimeout_def DefaultDisconnectTimeout_def MaxTimeout_def duration_defs)
  moreover have "k + 1 = length (job_Steps j) \<and> \<not> act_Disconnect a \<and> act_Content a = None" if "act_FireAndForget a"
    using that f(4) d(5-7) by simp
  ultimately show ?thesis
    by blast
qed


section \<open>A valid job\<close>

definition valid_job :: Job where
  "valid_job =
     example_job\<lparr>job_Steps :=
       [example_step\<lparr>st_Name := ''conf'', st_Command := '''', st_Sensitive := False, st_Reboot := False,
          st_Copy := Some \<lparr>copy_Src = ''a.conf'', copy_Dest = ''/etc/a.conf'', copy_Mode = ''0644'', copy_Template = True,
            copy_body = None\<rparr>\<rparr>,
        example_step\<lparr>st_Name := ''ask'', st_Command := ''ntpdate {{ .server }}'', st_Sensitive := False, st_Reboot := False\<rparr>]\<rparr>"

definition public_values :: "string \<Rightarrow> (string, string) gomap" where
  "public_values tok = [(''server'', ''ntp1''), (''token'', tok)]"

lemma valid_job_ok: "Validate (\<lambda>_. None) (\<lambda>_. 0) valid_job = Inr ()"
  by code_simp

lemma valid_job_build:
  "build valid_job (job_Steps valid_job ! 1) (public_values tok) example_settings =
     Inr (projr (build valid_job (job_Steps valid_job ! 1) (public_values ''x'') example_settings))"
  by code_simp

theorem Validate_noninterference_witness:
  "(projr (build valid_job (job_Steps valid_job ! 1) (public_values ''s3cret'') example_settings))\<lparr>act_Content := None\<rparr> =
   (projr (build valid_job (job_Steps valid_job ! 1) (public_values ''other'') example_settings))\<lparr>act_Content := None\<rparr>"
proof -
  have k: "1 < length (job_Steps valid_job)" "\<not> st_Sensitive (job_Steps valid_job ! 1)"
    by (simp_all add: valid_job_def)
  have a: "agree_public valid_job (public_values ''s3cret'') (public_values ''other'')"
    by code_simp
  have b: "build valid_job (job_Steps valid_job ! 1) (public_values tok) example_settings =
      Inr (projr (build valid_job (job_Steps valid_job ! 1) (public_values tok) example_settings))" for tok
    using valid_job_build [of tok] by simp
  show ?thesis
    by (rule Validate_noninterference [OF valid_job_ok k a b b])
qed

theorem Validate_build_bounds_witness:
  "act_Retries (projr (build valid_job (job_Steps valid_job ! 1) (public_values ''x'') example_settings)) \<le> MaxRetries"
proof -
  have k: "1 < length (job_Steps valid_job)"
    by (simp add: valid_job_def)
  have t: "0 < set_Timeout example_settings" "set_Timeout example_settings \<le> MaxTimeout"
    by (simp_all add: example_settings_def MaxTimeout_def duration_defs)
  show ?thesis
    using Validate_build_bounds [OF valid_job_ok k valid_job_build [of "''x''"] t] by blast
qed

end
