(* ===== verification/Load_Job.thy ===== *)
theory Load_Job
  imports Validate Credentials
begin

text \<open>
  \<open>Load\<close>, \<open>Parse\<close> and \<open>ReadFile\<close> of \<open>internal/job/job.go\<close>: reading a job file with the scripts and files it
  names. The file system, the YAML decoder (\<open>gopkg.in/yaml.v3\<close>) and the hash are parameters.
\<close>

text \<open>What opening and reading a path gives.\<close>

datatype file_entry = OpenError string | StatError string | NotRegular | ReadError string | Content string

definition ReadFile :: "(string \<Rightarrow> file_entry) \<Rightarrow> string \<Rightarrow> int \<Rightarrow> string + string" where
  "ReadFile fs path limit =
     (case fs path of
        OpenError e \<Rightarrow> Inl e
      | StatError e \<Rightarrow> Inl e
      | NotRegular \<Rightarrow> Inl (path @ '': not a regular file'')
      | ReadError e \<Rightarrow> Inl e
      | Content d \<Rightarrow>
          (let data = take (nat (limit + 1)) d in
           if int (length data) > limit then Inl (path @ '': file exceeds '' @ itoa limit @ '' bytes'') else Inr data))"

text \<open>
  \<open>UnmarshalYAML\<close> of a \<open>StringList\<close>: a scalar is a list of one; any other node is what the decoder makes of
  it as a list of strings.
\<close>

datatype yaml_node = ScalarNode string | OtherNode "string + string list"

fun UnmarshalYAML :: "yaml_node \<Rightarrow> string + string list" where
  "UnmarshalYAML (ScalarNode v) = Inr [v]"
| "UnmarshalYAML (OtherNode (Inl err)) = Inl err"
| "UnmarshalYAML (OtherNode (Inr s)) = Inr s"

text \<open>The answers of the YAML decoder: an empty file, an error, or a job.\<close>

datatype decoded = DecodeEOF | DecodeError string | Decoded Job

record job_env =
  je_isdir :: "string \<Rightarrow> bool"
  je_fs :: "string \<Rightarrow> file_entry"
  je_decode :: "string \<Rightarrow> decoded"
  je_sha256 :: "string \<Rightarrow> string"
  je_recompile :: "string \<Rightarrow> string option"
  je_conv :: "float64 \<Rightarrow> int"

definition Parse :: "job_env \<Rightarrow> string \<Rightarrow> issues + Job" where
  "Parse E data =
     (case je_decode E data of
        DecodeEOF \<Rightarrow> Inl [''file is empty'']
      | DecodeError e \<Rightarrow> Inl [''YAML: '' @ e]
      | Decoded j0 \<Rightarrow>
          (let j = j0\<lparr>job_Hash := je_sha256 E data\<rparr> in
           bind_result (Validate (je_recompile E) (je_conv E) j) (\<lambda>_. Inr j)))"

text \<open>\<open>filepath.Dir\<close>: everything before the last slash, cleaned.\<close>

definition path_dir :: "string \<Rightarrow> string" where
  "path_dir p = path_clean (rev (dropWhile (\<lambda>c. c \<noteq> CHR ''/'') (rev p)))"

definition DefaultFile :: string where
  "DefaultFile = ''job.yaml''"

text \<open>One step of the loop of \<open>Load\<close>: the step with its files, what is hashed, and the issues.\<close>

definition load_step :: "job_env \<Rightarrow> Job \<Rightarrow> string \<Rightarrow> Step \<Rightarrow> Step \<times> string \<times> issues" where
  "load_step E j dir s =
     (if st_Script s \<noteq> '''' then
        (case ReadFile (je_fs E) (path_join dir (st_Script s)) MaxFileSize of
           Inl e \<Rightarrow> (s\<lparr>st_scriptBody := ''''\<rparr>, '''', [''step '' @ fmt_q (st_Name s) @ '': '' @ e])
         | Inr body \<Rightarrow> (s\<lparr>st_scriptBody := body\<rparr>, body, []))
      else
        (case st_Copy s of
           None \<Rightarrow> (s, '''', [])
         | Some c \<Rightarrow>
             (case ReadFile (je_fs E) (path_join dir (copy_Src c)) MaxCopySize of
                Inl e \<Rightarrow> (s\<lparr>st_Copy := Some (c\<lparr>copy_body := None\<rparr>)\<rparr>, '''', [''step '' @ fmt_q (st_Name s) @ '': '' @ e])
              | Inr body \<Rightarrow>
                  (s\<lparr>st_Copy := Some (c\<lparr>copy_body := Some body\<rparr>)\<rparr>, body,
                   if copy_Template c then checkRefs j body (''step '' @ fmt_q (st_Name s) @ '' copy.src'') True else []))))"

datatype load_error = FileError string | Invalid issues

definition Load :: "job_env \<Rightarrow> string \<Rightarrow> load_error + Job" where
  "Load E path0 =
     (let path = (if je_isdir E path0 then path_join path0 DefaultFile else path0) in
      case ReadFile (je_fs E) path MaxFileSize of
        Inl e \<Rightarrow> Inl (FileError e)
      | Inr data \<Rightarrow>
          (case Parse E data of
             Inl iss \<Rightarrow> Inl (Invalid iss)
           | Inr j0 \<Rightarrow>
               (let j = j0\<lparr>job_Path := path\<rparr>;
                    rs = map (load_step E j (path_dir path)) (job_Steps j);
                    iss = concat (map (snd \<circ> snd) rs)
                in if iss \<noteq> [] then Inl (Invalid iss)
                   else Inr (j\<lparr>job_Steps := map fst rs, job_Hash := je_sha256 E (data @ concat (map (fst \<circ> snd) rs))\<rparr>))))"

section \<open>A loaded job can be built\<close>

text \<open>What loading adds to a step does not matter to validation.\<close>

lemma validate_step_cong:
  assumes "kinds t = kinds s" and "step_texts t = step_texts s"
    and "\<And>loc. validate_expect rc loc t = validate_expect rc loc s"
    and "\<And>n loc. validate_flags n i loc t = validate_flags n i loc s"
    and "\<And>loc. (case st_Copy t of None \<Rightarrow> [] | Some c \<Rightarrow> validate_copy loc c) =
               (case st_Copy s of None \<Rightarrow> [] | Some c \<Rightarrow> validate_copy loc c)"
    and "st_Name t = st_Name s" and "st_Sensitive t = st_Sensitive s" and "st_Expect t = st_Expect s"
  shows "validate_step rc j i seen t = validate_step rc j i seen s"
  unfolding validate_step_def Let_def assms ..

lemma validate_step_script: "validate_step rc j i seen (s\<lparr>st_scriptBody := b\<rparr>) = validate_step rc j i seen s"
  by (rule validate_step_cong)
    (simp_all add: kinds_def expect_texts_def step_texts_def validate_expect_def validate_flags_def)

lemma validate_step_copy:
  assumes "st_Copy s = Some c"
  shows "validate_step rc j i seen (s\<lparr>st_Copy := Some (c\<lparr>copy_body := b\<rparr>)\<rparr>) = validate_step rc j i seen s"
  by (rule validate_step_cong)
    (simp_all add: assms kinds_def expect_texts_def step_texts_def validate_expect_def validate_flags_def validate_copy_def)

lemma load_step_cases:
  assumes "load_step E j dir s = (s', h, [])"
  obtains (script) b where "st_Script s \<noteq> ''''" "s' = s\<lparr>st_scriptBody := b\<rparr>" "h = b"
      "ReadFile (je_fs E) (path_join dir (st_Script s)) MaxFileSize = Inr b"
  | (command) "st_Script s = ''''" "st_Copy s = None" "s' = s"
  | (copied) c b where "st_Script s = ''''" "st_Copy s = Some c" "s' = s\<lparr>st_Copy := Some (c\<lparr>copy_body := Some b\<rparr>)\<rparr>" "h = b"
      "ReadFile (je_fs E) (path_join dir (copy_Src c)) MaxCopySize = Inr b" "copy_Template c \<Longrightarrow> refs_ok j True b"
proof (cases "st_Script s = ''''")
  case False
  show thesis
  proof (cases "ReadFile (je_fs E) (path_join dir (st_Script s)) MaxFileSize")
    case (Inl e)
    then show thesis
      using assms False by (simp add: load_step_def)
  next
    case (Inr b)
    then show thesis
      using assms False by (intro script [of b]) (auto simp: load_step_def)
  qed
next
  case True
  show thesis
  proof (cases "st_Copy s")
    case None
    then show thesis
      using assms True by (intro command) (simp_all add: load_step_def)
  next
    case (Some c)
    show thesis
    proof (cases "ReadFile (je_fs E) (path_join dir (copy_Src c)) MaxCopySize")
      case (Inl e)
      then show thesis
        using assms True Some by (simp add: load_step_def)
    next
      case (Inr b)
      then show thesis
        using assms True Some by (intro copied [of c b]) (auto simp: load_step_def checkRefs_ok)
    qed
  qed
qed

lemma load_step_keeps:
  assumes "load_step E j dir s = (s', h, [])"
  shows "validate_step rc j' i seen s' = validate_step rc j' i seen s \<and> st_Name s' = st_Name s"
  using assms by (cases rule: load_step_cases) (simp_all add: validate_step_script validate_step_copy)

lemma load_steps_keep:
  "(\<And>s. s \<in> set ss \<Longrightarrow> snd (snd (load_step E j dir s)) = []) \<Longrightarrow>
   validate_steps rc j' i seen (map (fst \<circ> load_step E j dir) ss) = validate_steps rc j' i seen ss"
proof (induction ss arbitrary: i seen)
  case (Cons s ss)
  have "load_step E j dir s = (fst (load_step E j dir s), fst (snd (load_step E j dir s)), [])"
    using Cons.prems [of s] by (metis list.set_intros(1) prod.collapse)
  from load_step_keeps [OF this] show ?case
    using Cons.IH Cons.prems by (simp add: comp_def)
qed simp

text \<open>Validation of the steps only looks at the number of steps and the variables of the job.\<close>

lemma validate_step_job:
  assumes "length (job_Steps j) = length (job_Steps j')" and "job_Variables j = job_Variables j'"
  shows "validate_step rc j i seen s = validate_step rc j' i seen s"
proof -
  have "checkRefs j t loc al = checkRefs j' t loc al" for t loc al
    unfolding checkRefs_def assms(2) ..
  then show ?thesis
    using assms(1) by (simp add: validate_step_def)
qed

lemma validate_steps_job:
  assumes "length (job_Steps j) = length (job_Steps j')" and "job_Variables j = job_Variables j'"
  shows "validate_steps rc j i seen ss = validate_steps rc j' i seen ss"
  using validate_step_job [OF assms] by (induction ss arbitrary: i seen) simp_all

text \<open>What a loaded job is: valid, with every file it needs.\<close>

lemma Load_InrD:
  assumes "Load E path = Inr j"
  obtains j0 dir data where "Validate (je_recompile E) (je_conv E) j0 = Inr ()"
    "job_Steps j = map (fst \<circ> load_step E j0 dir) (job_Steps j0)"
    "\<And>s. s \<in> set (job_Steps j0) \<Longrightarrow> snd (snd (load_step E j0 dir s)) = []"
    "job_Name j = job_Name j0" "job_MaxFailures j = job_MaxFailures j0"
    "job_Variables j = job_Variables j0" "job_Defaults j = job_Defaults j0"
proof -
  define path' where "path' = (if je_isdir E path then path_join path DefaultFile else path)"
  obtain data j1 where r: "ReadFile (je_fs E) path' MaxFileSize = Inr data" and p: "Parse E data = Inr j1"
    using assms by (auto simp: Load_def Let_def path'_def split: sum.splits)
  let ?j0 = "j1\<lparr>job_Path := path'\<rparr>" and ?dir = "path_dir path'"
  let ?rs = "map (load_step E ?j0 ?dir) (job_Steps ?j0)"
  have l: "concat (map (snd \<circ> snd) ?rs) = []"
    and j: "j = ?j0\<lparr>job_Steps := map fst ?rs, job_Hash := je_sha256 E (data @ concat (map (fst \<circ> snd) ?rs))\<rparr>"
    using assms r p by (auto simp: Load_def Let_def path'_def split: if_splits)
  have "Validate (je_recompile E) (je_conv E) j1 = Inr ()"
    using p by (auto simp: Parse_def Let_def result_simps split: decoded.splits)
  moreover have "Validate rc conv ?j0 = Validate rc conv j1" for rc conv
    using validate_steps_job [of ?j0 j1 rc 0 "[]" "job_Steps j1"] by (simp add: Validate_def validate_head_def)
  ultimately have "Validate (je_recompile E) (je_conv E) ?j0 = Inr ()"
    by simp
  moreover have "snd (snd (load_step E ?j0 ?dir s)) = []" if "s \<in> set (job_Steps ?j0)" for s
    using l that by auto
  ultimately show thesis
    using that [of ?j0 ?dir] j by simp
qed

lemma Load_valid:
  assumes "Load E path = Inr j"
  shows "Validate (je_recompile E) (je_conv E) j = Inr ()"
proof -
  obtain j0 dir where v: "Validate (je_recompile E) (je_conv E) j0 = Inr ()"
    and st: "job_Steps j = map (fst \<circ> load_step E j0 dir) (job_Steps j0)"
    and ok: "\<And>s. s \<in> set (job_Steps j0) \<Longrightarrow> snd (snd (load_step E j0 dir s)) = []"
    and eq: "job_Name j = job_Name j0" "job_MaxFailures j = job_MaxFailures j0"
      "job_Variables j = job_Variables j0" "job_Defaults j = job_Defaults j0"
    using Load_InrD [OF assms] by metis
  have "validate_steps rc j 0 [] (job_Steps j) = validate_steps rc j0 0 [] (job_Steps j0)" for rc
    using validate_steps_job [of j j0 rc 0 "[]" "job_Steps j"] load_steps_keep [OF ok] st eq(3) by simp
  moreover have "(job_Steps j = []) = (job_Steps j0 = [])"
    using st by simp
  moreover have "validate_head (je_conv E) j = validate_head (je_conv E) j0"
    by (simp only: validate_head_def eq)
  ultimately have "Validate (je_recompile E) (je_conv E) j = Validate (je_recompile E) (je_conv E) j0"
    by (simp only: Validate_def eq)
  then show ?thesis
    using v by simp
qed

lemma Build_total:
  assumes "\<And>s. s \<in> set (job_Steps j) \<Longrightarrow> \<exists>a. build j s vars cfg = Inr a"
  shows "\<exists>acts. Build j vars cfg = Inr acts"
  unfolding Build_def
proof (rule map_result_total)
  fix s
  assume "s \<in> set (job_Steps j)"
  then obtain a where "build j s vars cfg = Inr a"
    using assms by blast
  then show "\<exists>y. (case build j s vars cfg of
      Inl e \<Rightarrow> Inl (Fail CatTemplateError (''step '' @ fmt_q (st_Name s) @ '': '' @ e)) | Inr a \<Rightarrow> Inr a) = Inr y"
    by simp
qed

text \<open>A valid step that loaded without error has the content of its template, and the references in it are declared.\<close>

lemma loaded_body:
  assumes "load_step E j0 dir s0 = (s, fs, [])" and "validate_step rc j k seen s = []" and "job_Variables j = job_Variables j0"
    and "st_Copy s = Some c" and "copy_Template c"
  shows "\<exists>b. copy_body c = Some b \<and> refs_ok j True b"
  using assms(1)
proof (cases rule: load_step_cases)
  case (script b)
  have "kinds s = 1" "st_Script s \<noteq> ''''"
    using validate_stepD(1) [OF assms(2)] script by simp_all
  then show ?thesis
    using assms(4) by (simp add: kinds_def split: if_splits)
next
  case command
  then show ?thesis
    using assms(4) by simp
next
  case (copied c0 b)
  then show ?thesis
    using assms(3-5) by (auto simp: refs_ok_def)
qed

text \<open>
  C27: Loading is enough: a job that was loaded without an error is valid, and when every variable it
  declares has a value, every step can be built for the host. No step fails for a template error later.
\<close>

theorem Load_Build:
  assumes "Load E path = Inr j" and "covers j vars"
  shows "Validate (je_recompile E) (je_conv E) j = Inr () \<and> (\<exists>acts. Build j vars cfg = Inr acts)"
proof -
  have valid: "Validate (je_recompile E) (je_conv E) j = Inr ()"
    using Load_valid [OF assms(1)] .
  obtain j0 dir where st: "job_Steps j = map (fst \<circ> load_step E j0 dir) (job_Steps j0)"
    and ok: "\<And>s. s \<in> set (job_Steps j0) \<Longrightarrow> snd (snd (load_step E j0 dir s)) = []"
    and vars: "job_Variables j = job_Variables j0"
    using Load_InrD [OF assms(1)] by metis
  have "\<exists>a. build j s vars cfg = Inr a" if sj: "s \<in> set (job_Steps j)" for s
  proof -
    obtain k where k: "k < length (job_Steps j)" "s = job_Steps j ! k"
      using sj by (metis in_set_conv_nth)
    obtain seen where v: "validate_step (je_recompile E) j k seen s = []"
      using Validate_step [OF valid k(1)] k(2) by blast
    obtain s0 where s0: "s0 \<in> set (job_Steps j0)" "s = fst (load_step E j0 dir s0)"
      using sj st by auto
    then have l: "load_step E j0 dir s0 = (s, fst (snd (load_step E j0 dir s0)), [])"
      using ok [OF s0(1)] by (metis prod.collapse)
    show ?thesis
      by (rule build_valid [OF v assms(2)]) (rule loaded_body [OF l v vars])
  qed
  then show ?thesis
    using valid Build_total by blast
qed

definition example_job_env :: job_env where
  "example_job_env = \<lparr>je_isdir = (\<lambda>p. p = ''jobs/ntp''),
     je_fs = (\<lambda>p. if p = ''jobs/ntp/job.yaml'' then Content ''name: ntp'' else if p = ''jobs/ntp/a.conf''
                  then Content ''server {{ .server }} key {{ .token }}'' else OpenError ''no such file''),
     je_decode = (\<lambda>d. Decoded valid_job), je_sha256 = (\<lambda>d. ''hash''), je_recompile = (\<lambda>r. None), je_conv = (\<lambda>x. 0)\<rparr>"

lemma ReadFile_small: "fs path = Content d \<Longrightarrow> int (length d) \<le> limit \<Longrightarrow> ReadFile fs path limit = Inr d"
  by (simp add: ReadFile_def Let_def)

abbreviation example_body :: string where
  "example_body \<equiv> ''server {{ .server }} key {{ .token }}''"

definition loaded_steps :: "Step list" where
  "loaded_steps =
     [(job_Steps valid_job ! 0)\<lparr>st_Copy := Some ((the (st_Copy (job_Steps valid_job ! 0)))\<lparr>copy_body := Some example_body\<rparr>)\<rparr>,
      job_Steps valid_job ! 1]"

definition loaded_job :: Job where
  "loaded_job = valid_job\<lparr>job_Path := ''jobs/ntp/job.yaml'', job_Steps := loaded_steps, job_Hash := ''hash''\<rparr>"

lemma example_paths:
  "path_join ''jobs/ntp'' DefaultFile = ''jobs/ntp/job.yaml''"
  "path_join (path_dir ''jobs/ntp/job.yaml'') ''a.conf'' = ''jobs/ntp/a.conf''"
  by code_simp+

lemma example_files:
  "ReadFile (je_fs example_job_env) ''jobs/ntp/job.yaml'' MaxFileSize = Inr ''name: ntp''"
  "ReadFile (je_fs example_job_env) ''jobs/ntp/a.conf'' MaxCopySize = Inr example_body"
  by (rule ReadFile_small; simp add: example_job_env_def MaxFileSize_def MaxCopySize_def)+

lemma example_parse: "Parse example_job_env ''name: ntp'' = Inr (valid_job\<lparr>job_Hash := ''hash''\<rparr>)"
proof -
  have "Validate (\<lambda>_. None) (\<lambda>_. 0) (valid_job\<lparr>job_Hash := ''hash''\<rparr>) = Inr ()"
    by code_simp
  then show ?thesis
    by (simp add: Parse_def example_job_env_def)
qed

lemma example_refs:
  "checkRefs (valid_job\<lparr>job_Hash := ''hash'', job_Path := ''jobs/ntp/job.yaml''\<rparr>) example_body loc True = []"
  by code_simp

lemma example_load: "Load example_job_env ''jobs/ntp'' = Inr loaded_job"
proof -
  let ?j = "valid_job\<lparr>job_Hash := ''hash'', job_Path := ''jobs/ntp/job.yaml''\<rparr>" and ?dir = "path_dir ''jobs/ntp/job.yaml''"
  obtain s0 s1 where steps: "job_Steps valid_job = [s0, s1]"
    by (simp add: valid_job_def)
  have l0: "load_step example_job_env ?j ?dir s0 = (loaded_steps ! 0, example_body, [])"
    using steps
    by (auto simp: load_step_def loaded_steps_def valid_job_def example_step_def example_paths example_files
        example_refs [unfolded valid_job_def example_step_def, simplified])
  have l1: "load_step example_job_env ?j ?dir s1 = (loaded_steps ! 1, '''', [])"
    using steps
    by (auto simp: load_step_def loaded_steps_def valid_job_def example_step_def)
  have dir: "je_isdir example_job_env ''jobs/ntp''" and h: "je_sha256 example_job_env x = ''hash''" for x
    by (simp_all add: example_job_env_def)
  show ?thesis
    unfolding Load_def
    by (simp add: dir h example_paths example_files example_parse steps l0 l1 loaded_job_def Let_def)
      (simp add: loaded_steps_def)
qed

theorem Load_Build_witness: "\<exists>acts. Build loaded_job (public_values ''s3cret'') example_settings = Inr acts"
proof -
  have "covers loaded_job (public_values ''s3cret'')"
    by (simp add: covers_def loaded_job_def valid_job_def example_job_def public_values_def)
  from Load_Build [OF example_load this] show ?thesis
    by blast
qed

end
