(* ===== verification/Inventory.thy ===== *)
theory Inventory
  imports Load_Job
begin

text \<open>
  Package \<open>internal/inventory\<close>: inventories of credentials, bastions, groups and hosts, combining files,
  resolving the settings of a host through its group and the defaults, and selecting hosts. Maps are
  association lists in an iteration order. A nil slice or map of \<open>Defaults\<close> is told apart from an empty one,
  because \<open>Load\<close> compares the defaults of a file with the zero value (\<open>reflect.DeepEqual\<close>).
\<close>

section \<open>Data\<close>

record Bastion =
  ba_Address :: string
  ba_Port :: int
  ba_Username :: string
  ba_Credential :: string

record InvDefaults =
  id_Port :: int
  id_Username :: string
  id_Credential :: string
  id_Bastion :: string
  id_Tags :: "string list option"
  id_Variables :: "(string, string) gomap option"

record InvHost =
  ih_Name :: string
  ih_Address :: string
  ih_Port :: int
  ih_Username :: string
  ih_Credential :: string
  ih_Bastion :: string
  ih_Tags :: "string list"
  ih_Variables :: "(string, string) gomap"

record Group =
  gr_Defaults :: InvDefaults
  gr_Hosts :: "InvHost list"

record Inventory =
  inv_Credentials :: "(string, Credential) gomap"
  inv_Bastions :: "(string, Bastion) gomap"
  inv_Defaults :: InvDefaults
  inv_Groups :: "(string, Group) gomap"
  inv_Hosts :: "InvHost list"

record Selector =
  sel_Groups :: "string list"
  sel_Tags :: "string list"
  sel_Hosts :: "string list"

definition InvDefaults_zero :: InvDefaults where
  "InvDefaults_zero = \<lparr>id_Port = 0, id_Username = '''', id_Credential = '''', id_Bastion = '''', id_Tags = None, id_Variables = None\<rparr>"

definition Inventory_zero :: Inventory where
  "Inventory_zero = \<lparr>inv_Credentials = [], inv_Bastions = [], inv_Defaults = InvDefaults_zero, inv_Groups = [], inv_Hosts = []\<rparr>"

definition Selector_all :: Selector where
  "Selector_all = \<lparr>sel_Groups = [], sel_Tags = [], sel_Hosts = []\<rparr>"

definition InvMaxFileSize :: int where
  "InvMaxFileSize = 64 * 2 ^ 20"

text \<open>\<open>hostNamePattern\<close> is \<open>^[A-Za-z0-9][A-Za-z0-9._:-]{0,252}$\<close>.\<close>

definition match_host :: "string \<Rightarrow> bool" where
  "match_host s \<longleftrightarrow> s \<noteq> [] \<and> is_alnum (hd s) \<and> length (tl s) \<le> 252 \<and>
     list_all (\<lambda>c. is_alnum c \<or> c \<in> set ''._:-'') (tl s)"

section \<open>Resolving a host\<close>

text \<open>The generic \<open>first\<close>: the first value that is not the zero value.\<close>

definition first_of :: "'a \<Rightarrow> 'a list \<Rightarrow> 'a" where
  "first_of zero vals = (case List.find (\<lambda>v. v \<noteq> zero) vals of Some v \<Rightarrow> v | None \<Rightarrow> zero)"

definition credential :: "Inventory \<Rightarrow> string \<Rightarrow> string + Credential" where
  "credential iv name =
     (if name = '''' then Inl ''credential is required''
      else case map_of (inv_Credentials iv) name of
        None \<Rightarrow> Inl (''unknown credential '' @ fmt_q name)
      | Some c0 \<Rightarrow>
          (let c = c0\<lparr>cred_Name := name\<rparr> in
           if cred_Type c = ''password'' then
             (if cred_PasswordEnv c = ''''
              then Inl (''credential '' @ fmt_q name @ '': password_env is required (plaintext passwords are not accepted)'')
              else Inr c)
           else if cred_Type c = ''private_key'' then
             (if cred_KeyFile c = '''' then Inl (''credential '' @ fmt_q name @ '': key_file is required'') else Inr c)
           else Inl (''credential '' @ fmt_q name @ '': type must be password or private_key'')))"

text \<open>The inner loop over one map of variables.\<close>

fun add_vars :: "(string, string) gomap \<Rightarrow> (string, string) gomap \<Rightarrow> string + (string, string) gomap" where
  "add_vars vars [] = Inr vars"
| "add_vars vars ((k, v) # m) =
     (case CheckValue v of
        Inl e \<Rightarrow> Inl (''variable '' @ fmt_q k @ '': '' @ e)
      | Inr _ \<Rightarrow> add_vars (AList.update k v vars) m)"

text \<open>The loop over the tags: every tag once, where it comes first.\<close>

definition add_tag :: "string \<Rightarrow> string list \<Rightarrow> string list" where
  "add_tag tag tags = (if tag \<in> set tags then tags else tags @ [tag])"

definition resolve_bastion :: "Inventory \<Rightarrow> string \<Rightarrow> string + Endpoint option" where
  "resolve_bastion iv name =
     (if name = '''' then Inr None
      else case map_of (inv_Bastions iv) name of
        None \<Rightarrow> Inl (''unknown bastion '' @ fmt_q name)
      | Some b \<Rightarrow>
          (case credential iv (ba_Credential b) of
             Inl e \<Rightarrow> Inl (''bastion '' @ fmt_q name @ '': '' @ e)
           | Inr bc \<Rightarrow>
               (let ep = \<lparr>ep_Name = name, ep_Address = ba_Address b, ep_Port = first_of 0 [ba_Port b, 22],
                          ep_Username = first_of '''' [ba_Username b, cred_Username bc], ep_Credential = bc\<rparr>
                in if ep_Address ep = '''' \<or> ep_Username ep = ''''
                   then Inl (''bastion '' @ fmt_q name @ '': address and username are required'')
                   else Inr (Some ep))))"

definition resolve_port :: "InvDefaults \<Rightarrow> InvDefaults \<Rightarrow> InvHost \<Rightarrow> string + int" where
  "resolve_port d gd h =
     (let port = first_of 0 [ih_Port h, id_Port gd, id_Port d, 22] in
      if ih_Address h = '''' then Inl ''address is required''
      else if port < 1 \<or> port > 65535 then Inl (''port '' @ itoa port @ '' out of range'')
      else Inr port)"

definition resolve :: "Inventory \<Rightarrow> string \<Rightarrow> InvDefaults \<Rightarrow> InvHost \<Rightarrow> string + Target" where
  "resolve iv gname gd h =
     (let d = inv_Defaults iv in
      bind_result (resolve_port d gd h) (\<lambda>port.
      bind_result (add_vars [] (elems (id_Variables d))) (\<lambda>v1.
      bind_result (add_vars v1 (elems (id_Variables gd))) (\<lambda>v2.
      bind_result (add_vars v2 (ih_Variables h)) (\<lambda>vars.
      let tags = fold add_tag (elems (id_Tags d) @ elems (id_Tags gd) @ ih_Tags h) [] in
      bind_result (credential iv (first_of '''' [ih_Credential h, id_Credential gd, id_Credential d])) (\<lambda>cred.
      let username = first_of '''' [ih_Username h, id_Username gd, id_Username d, cred_Username cred] in
      if username = '''' then Inl ''username is required (host, defaults or credential)''
      else
      bind_result (resolve_bastion iv (first_of '''' [ih_Bastion h, id_Bastion gd, id_Bastion d])) (\<lambda>bastion.
      Inr \<lparr>ep_Name = ih_Name h, ep_Address = ih_Address h, ep_Port = port, ep_Username = username,
           ep_Credential = cred, tg_Group = gname, tg_Tags = tags, tg_Variables = vars, tg_Bastion = bastion\<rparr>)))))))"

section \<open>Selecting hosts\<close>

definition anyOf :: "string list \<Rightarrow> string list \<Rightarrow> bool" where
  "anyOf want have \<longleftrightarrow> want = [] \<or> list_ex (\<lambda>w. list_ex (\<lambda>h. w = h) have) want"

type_synonym entry = "string \<times> InvDefaults \<times> InvHost"

text \<open>The hosts in the order the two loops of \<open>Select\<close> visit them.\<close>

definition host_entries :: "Inventory \<Rightarrow> entry list" where
  "host_entries iv =
     concat (map (\<lambda>(g, grp). map (\<lambda>h. (g, gr_Defaults grp, h)) (gr_Hosts grp)) (inv_Groups iv)) @
     map (\<lambda>h. ('''', InvDefaults_zero, h)) (inv_Hosts iv)"

text \<open>The closure \<open>add\<close> on its captured errors, seen names and targets.\<close>

fun add_host :: "Inventory \<Rightarrow> entry \<Rightarrow> issues \<times> string list \<times> Target list \<Rightarrow> issues \<times> string list \<times> Target list" where
  "add_host iv (gname, gd, h) (errs, seen, all) =
     (if \<not> match_host (ih_Name h)
      then (errs @ [''host '' @ fmt_q (ih_Name h) @ '': invalid or missing name''], seen, all)
      else if ih_Name h \<in> set seen
      then (errs @ [''host '' @ fmt_q (ih_Name h) @ '': defined more than once''], seen, all)
      else case resolve iv gname gd h of
        Inl e \<Rightarrow> (errs @ [''host '' @ fmt_q (ih_Name h) @ '': '' @ e], ih_Name h # seen, all)
      | Inr t \<Rightarrow> (errs, ih_Name h # seen, all @ [t]))"

definition selected :: "Selector \<Rightarrow> Target \<Rightarrow> bool" where
  "selected sel t \<longleftrightarrow> anyOf (sel_Groups sel) [tg_Group t] \<and> anyOf (sel_Tags sel) (tg_Tags t) \<and> anyOf (sel_Hosts sel) [ep_Name t]"

definition selector_issues :: "Inventory \<Rightarrow> string list \<Rightarrow> Selector \<Rightarrow> issues" where
  "selector_issues iv seen sel =
     concat (map (\<lambda>g. issue_if (map_of (inv_Groups iv) g = None) (''unknown group '' @ fmt_q g)) (sel_Groups sel)) @
     concat (map (\<lambda>h. issue_if (h \<notin> set seen) (''unknown host '' @ fmt_q h)) (sel_Hosts sel))"

definition Select :: "Inventory \<Rightarrow> Selector \<Rightarrow> string + Target list" where
  "Select iv sel =
     (let (errs, seen, all) = fold (add_host iv) (host_entries iv) ([], [], []);
          errs' = errs @ selector_issues iv seen sel
      in if errs' \<noteq> [] then Inl (''inventory invalid: '' @ join (sort errs') ''; '')
         else Inr (sort_key ep_Name (filter (selected sel) all)))"

section \<open>Reading and combining files\<close>

text \<open>The answers of the YAML decoder.\<close>

datatype inv_decoded = InvEOF | InvError string | InvDecoded Inventory

record inv_env =
  ie_fs :: "string \<Rightarrow> file_entry"
  ie_decode :: "string \<Rightarrow> inv_decoded"

definition decode :: "inv_env \<Rightarrow> string \<Rightarrow> string + Inventory" where
  "decode E data =
     (case ie_decode E data of
        InvEOF \<Rightarrow> Inr Inventory_zero
      | InvError e \<Rightarrow> Inl (''inventory YAML: '' @ e)
      | InvDecoded iv \<Rightarrow> Inr iv)"

fun mergeInto :: "(string, 'v) gomap \<Rightarrow> (string, 'v) gomap \<Rightarrow> string \<Rightarrow> string \<Rightarrow> string + (string, 'v) gomap" where
  "mergeInto dst [] kind file = Inr dst"
| "mergeInto dst ((k, v) # src) kind file =
     (if map_of dst k \<noteq> None
      then Inl (file @ '': '' @ kind @ '' '' @ fmt_q k @ '' is already defined in another inventory file'')
      else mergeInto (AList.update k v dst) src kind file)"

text \<open>One file of the loop of \<open>Load\<close>, on the merged inventory and the file that set the defaults.\<close>

definition merge_file :: "string \<Rightarrow> Inventory \<Rightarrow> Inventory \<times> string \<Rightarrow> string + Inventory \<times> string" where
  "merge_file p iv st =
     (let (merged, defaultsFrom) = st in
      bind_result
        (if inv_Defaults iv \<noteq> InvDefaults_zero then
           (if defaultsFrom \<noteq> ''''
            then Inl (''defaults are set in both '' @ defaultsFrom @ '' and '' @ p @ ''; keep them in one file'')
            else Inr (merged\<lparr>inv_Defaults := inv_Defaults iv\<rparr>, p))
         else Inr (merged, defaultsFrom)) (\<lambda>(m0, from).
      bind_result (mergeInto (inv_Credentials m0) (inv_Credentials iv) ''credential'' p) (\<lambda>cs.
      bind_result (mergeInto (inv_Bastions m0) (inv_Bastions iv) ''bastion'' p) (\<lambda>bs.
      bind_result (mergeInto (inv_Groups m0) (inv_Groups iv) ''group'' p) (\<lambda>gs.
      Inr (m0\<lparr>inv_Credentials := cs, inv_Bastions := bs, inv_Groups := gs, inv_Hosts := inv_Hosts m0 @ inv_Hosts iv\<rparr>, from))))))"

definition read_inventory :: "inv_env \<Rightarrow> string \<Rightarrow> string + Inventory" where
  "read_inventory E p =
     bind_result (ReadFile (ie_fs E) p InvMaxFileSize) (\<lambda>data.
       case decode E data of Inl e \<Rightarrow> Inl (p @ '': '' @ e) | Inr iv \<Rightarrow> Inr iv)"

fun load_files :: "inv_env \<Rightarrow> string list \<Rightarrow> Inventory \<times> string \<Rightarrow> string + Inventory" where
  "load_files E [] st = Inr (fst st)"
| "load_files E (p # paths) st =
     bind_result (read_inventory E p) (\<lambda>iv.
     bind_result (merge_file p iv st) (\<lambda>st'. load_files E paths st'))"

definition Inventory_Load :: "inv_env \<Rightarrow> string list \<Rightarrow> string + Inventory" where
  "Inventory_Load E paths =
     bind_result (load_files E paths (Inventory_zero, '''')) (\<lambda>merged.
     bind_result (Select merged Selector_all) (\<lambda>_. Inr merged))"

definition Inventory_Parse :: "inv_env \<Rightarrow> string \<Rightarrow> string + Inventory" where
  "Inventory_Parse E data =
     bind_result (decode E data) (\<lambda>iv. bind_result (Select iv Selector_all) (\<lambda>_. Inr iv))"

end
