(* ===== verification/Inventory_Props.thy ===== *)
theory Inventory_Props
  imports Inventory
begin

text \<open>
  What selecting and resolving promise: a selection is a filter of the whole inventory, sorted by name; every
  target is complete; settings are inherited in a fixed order; the iteration order of the maps does not matter.
\<close>

section \<open>What \<open>Select\<close> computes\<close>

definition entry_name :: "entry \<Rightarrow> string" where
  "entry_name e = ih_Name (snd (snd e))"

definition entry_ok :: "Inventory \<Rightarrow> entry \<Rightarrow> bool" where
  "entry_ok iv e \<longleftrightarrow> match_host (entry_name e) \<and> is_ok (resolve iv (fst e) (fst (snd e)) (snd (snd e)))"

definition entry_target :: "Inventory \<Rightarrow> entry \<Rightarrow> Target" where
  "entry_target iv e = projr (resolve iv (fst e) (fst (snd e)) (snd (snd e)))"

lemma entry_ok_resolve: "entry_ok iv e \<Longrightarrow> resolve iv (fst e) (fst (snd e)) (snd (snd e)) = Inr (entry_target iv e)"
  by (auto simp: entry_ok_def entry_target_def is_ok_iff)

lemma add_host_ok:
  "entry_ok iv e \<Longrightarrow> entry_name e \<notin> set seen \<Longrightarrow>
   add_host iv e (errs, seen, all) = (errs, entry_name e # seen, all @ [entry_target iv e])"
  using entry_ok_resolve [of iv e] by (cases e) (simp add: entry_ok_def entry_name_def)

lemma add_host_bad:
  "\<not> (entry_ok iv e \<and> entry_name e \<notin> set seen) \<Longrightarrow> fst (add_host iv e (errs, seen, all)) \<noteq> []"
  by (cases e) (auto simp: entry_ok_def entry_name_def split: sum.splits)

lemma add_host_keeps_errs: "fst st \<noteq> [] \<Longrightarrow> fst (add_host iv e st) \<noteq> []"
  by (cases st; cases e) (auto split: sum.splits)

lemma fold_add_host_errs: "fst st \<noteq> [] \<Longrightarrow> fst (fold (add_host iv) es st) \<noteq> []"
  by (induction es arbitrary: st) (simp_all add: add_host_keeps_errs)

definition entries_ok :: "Inventory \<Rightarrow> entry list \<Rightarrow> bool" where
  "entries_ok iv es \<longleftrightarrow> (\<forall>e \<in> set es. entry_ok iv e) \<and> distinct (map entry_name es)"

lemma fold_add_host_ok:
  "entries_ok iv es \<Longrightarrow> entry_name ` set es \<inter> set seen = {} \<Longrightarrow>
   fold (add_host iv) es (errs, seen, all) = (errs, rev (map entry_name es) @ seen, all @ map (entry_target iv) es)"
  by (induction es arbitrary: seen all) (auto simp: entries_ok_def add_host_ok)

lemma fold_add_host_bad:
  "\<not> (entries_ok iv es \<and> entry_name ` set es \<inter> set seen = {}) \<Longrightarrow>
   fst (fold (add_host iv) es (errs, seen, all)) \<noteq> []"
proof (induction es arbitrary: errs seen all)
  case Nil
  then show ?case by (simp add: entries_ok_def)
next
  case (Cons e es)
  show ?case
  proof (cases "entry_ok iv e \<and> entry_name e \<notin> set seen")
    case True
    then have "\<not> (entries_ok iv es \<and> entry_name ` set es \<inter> set (entry_name e # seen) = {})"
      using Cons.prems by (auto simp: entries_ok_def)
    from Cons.IH [OF this] show ?thesis
      using True by (simp add: add_host_ok)
  next
    case False
    from fold_add_host_errs [OF add_host_bad [OF False]] show ?thesis
      by simp
  qed
qed

definition known_selector :: "Inventory \<Rightarrow> Selector \<Rightarrow> bool" where
  "known_selector iv sel \<longleftrightarrow>
     set (sel_Groups sel) \<subseteq> fst ` set (inv_Groups iv) \<and> set (sel_Hosts sel) \<subseteq> entry_name ` set (host_entries iv)"

definition targets :: "Inventory \<Rightarrow> Target list" where
  "targets iv = map (entry_target iv) (host_entries iv)"

lemma selector_issues_Nil:
  "selector_issues iv seen sel = [] \<longleftrightarrow>
     set (sel_Groups sel) \<subseteq> fst ` set (inv_Groups iv) \<and> set (sel_Hosts sel) \<subseteq> set seen"
  by (simp add: selector_issues_def map_of_eq_None_iff subset_eq)

lemma Select_Inr_iff:
  "Select iv sel = Inr ts \<longleftrightarrow>
     entries_ok iv (host_entries iv) \<and> known_selector iv sel \<and> ts = sort_key ep_Name (filter (selected sel) (targets iv))"
proof (cases "entries_ok iv (host_entries iv)")
  case True
  let ?seen = "rev (map entry_name (host_entries iv))"
  from fold_add_host_ok [OF True, of "[]" "[]" "[]"]
  have f: "fold (add_host iv) (host_entries iv) ([], [], []) = ([], ?seen, targets iv)"
    by (simp add: targets_def)
  have s: "selector_issues iv ?seen sel = [] \<longleftrightarrow> known_selector iv sel"
    by (simp add: selector_issues_Nil known_selector_def)
  show ?thesis
  proof (cases "known_selector iv sel")
    case True
    then show ?thesis
      using \<open>entries_ok iv (host_entries iv)\<close> s by (auto simp: Select_def f)
  next
    case False
    then show ?thesis
      using s by (simp add: Select_def f)
  qed
next
  case False
  then have "fst (fold (add_host iv) (host_entries iv) ([], [], [])) \<noteq> []"
    by (intro fold_add_host_bad) simp
  then show ?thesis
    using False by (auto simp: Select_def Let_def split: prod.splits)
qed

section \<open>What \<open>resolve\<close> computes\<close>

lemma resolve_name: "resolve iv g gd h = Inr t \<Longrightarrow> ep_Name t = ih_Name h"
  by (auto simp: resolve_def Let_def result_simps split: if_splits)

lemma target_names: "entries_ok iv es \<Longrightarrow> map ep_Name (map (entry_target iv) es) = map entry_name es"
  by (auto simp: entries_ok_def entry_name_def dest!: entry_ok_resolve resolve_name)

text \<open>
  C25: A selection is the whole inventory, resolved, filtered and sorted: whatever the selector, the result is the
  sublist of the full list that its groups, tags and host names match; no host is twice in it, and the names
  ascend strictly. The full list has one target for every host of every group and of the top level.
\<close>

theorem Select_filters:
  assumes "Select iv sel = Inr ts"
  shows "\<exists>all. Select iv Selector_all = Inr all \<and> ts = filter (selected sel) all \<and>
     sorted_wrt (<) (map ep_Name all) \<and> mset (map ep_Name all) = mset (map (\<lambda>(g, gd, h). ih_Name h) (host_entries iv))"
proof (intro exI conjI)
  let ?all = "sort_key ep_Name (targets iv)"
  have ok: "entries_ok iv (host_entries iv)" and ts: "ts = sort_key ep_Name (filter (selected sel) (targets iv))"
    using assms by (simp_all add: Select_Inr_iff)
  have "selected Selector_all = (\<lambda>t. True)"
    by (simp add: fun_eq_iff selected_def Selector_all_def anyOf_def)
  then show "Select iv Selector_all = Inr ?all"
    using ok by (simp add: Select_Inr_iff known_selector_def Selector_all_def)
  show "ts = filter (selected sel) ?all"
    unfolding ts by (simp add: filter_sort)
  have names: "map ep_Name (targets iv) = map entry_name (host_entries iv)"
    unfolding targets_def by (rule target_names [OF ok])
  have n: "mset (map ep_Name ?all) = mset (map ep_Name (targets iv))"
    by simp
  have "distinct (map ep_Name ?all)"
    using ok names mset_eq_imp_distinct_iff [OF n] by (simp add: entries_ok_def)
  then show "sorted_wrt (<) (map ep_Name ?all)"
    by (simp add: strict_sorted_iff)
  have "entry_name = (\<lambda>(g, gd, h). ih_Name h)"
    by (simp add: fun_eq_iff entry_name_def)
  then show "mset (map ep_Name ?all) = mset (map (\<lambda>(g, gd, h). ih_Name h) (host_entries iv))"
    using n names by simp
qed

section \<open>Targets are complete\<close>

definition cred_usable :: "Credential \<Rightarrow> bool" where
  "cred_usable c \<longleftrightarrow> cred_Name c \<noteq> '''' \<and>
     (cred_Type c = ''password'' \<and> cred_PasswordEnv c \<noteq> '''' \<or> cred_Type c = ''private_key'' \<and> cred_KeyFile c \<noteq> '''')"

definition endpoint_ok :: "'a Endpoint_scheme \<Rightarrow> bool" where
  "endpoint_ok e \<longleftrightarrow> ep_Address e \<noteq> '''' \<and> ep_Username e \<noteq> '''' \<and> cred_usable (ep_Credential e)"

definition target_ok :: "Target \<Rightarrow> bool" where
  "target_ok t \<longleftrightarrow>
     match_host (ep_Name t) \<and> endpoint_ok t \<and> 1 \<le> ep_Port t \<and> ep_Port t \<le> 65535 \<and> distinct (tg_Tags t) \<and>
     gomap_ok (tg_Variables t) \<and> (\<forall>(k, v) \<in> set (tg_Variables t). \<forall>c \<in> set v. \<not> is_control c) \<and>
     (case tg_Bastion t of None \<Rightarrow> True | Some b \<Rightarrow> endpoint_ok b \<and> ep_Name b \<noteq> '''' \<and> ep_Port b \<noteq> 0)"

lemma credential_Inr_iff:
  "credential iv n = Inr c \<longleftrightarrow>
     n \<noteq> '''' \<and> (\<exists>c0. map_of (inv_Credentials iv) n = Some c0 \<and> c = c0\<lparr>cred_Name := n\<rparr>) \<and> cred_usable c"
  by (auto simp: credential_def cred_usable_def Let_def split: option.splits)

lemma add_vars_Inr_iff:
  "add_vars vars m = Inr vars' \<longleftrightarrow> (\<forall>(k, v) \<in> set m. is_ok (CheckValue v)) \<and> vars' = put_all vars m"
  by (induction vars m rule: add_vars.induct) (auto split: sum.splits simp: is_ok_iff)

lemma set_add_tags: "set (fold add_tag ts acc) = set acc \<union> set ts"
  by (induction ts arbitrary: acc) (auto simp: add_tag_def)

lemma distinct_add_tags: "distinct acc \<Longrightarrow> distinct (fold add_tag ts acc)"
  by (induction ts arbitrary: acc) (auto simp: add_tag_def)

lemma first_of_simps:
  "first_of z [] = z"
  "first_of z (v # vs) = (if v = z then first_of z vs else v)"
  by (simp_all add: first_of_def)

lemma resolve_bastion_Some:
  "resolve_bastion iv n = Inr (Some b) \<Longrightarrow> endpoint_ok b \<and> ep_Name b = n \<and> n \<noteq> '''' \<and> ep_Port b \<noteq> 0"
  by (auto simp: resolve_bastion_def credential_Inr_iff endpoint_ok_def Let_def first_of_simps split: if_splits option.splits sum.splits)

definition inherited_vars :: "InvDefaults \<Rightarrow> InvDefaults \<Rightarrow> InvHost \<Rightarrow> (string, string) gomap" where
  "inherited_vars d gd h = put_all (put_all (put_all [] (elems (id_Variables d))) (elems (id_Variables gd))) (ih_Variables h)"

lemma resolveE:
  assumes "resolve iv g gd h = Inr t"
  obtains cred bastion where
    "ih_Address h \<noteq> ''''" "1 \<le> ep_Port t" "ep_Port t \<le> 65535"
    "ep_Port t = first_of 0 [ih_Port h, id_Port gd, id_Port (inv_Defaults iv), 22]"
    "\<forall>(k, v) \<in> set (elems (id_Variables (inv_Defaults iv))) \<union> set (elems (id_Variables gd)) \<union> set (ih_Variables h). is_ok (CheckValue v)"
    "credential iv (first_of '''' [ih_Credential h, id_Credential gd, id_Credential (inv_Defaults iv)]) = Inr cred"
    "ep_Username t \<noteq> ''''"
    "resolve_bastion iv (first_of '''' [ih_Bastion h, id_Bastion gd, id_Bastion (inv_Defaults iv)]) = Inr bastion"
    "t = \<lparr>ep_Name = ih_Name h, ep_Address = ih_Address h, ep_Port = ep_Port t,
          ep_Username = first_of '''' [ih_Username h, id_Username gd, id_Username (inv_Defaults iv), cred_Username cred],
          ep_Credential = cred, tg_Group = g,
          tg_Tags = fold add_tag (elems (id_Tags (inv_Defaults iv)) @ elems (id_Tags gd) @ ih_Tags h) [],
          tg_Variables = inherited_vars (inv_Defaults iv) gd h, tg_Bastion = bastion\<rparr>"
proof -
  let ?port = "first_of 0 [ih_Port h, id_Port gd, id_Port (inv_Defaults iv), 22]"
  obtain port v1 v2 vars cred bastion where
    c: "credential iv (first_of '''' [ih_Credential h, id_Credential gd, id_Credential (inv_Defaults iv)]) = Inr cred"
    and b: "resolve_bastion iv (first_of '''' [ih_Bastion h, id_Bastion gd, id_Bastion (inv_Defaults iv)]) = Inr bastion"
    and u: "first_of '''' [ih_Username h, id_Username gd, id_Username (inv_Defaults iv), cred_Username cred] \<noteq> ''''"
    and p0: "resolve_port (inv_Defaults iv) gd h = Inr port"
    and v1: "add_vars [] (elems (id_Variables (inv_Defaults iv))) = Inr v1"
    and v2: "add_vars v1 (elems (id_Variables gd)) = Inr v2" and v3: "add_vars v2 (ih_Variables h) = Inr vars"
    and t: "t = \<lparr>ep_Name = ih_Name h, ep_Address = ih_Address h, ep_Port = port,
          ep_Username = first_of '''' [ih_Username h, id_Username gd, id_Username (inv_Defaults iv), cred_Username cred],
          ep_Credential = cred, tg_Group = g,
          tg_Tags = fold add_tag (elems (id_Tags (inv_Defaults iv)) @ elems (id_Tags gd) @ ih_Tags h) [],
          tg_Variables = vars, tg_Bastion = bastion\<rparr>"
    using assms by (auto simp: resolve_def Let_def result_simps simp del: fold_append split: if_splits)
  have p: "ih_Address h \<noteq> ''''" "1 \<le> port" "port \<le> 65535" "port = ?port"
    using p0 by (auto simp: resolve_port_def Let_def split: if_splits)
  have vars: "vars = inherited_vars (inv_Defaults iv) gd h"
    and v: "\<forall>(k, v) \<in> set (elems (id_Variables (inv_Defaults iv))) \<union> set (elems (id_Variables gd)) \<union> set (ih_Variables h). is_ok (CheckValue v)"
    using v1 v2 v3 by (auto simp: add_vars_Inr_iff inherited_vars_def)
  have "ep_Port t = port" and "ep_Username t \<noteq> ''''"
    using u unfolding t by simp_all
  then show thesis
    using p t vars by (intro that [OF p(1) _ _ _ v c _ b]) simp_all
qed

lemma put_all_values: "set (put_all dst src) \<subseteq> set dst \<union> set src"
proof (induction src arbitrary: dst)
  case (Cons kv src)
  obtain k v where kv: "kv = (k, v)"
    by (cases kv)
  have "set (AList.update k v dst) \<subseteq> insert (k, v) (set dst)"
    by (induction dst) auto
  then show ?case
    using Cons.IH [of "AList.update k v dst"] kv by auto
qed simp

lemma inherited_vars_values:
  "set (inherited_vars d gd h) \<subseteq> set (elems (id_Variables d)) \<union> set (elems (id_Variables gd)) \<union> set (ih_Variables h)"
proof -
  let ?a = "elems (id_Variables d)" and ?b = "elems (id_Variables gd)"
  show ?thesis
    unfolding inherited_vars_def
    using put_all_values [of "[]" ?a] put_all_values [of "put_all [] ?a" ?b]
      put_all_values [of "put_all (put_all [] ?a) ?b" "ih_Variables h"]
    by auto
qed

lemma resolve_target_ok:
  assumes "resolve iv g gd h = Inr t" and "match_host (ih_Name h)"
  shows "target_ok t"
  using assms(1)
proof (cases rule: resolveE)
  case (1 cred bastion)
  let ?d = "inv_Defaults iv"
  have fields: "ep_Name t = ih_Name h" "ep_Address t = ih_Address h" "ep_Credential t = cred" "tg_Bastion t = bastion"
    "tg_Tags t = fold add_tag (elems (id_Tags ?d) @ elems (id_Tags gd) @ ih_Tags h) []"
    "tg_Variables t = inherited_vars ?d gd h"
    by (subst 1(9), simp)+
  have "endpoint_ok t"
    using 1(1,6,7) by (simp add: endpoint_ok_def fields credential_Inr_iff)
  moreover have "\<forall>(k, v) \<in> set (tg_Variables t). \<forall>c \<in> set v. \<not> is_control c"
    using 1(5) inherited_vars_values [of ?d gd h] unfolding fields CheckValue_ok_iff by fastforce
  moreover have "gomap_ok (tg_Variables t)" "distinct (tg_Tags t)"
    by (simp_all add: fields inherited_vars_def distinct_add_tags del: fold_append)
  moreover have "case tg_Bastion t of None \<Rightarrow> True | Some b \<Rightarrow> endpoint_ok b \<and> ep_Name b \<noteq> '''' \<and> ep_Port b \<noteq> 0"
    using 1(8) resolve_bastion_Some by (auto simp: fields split: option.splits)
  ultimately show ?thesis
    using assms(2) 1(2,3) by (simp add: target_ok_def fields)
qed

text \<open>
  C26: Every selected target is complete: a valid name, an address, a port from 1 to 65535, a user, a credential with
  the environment variable or key file its type needs, distinct tags, variables without control characters; a
  bastion has an address, a user and a usable credential too.
\<close>

theorem Select_targets_ok:
  assumes "Select iv sel = Inr ts" and "t \<in> set ts"
  shows "target_ok t"
proof -
  have ok: "entries_ok iv (host_entries iv)" and "t \<in> set (targets iv)"
    using assms by (auto simp: Select_Inr_iff)
  then obtain e where e: "e \<in> set (host_entries iv)" "t = entry_target iv e"
    by (auto simp: targets_def)
  then have "entry_ok iv e"
    using ok by (simp add: entries_ok_def)
  from resolve_target_ok [OF entry_ok_resolve [OF this]] this show ?thesis
    by (simp add: e(2) entry_ok_def entry_name_def)
qed


text \<open>
  Settings are inherited host over group over inventory defaults: a variable, the port, the user and the
  credential come from the first of them that sets one (then port 22 and the user of the credential); tags
  accumulate.
\<close>

theorem resolve_inherits:
  assumes "resolve iv g gd h = Inr t"
    and "gomap_ok (elems (id_Variables (inv_Defaults iv)))" "gomap_ok (elems (id_Variables gd))" "gomap_ok (ih_Variables h)"
  shows "(map_of (tg_Variables t) k =
       (case map_of (ih_Variables h) k of
          Some v \<Rightarrow> Some v
        | None \<Rightarrow> (case map_of (elems (id_Variables gd)) k of
            Some v \<Rightarrow> Some v
          | None \<Rightarrow> map_of (elems (id_Variables (inv_Defaults iv))) k))) \<and>
    (set (tg_Tags t) = set (elems (id_Tags (inv_Defaults iv))) \<union> set (elems (id_Tags gd)) \<union> set (ih_Tags h)) \<and>
    (ep_Port t = (if ih_Port h \<noteq> 0 then ih_Port h else if id_Port gd \<noteq> 0 then id_Port gd
                      else if id_Port (inv_Defaults iv) \<noteq> 0 then id_Port (inv_Defaults iv) else 22)) \<and>
    (cred_Name (ep_Credential t) =
           (if ih_Credential h \<noteq> '''' then ih_Credential h else if id_Credential gd \<noteq> '''' then id_Credential gd
            else id_Credential (inv_Defaults iv))) \<and>
    (ep_Username t =
           (if ih_Username h \<noteq> '''' then ih_Username h else if id_Username gd \<noteq> '''' then id_Username gd
            else if id_Username (inv_Defaults iv) \<noteq> '''' then id_Username (inv_Defaults iv)
            else cred_Username (ep_Credential t)))"
proof (intro conjI)
  let ?d = "inv_Defaults iv"
  obtain cred bastion where r:
    "ep_Port t = first_of 0 [ih_Port h, id_Port gd, id_Port ?d, 22]"
    "credential iv (first_of '''' [ih_Credential h, id_Credential gd, id_Credential ?d]) = Inr cred"
    "t = \<lparr>ep_Name = ih_Name h, ep_Address = ih_Address h, ep_Port = ep_Port t,
          ep_Username = first_of '''' [ih_Username h, id_Username gd, id_Username ?d, cred_Username cred],
          ep_Credential = cred, tg_Group = g,
          tg_Tags = fold add_tag (elems (id_Tags ?d) @ elems (id_Tags gd) @ ih_Tags h) [],
          tg_Variables = inherited_vars ?d gd h, tg_Bastion = bastion\<rparr>"
    using resolveE [OF assms(1)] by metis
  have fields: "ep_Credential t = cred" "tg_Variables t = inherited_vars ?d gd h"
    "tg_Tags t = fold add_tag (elems (id_Tags ?d) @ elems (id_Tags gd) @ ih_Tags h) []"
    "ep_Username t = first_of '''' [ih_Username h, id_Username gd, id_Username ?d, cred_Username cred]"
    by (subst r(3), simp)+
  show "map_of (tg_Variables t) k =
       (case map_of (ih_Variables h) k of
          Some v \<Rightarrow> Some v
        | None \<Rightarrow> (case map_of (elems (id_Variables gd)) k of
            Some v \<Rightarrow> Some v
          | None \<Rightarrow> map_of (elems (id_Variables ?d)) k))"
    using assms(2-4) by (simp add: fields inherited_vars_def gomap_simps split: option.splits)
  show "set (tg_Tags t) = set (elems (id_Tags ?d)) \<union> set (elems (id_Tags gd)) \<union> set (ih_Tags h)"
    unfolding fields set_add_tags by auto
  show "ep_Port t = (if ih_Port h \<noteq> 0 then ih_Port h else if id_Port gd \<noteq> 0 then id_Port gd
                      else if id_Port ?d \<noteq> 0 then id_Port ?d else 22)"
    unfolding r(1) by (simp add: first_of_simps)
  show "cred_Name (ep_Credential t) =
           (if ih_Credential h \<noteq> '''' then ih_Credential h else if id_Credential gd \<noteq> '''' then id_Credential gd
            else id_Credential ?d)"
    using r(2) unfolding fields by (auto simp: credential_Inr_iff first_of_simps)
  show "ep_Username t =
           (if ih_Username h \<noteq> '''' then ih_Username h else if id_Username gd \<noteq> '''' then id_Username gd
            else if id_Username ?d \<noteq> '''' then id_Username ?d else cred_Username (ep_Credential t))"
    unfolding fields by (simp add: first_of_simps)
qed

section \<open>Iteration order\<close>

text \<open>Inventories that differ only in the iteration order of their maps and in the order of their hosts.\<close>

definition inv_equiv :: "Inventory \<Rightarrow> Inventory \<Rightarrow> bool" where
  "inv_equiv a b \<longleftrightarrow>
     map_of (inv_Credentials a) = map_of (inv_Credentials b) \<and> map_of (inv_Bastions a) = map_of (inv_Bastions b) \<and>
     inv_Defaults a = inv_Defaults b \<and> mset (inv_Groups a) = mset (inv_Groups b) \<and> mset (inv_Hosts a) = mset (inv_Hosts b)"

lemma inv_equiv_sym: "inv_equiv a b \<Longrightarrow> inv_equiv b a"
  by (simp add: inv_equiv_def)

lemma resolve_equiv: "inv_equiv a b \<Longrightarrow> resolve a = resolve b"
proof -
  assume "inv_equiv a b"
  then have e: "map_of (inv_Credentials a) = map_of (inv_Credentials b)"
    "map_of (inv_Bastions a) = map_of (inv_Bastions b)" "inv_Defaults a = inv_Defaults b"
    by (simp_all add: inv_equiv_def)
  have c: "credential a = credential b"
    by (rule ext) (simp only: credential_def e)
  have "resolve_bastion a = resolve_bastion b"
    by (rule ext) (simp only: resolve_bastion_def c e)
  then show ?thesis
    by (intro ext) (simp only: resolve_def c e)
qed

lemma mset_concat_map: "mset xs = mset ys \<Longrightarrow> mset (concat (map f xs)) = mset (concat (map f ys))"
proof -
  have "mset (concat (map f zs)) = (\<Sum>x\<in>#mset zs. mset (f x))" for zs
    by (induction zs) simp_all
  then show "mset xs = mset ys \<Longrightarrow> ?thesis"
    by simp
qed

lemma mset_host_entries: "inv_equiv a b \<Longrightarrow> mset (host_entries a) = mset (host_entries b)"
  unfolding host_entries_def inv_equiv_def
  by (auto intro: mset_concat_map)

lemma Select_equiv_imp:
  assumes e: "inv_equiv a b" and s: "Select a sel = Inr ts"
  shows "Select b sel = Inr ts"
proof -
  have m: "mset (host_entries a) = mset (host_entries b)"
    using mset_host_entries [OF e] .
  have st: "set (host_entries a) = set (host_entries b)"
    using mset_eq_setD [OF m] .
  have r: "entry_ok a = entry_ok b" "entry_target a = entry_target b"
    using resolve_equiv [OF e] by (simp_all add: fun_eq_iff entry_ok_def entry_target_def)
  have d: "distinct (map entry_name (host_entries a)) = distinct (map entry_name (host_entries b))"
    using m by (intro mset_eq_imp_distinct_iff) simp
  have ok: "entries_ok a (host_entries a)" and ks: "known_selector a sel"
    and ts: "ts = sort_key ep_Name (filter (selected sel) (targets a))"
    using s by (simp_all add: Select_Inr_iff)
  have ok': "entries_ok b (host_entries b)"
    using ok st r d by (simp add: entries_ok_def)
  have "set (inv_Groups a) = set (inv_Groups b)"
    using e mset_eq_setD by (auto simp: inv_equiv_def)
  then have ks': "known_selector b sel"
    using ks st by (simp add: known_selector_def)
  have mt: "mset (filter (selected sel) (targets b)) = mset ts"
    using m r by (simp add: ts targets_def)
  have "distinct (map ep_Name (targets b))"
    unfolding targets_def target_names [OF ok'] using ok' by (simp add: entries_ok_def)
  then have "inj_on ep_Name (set (targets b))"
    by (simp add: distinct_map)
  then have "inj_on ep_Name (set (filter (selected sel) (targets b)))"
    by (rule inj_on_subset) auto
  then have "sort_key ep_Name (filter (selected sel) (targets b)) = ts"
    using mt by (intro sort_key_inj_key_eq) (simp_all add: ts)
  then show ?thesis
    using ok' ks' by (simp add: Select_Inr_iff)
qed

text \<open>
  The random iteration order of Go maps does not show: for two orders of the groups, credentials and bastions
  (and any order of the listed hosts) \<open>Select\<close> succeeds alike and returns the same list.
\<close>

theorem Select_order_irrelevant:
  assumes "inv_equiv a b"
  shows "Select a sel = Inr ts \<longleftrightarrow> Select b sel = Inr ts"
  using Select_equiv_imp [OF assms] Select_equiv_imp [OF inv_equiv_sym [OF assms]] by blast


section \<open>Combining files\<close>

text \<open>The specification of \<open>Load\<close>: everything of all files side by side, and the defaults of the one file that has some.\<close>

definition has_defaults :: "Inventory \<Rightarrow> bool" where
  "has_defaults iv \<longleftrightarrow> inv_Defaults iv \<noteq> InvDefaults_zero"

definition combine :: "Inventory list \<Rightarrow> Inventory" where
  "combine ivs =
     \<lparr>inv_Credentials = concat (map inv_Credentials ivs), inv_Bastions = concat (map inv_Bastions ivs),
      inv_Defaults = (case filter has_defaults ivs of [] \<Rightarrow> InvDefaults_zero | i # _ \<Rightarrow> inv_Defaults i),
      inv_Groups = concat (map inv_Groups ivs), inv_Hosts = concat (map inv_Hosts ivs)\<rparr>"

definition maps_ok :: "Inventory \<Rightarrow> bool" where
  "maps_ok iv \<longleftrightarrow> gomap_ok (inv_Credentials iv) \<and> gomap_ok (inv_Bastions iv) \<and> gomap_ok (inv_Groups iv)"

definition combinable :: "Inventory list \<Rightarrow> bool" where
  "combinable ivs \<longleftrightarrow> maps_ok (combine ivs) \<and> length (filter has_defaults ivs) \<le> 1"

lemma update_fresh: "k \<notin> fst ` set m \<Longrightarrow> AList.update k v m = m @ [(k, v)]"
  by (induction m) auto

lemma gomap_ok_append: "gomap_ok (a @ b) \<longleftrightarrow> gomap_ok a \<and> gomap_ok b \<and> fst ` set a \<inter> fst ` set b = {}"
  by (auto simp: gomap_ok_def)

lemma mergeInto_Inr_iff:
  "gomap_ok dst \<Longrightarrow> gomap_ok src \<Longrightarrow>
   mergeInto dst src kind file = Inr m \<longleftrightarrow> gomap_ok (dst @ src) \<and> m = dst @ src"
proof (induction src arbitrary: dst)
  case (Cons kv src)
  obtain k v where kv: "kv = (k, v)"
    by (cases kv)
  have src: "gomap_ok src"
    using Cons.prems(2) by (simp add: gomap_ok_def)
  show ?case
  proof (cases "k \<in> fst ` set dst")
    case True
    then have "\<not> gomap_ok (dst @ kv # src)"
      by (auto simp: gomap_ok_def kv)
    moreover have "map_of dst k \<noteq> None"
      using True by (simp add: map_of_eq_None_iff)
    ultimately show ?thesis
      by (simp add: kv)
  next
    case False
    then have "gomap_ok (dst @ [kv])"
      using Cons.prems(1) by (simp add: gomap_ok_append kv) (simp add: gomap_ok_def)
    from Cons.IH [OF this src] False show ?thesis
      by (simp add: kv update_fresh map_of_eq_None_iff)
  qed
qed auto

lemma combine_simps [simp]:
  "combine [] = Inventory_zero"
  "inv_Credentials (combine (ivs @ [i])) = inv_Credentials (combine ivs) @ inv_Credentials i"
  "inv_Bastions (combine (ivs @ [i])) = inv_Bastions (combine ivs) @ inv_Bastions i"
  "inv_Groups (combine (ivs @ [i])) = inv_Groups (combine ivs) @ inv_Groups i"
  "inv_Hosts (combine (ivs @ [i])) = inv_Hosts (combine ivs) @ inv_Hosts i"
  by (simp_all add: combine_def Inventory_zero_def)

lemma combinable_prefix: "combinable (a @ b) \<Longrightarrow> combinable a"
  by (auto simp: combinable_def maps_ok_def combine_def gomap_ok_append)

text \<open>\<open>merged\<close> and \<open>defaultsFrom\<close> of the loop, after the files with the inventories \<open>pre\<close>.\<close>

definition from_ok :: "Inventory list \<Rightarrow> string \<Rightarrow> bool" where
  "from_ok pre df \<longleftrightarrow> (df = '''') = (filter has_defaults pre = [])"

lemma merge_file_Inr_iff:
  assumes "maps_ok i" and "p \<noteq> ''''" and "combinable pre" and "from_ok pre df"
  shows "merge_file p i (combine pre, df) = Inr st \<longleftrightarrow>
     combinable (pre @ [i]) \<and> st = (combine (pre @ [i]), if has_defaults i then p else df)"
proof -
  let ?m = "combine pre"
  have i: "gomap_ok (inv_Credentials i)" "gomap_ok (inv_Bastions i)" "gomap_ok (inv_Groups i)"
    using assms(1) by (simp_all add: maps_ok_def)
  have m: "gomap_ok (inv_Credentials ?m)" "gomap_ok (inv_Bastions ?m)" "gomap_ok (inv_Groups ?m)"
    using assms(3) by (simp_all add: combinable_def maps_ok_def)
  note merges = mergeInto_Inr_iff [OF m(1) i(1)] mergeInto_Inr_iff [OF m(2) i(2)] mergeInto_Inr_iff [OF m(3) i(3)]
  show ?thesis
  proof (cases "has_defaults i")
    case True
    have d: "combinable (pre @ [i]) \<longleftrightarrow> maps_ok (combine (pre @ [i])) \<and> df = ''''"
      using assms(3,4) True by (simp add: combinable_def from_ok_def)
    have c: "df = '''' \<Longrightarrow> combine (pre @ [i]) =
        ?m\<lparr>inv_Defaults := inv_Defaults i, inv_Credentials := inv_Credentials ?m @ inv_Credentials i,
           inv_Bastions := inv_Bastions ?m @ inv_Bastions i, inv_Groups := inv_Groups ?m @ inv_Groups i,
           inv_Hosts := inv_Hosts ?m @ inv_Hosts i\<rparr>"
      using assms(4) True by (simp add: combine_def from_ok_def)
    show ?thesis
      using True c by (auto simp: merge_file_def has_defaults_def result_simps merges d maps_ok_def)
  next
    case False
    have d: "combinable (pre @ [i]) \<longleftrightarrow> maps_ok (combine (pre @ [i]))"
      using assms(3) False by (simp add: combinable_def)
    have c: "combine (pre @ [i]) =
        ?m\<lparr>inv_Credentials := inv_Credentials ?m @ inv_Credentials i,
           inv_Bastions := inv_Bastions ?m @ inv_Bastions i, inv_Groups := inv_Groups ?m @ inv_Groups i,
           inv_Hosts := inv_Hosts ?m @ inv_Hosts i\<rparr>"
      using False by (simp add: combine_def)
    show ?thesis
      using False c by (auto simp: merge_file_def has_defaults_def result_simps merges d maps_ok_def)
  qed
qed

definition decodes_maps :: "inv_env \<Rightarrow> bool" where
  "decodes_maps E \<longleftrightarrow> (\<forall>data i. ie_decode E data = InvDecoded i \<longrightarrow> maps_ok i)"

lemma read_inventory_ok: "decodes_maps E \<Longrightarrow> read_inventory E p = Inr i \<Longrightarrow> maps_ok i"
  by (auto simp: decodes_maps_def read_inventory_def decode_def result_simps Inventory_zero_def maps_ok_def
      split: sum.splits inv_decoded.splits)

lemma load_files_Inr_iff:
  assumes "decodes_maps E"
  shows "'''' \<notin> set paths \<Longrightarrow> combinable pre \<Longrightarrow> from_ok pre df \<Longrightarrow>
    load_files E paths (combine pre, df) = Inr m \<longleftrightarrow>
    (\<exists>ivs. list_all2 (\<lambda>p i. read_inventory E p = Inr i) paths ivs \<and> combinable (pre @ ivs) \<and> m = combine (pre @ ivs))"
proof (induction paths arbitrary: pre df)
  case Nil
  then show ?case by auto
next
  case (Cons p paths)
  show ?case
  proof (cases "read_inventory E p")
    case (Inl e)
    then show ?thesis
      by (auto simp: list_all2_Cons1)
  next
    case (Inr i)
    let ?df = "if has_defaults i then p else df"
    have f: "from_ok (pre @ [i]) ?df"
      using Cons.prems(1,3) by (auto simp: from_ok_def)
    have st: "merge_file p i (combine pre, df) = Inr st \<longleftrightarrow> combinable (pre @ [i]) \<and> st = (combine (pre @ [i]), ?df)" for st
      using Cons.prems by (intro merge_file_Inr_iff read_inventory_ok [OF assms Inr]) auto
    have "load_files E (p # paths) (combine pre, df) = Inr m \<longleftrightarrow>
        combinable (pre @ [i]) \<and> load_files E paths (combine (pre @ [i]), ?df) = Inr m"
      unfolding load_files.simps Inr bind_result_simps bind_result_Inr_iff st by blast
    also have "\<dots> \<longleftrightarrow> (\<exists>ivs. list_all2 (\<lambda>p i. read_inventory E p = Inr i) paths ivs \<and>
        combinable ((pre @ [i]) @ ivs) \<and> m = combine ((pre @ [i]) @ ivs))"
      using Cons.IH [OF _ _ f] Cons.prems(1) combinable_prefix by auto
    also have "\<dots> \<longleftrightarrow> (\<exists>ivs. list_all2 (\<lambda>p i. read_inventory E p = Inr i) (p # paths) ivs \<and>
        combinable (pre @ ivs) \<and> m = combine (pre @ ivs))"
      by (auto simp: list_all2_Cons1 Inr)
    finally show ?thesis .
  qed
qed

lemma Inventory_Load_Inr_iff:
  assumes "decodes_maps E" and "'''' \<notin> set paths"
  shows "Inventory_Load E paths = Inr iv \<longleftrightarrow>
    (\<exists>ivs. list_all2 (\<lambda>p i. read_inventory E p = Inr i) paths ivs \<and>
       maps_ok (combine ivs) \<and> length (filter has_defaults ivs) \<le> 1 \<and>
       is_ok (Select (combine ivs) Selector_all) \<and> iv = combine ivs)"
proof -
  have "combinable []" "from_ok [] ''''"
    by (simp_all add: combinable_def from_ok_def maps_ok_def Inventory_zero_def)
  from load_files_Inr_iff [OF assms this]
  have l: "load_files E paths (Inventory_zero, '''') = Inr m \<longleftrightarrow>
      (\<exists>ivs. list_all2 (\<lambda>p i. read_inventory E p = Inr i) paths ivs \<and> combinable ivs \<and> m = combine ivs)" for m
    by simp
  show ?thesis
    by (auto simp: Inventory_Load_def result_simps l combinable_def is_ok_iff)
qed


text \<open>
  C24: Loading several files refines putting them side by side: \<open>Load\<close> succeeds exactly when every file is read,
  no credential, bastion or group name is defined in two of them, at most one file sets defaults and the hosts
  of the combined inventory can all be resolved; then the result is the combined inventory. Nothing is
  overridden silently.
\<close>

theorem Inventory_Load_combines:
  assumes "decodes_maps E" and "'''' \<notin> set paths"
  shows "Inventory_Load E paths = Inr iv \<longleftrightarrow>
    (\<exists>ivs. list_all2 (\<lambda>p i. read_inventory E p = Inr i) paths ivs \<and>
       maps_ok (combine ivs) \<and> length (filter has_defaults ivs) \<le> 1 \<and>
       is_ok (Select (combine ivs) Selector_all) \<and> iv = combine ivs)"
  using Inventory_Load_Inr_iff [OF assms] .

section \<open>An example\<close>

definition example_key :: Credential where
  "example_key = \<lparr>cred_Name = '''', cred_Type = ''private_key'', cred_Username = ''ops'', cred_PasswordEnv = '''',
     cred_KeyFile = ''~/.ssh/id'', cred_PassphraseEnv = '''', cred_SudoPasswordEnv = ''''\<rparr>"

definition example_host :: "string \<Rightarrow> int \<Rightarrow> InvHost" where
  "example_host name port = \<lparr>ih_Name = name, ih_Address = ''10.0.0.1'', ih_Port = port, ih_Username = '''', ih_Credential = '''',
     ih_Bastion = '''', ih_Tags = [''linux''], ih_Variables = [(''zone'', ''b'')]\<rparr>"

definition example_common :: Inventory where
  "example_common = \<lparr>inv_Credentials = [(''key'', example_key)], inv_Bastions = [(''jump'', \<lparr>ba_Address = ''10.0.0.9'',
       ba_Port = 70000, ba_Username = '''', ba_Credential = ''key''\<rparr>)],
     inv_Defaults = InvDefaults_zero\<lparr>id_Credential := ''key'', id_Variables := Some [(''zone'', ''a''), (''ntp'', ''pool'')]\<rparr>,
     inv_Groups = [], inv_Hosts = []\<rparr>"

definition example_site :: Inventory where
  "example_site = Inventory_zero\<lparr>
     inv_Groups := [(''web'', \<lparr>gr_Defaults = InvDefaults_zero\<lparr>id_Port := 2222, id_Bastion := ''jump''\<rparr>, gr_Hosts = [example_host ''web2'' 0, example_host ''web1'' 22]\<rparr>),
                    (''db'', \<lparr>gr_Defaults = InvDefaults_zero, gr_Hosts = [example_host ''db1'' 0]\<rparr>)]\<rparr>"

definition example_inv_env :: inv_env where
  "example_inv_env = \<lparr>ie_fs = (\<lambda>p. Content p),
     ie_decode = (\<lambda>d. if d = ''common.yaml'' then InvDecoded example_common
                      else if d = ''site.yaml'' then InvDecoded example_site else InvEOF)\<rparr>"

definition example_inventory :: Inventory where
  "example_inventory = combine [example_common, example_site]"

definition example_web :: Selector where
  "example_web = Selector_all\<lparr>sel_Groups := [''web'']\<rparr>"

lemma example_select:
  "is_ok (Select example_inventory Selector_all)"
  "map ep_Name (projr (Select example_inventory example_web)) = [''web1'', ''web2'']"
  "is_ok (Select example_inventory example_web)"
  by code_simp+

lemma example_web_ok: "Select example_inventory example_web = Inr (projr (Select example_inventory example_web))"
  using example_select(3) by (auto simp: is_ok_iff)

theorem Select_filters_witness:
  "sorted_wrt (<) (map ep_Name (projr (Select example_inventory Selector_all)))"
  using Select_filters [OF example_web_ok] by force

theorem Select_targets_ok_witness:
  "list_all target_ok (projr (Select example_inventory example_web))"
  using Select_targets_ok [OF example_web_ok] by (simp add: list_all_iff)

theorem resolve_inherits_witness:
  "ep_Port (projr (resolve example_inventory ''web'' (InvDefaults_zero\<lparr>id_Port := 2222\<rparr>) (example_host ''web2'' 0))) = 2222"
proof -
  let ?r = "resolve example_inventory ''web'' (InvDefaults_zero\<lparr>id_Port := 2222\<rparr>) (example_host ''web2'' 0)"
  have "is_ok ?r"
    by code_simp
  then have r: "?r = Inr (projr ?r)"
    by (auto simp: is_ok_iff)
  have "gomap_ok (elems (id_Variables (inv_Defaults example_inventory)))"
    by code_simp
  moreover have "gomap_ok (elems (id_Variables (InvDefaults_zero\<lparr>id_Port := 2222\<rparr>)))" "gomap_ok (ih_Variables (example_host ''web2'' 0))"
    by code_simp+
  ultimately show ?thesis
    using resolve_inherits [OF r, of "''zone''"] by (simp add: example_host_def)
qed

theorem Select_order_irrelevant_witness:
  "Select (example_inventory\<lparr>inv_Groups := rev (inv_Groups example_inventory)\<rparr>) example_web =
   Inr (projr (Select example_inventory example_web))"
proof -
  have "inv_equiv example_inventory (example_inventory\<lparr>inv_Groups := rev (inv_Groups example_inventory)\<rparr>)"
    by (simp add: inv_equiv_def)
  from Select_order_irrelevant [OF this] example_web_ok show ?thesis
    by blast
qed

lemma example_files_read:
  "decodes_maps example_inv_env" "'''' \<notin> set [''common.yaml'', ''site.yaml'']"
  "list_all2 (\<lambda>p i. read_inventory example_inv_env p = Inr i) [''common.yaml'', ''site.yaml''] [example_common, example_site]"
  "maps_ok (combine [example_common, example_site])" "length (filter has_defaults [example_common, example_site]) \<le> 1"
proof -
  have "maps_ok example_common" "maps_ok example_site"
    by code_simp+
  then show "decodes_maps example_inv_env"
    by (simp add: decodes_maps_def example_inv_env_def)
  show "list_all2 (\<lambda>p i. read_inventory example_inv_env p = Inr i) [''common.yaml'', ''site.yaml''] [example_common, example_site]"
    by (simp add: read_inventory_def decode_def example_inv_env_def ReadFile_small InvMaxFileSize_def)
  show "maps_ok (combine [example_common, example_site])" "length (filter has_defaults [example_common, example_site]) \<le> 1"
    by code_simp+
qed simp

lemma example_inventory_load: "Inventory_Load example_inv_env [''common.yaml'', ''site.yaml''] = Inr example_inventory"
  unfolding Inventory_Load_Inr_iff [OF example_files_read(1,2)] using example_files_read(3-5) example_select(1)
  unfolding example_inventory_def by blast

theorem Inventory_Load_combines_witness:
  "Inventory_Load example_inv_env [''common.yaml'', ''site.yaml''] = Inr example_inventory"
  unfolding Inventory_Load_combines [OF example_files_read(1,2)] using example_files_read(3-5) example_select(1)
  unfolding example_inventory_def by blast

text \<open>The port of a bastion is not checked: the example has a bastion with port 70000.\<close>

lemma bastion_port_unchecked:
  "map (map_option ep_Port \<circ> tg_Bastion) (projr (Select example_inventory example_web)) = [Some 70000, Some 70000]"
  by code_simp

end
