(* ===== verification/Prepare.thy ===== *)
theory Prepare
  imports Host_Outcome Load_Job
begin

text \<open>
  \<open>Prepare\<close> of \<open>internal/runner/runner.go\<close>: variables, templates and secrets of every host are resolved before any
  connection is opened, and every problem is reported at once. The environment and the key files are the
  parameter of the credentials; the dialer it stores is the transport of the run.
\<close>

record Input =
  inp_Job :: Job
  inp_Targets :: "Target list"
  inp_Vars :: "(string, string) gomap"
  inp_VarEnv :: "(string, string) gomap"

text \<open>
  The names given with \<open>--var\<close> and \<open>--var-env\<close> must be declared. The two flags are the keys of a map, so either
  may be looked at first: \<open>env_first\<close> says which.
\<close>

definition undeclared :: "Job \<Rightarrow> string \<times> (string, string) gomap \<Rightarrow> string option" where
  "undeclared j fm =
     map_option (\<lambda>(k, v). fst fm @ '' '' @ k @ '': the job declares no variable '' @ fmt_q k)
       (List.find (\<lambda>(k, v). map_of (job_Variables j) k = None) (snd fm))"

definition flag_order :: "bool \<Rightarrow> Input \<Rightarrow> (string \<times> (string, string) gomap) list" where
  "flag_order env_first inp =
     (let vs = (''--var'', inp_Vars inp); es = (''--var-env'', inp_VarEnv inp) in if env_first then [es, vs] else [vs, es])"

text \<open>What the loop over the targets updates.\<close>

record 'k prep =
  pr_auths :: "(string, 'k Auth) gomap"
  pr_redact :: Redactor
  pr_Plans :: "'k Plan list"
  pr_issues :: issues

text \<open>The closure \<open>resolve\<close>: one secret lookup per credential name.\<close>

definition resolve_once :: "Options \<Rightarrow> 'k cred_env \<Rightarrow> Credential \<Rightarrow> 'k prep \<Rightarrow> (Failure + 'k Auth option) \<times> 'k prep" where
  "resolve_once opts E c s =
     (if o_SkipCredentials opts then (Inr None, s)
      else case map_of (pr_auths s) (cred_Name c) of
        Some a \<Rightarrow> (Inr (Some a), s)
      | None \<Rightarrow>
          (case Resolve_auth E c of
             Inl f \<Rightarrow> (Inl f, s)
           | Inr a \<Rightarrow> (Inr (Some a), s\<lparr>pr_redact := Add (pr_redact s) (auth_Secrets a),
                                   pr_auths := AList.update (cred_Name c) a (pr_auths s)\<rparr>)))"

definition add_issue :: "Target \<Rightarrow> string \<Rightarrow> 'k prep \<Rightarrow> 'k prep" where
  "add_issue t msg s = s\<lparr>pr_issues := pr_issues s @ [ep_Name t @ '': '' @ msg]\<rparr>"

text \<open>The two uses of \<open>resolve\<close>: the authentication, or nil after an issue.\<close>

definition auth_or_issue ::
  "Options \<Rightarrow> 'k cred_env \<Rightarrow> Target \<Rightarrow> string \<Rightarrow> Credential \<Rightarrow> 'k prep \<Rightarrow> 'k Auth option \<times> 'k prep" where
  "auth_or_issue opts E t what c s =
     (case resolve_once opts E c s of
        (Inl f, s') \<Rightarrow> (None, add_issue t (what @ Failure_Error f) s')
      | (Inr a, s') \<Rightarrow> (a, s'))"

definition prepare_plan :: "Options \<Rightarrow> 'k cred_env \<Rightarrow> Target \<Rightarrow> Action list \<Rightarrow> 'k prep \<Rightarrow> 'k prep" where
  "prepare_plan opts E t acts s =
     (let (auth, s1) = auth_or_issue opts E t '''' (ep_Credential t) s;
          (bastion, s2) = (case tg_Bastion t of
                             None \<Rightarrow> (None, s1)
                           | Some b \<Rightarrow> auth_or_issue opts E t ''bastion: '' (ep_Credential b) s1)
      in s2\<lparr>pr_Plans := pr_Plans s2 @ [\<lparr>pl_Target = t, pl_Actions = acts, pl_auth = auth, pl_bastion = bastion\<rparr>]\<rparr>)"

definition target_inputs :: "Input \<Rightarrow> Target \<Rightarrow> Inputs" where
  "target_inputs inp t = \<lparr>in_Host = tg_Variables t, in_Job = inp_Vars inp, in_JobEnv = inp_VarEnv inp\<rparr>"

definition run_settings :: "Options \<Rightarrow> Settings" where
  "run_settings opts = \<lparr>set_Timeout = o_StepTimeout opts, set_RetryDelay = o_RetryDelay opts\<rparr>"

definition prepare_target :: "Input \<Rightarrow> Options \<Rightarrow> 'k cred_env \<Rightarrow> Target \<Rightarrow> 'k prep \<Rightarrow> 'k prep" where
  "prepare_target inp opts E t s =
     (case Resolve (inp_Job inp) (target_inputs inp t) (ce_env E) of
        Inl iss \<Rightarrow> add_issue t (ValidationError_Error iss) s
      | Inr (vars, secrets) \<Rightarrow>
          (let s1 = s\<lparr>pr_redact := Add (pr_redact s) secrets\<rparr> in
           case Build (inp_Job inp) vars (run_settings opts) of
             Inl f \<Rightarrow> add_issue t (Failure_Error f) s1
           | Inr acts \<Rightarrow> prepare_plan opts E t acts s1))"

text \<open>Only after the loop does the redactor know every secret: the displayed commands are redacted then.\<close>

definition redact_display :: "Redactor \<Rightarrow> 'k Plan \<Rightarrow> 'k Plan" where
  "redact_display rd p = p\<lparr>pl_Actions := map (\<lambda>a. a\<lparr>act_Display := String rd (act_Display a)\<rparr>) (pl_Actions p)\<rparr>"

definition prep_init :: "'k prep" where
  "prep_init = \<lparr>pr_auths = [], pr_redact = \<lparr>rd_secrets = []\<rparr>, pr_Plans = [], pr_issues = []\<rparr>"

definition Prepare :: "bool \<Rightarrow> 'k cred_env \<Rightarrow> Input \<Rightarrow> Options \<Rightarrow> string + 'k Runner" where
  "Prepare env_first E inp opts =
     (case List.map_filter (undeclared (inp_Job inp)) (flag_order env_first inp) of
        msg # _ \<Rightarrow> Inl msg
      | [] \<Rightarrow>
          (let s = fold (prepare_target inp opts E) (inp_Targets inp) prep_init in
           if pr_issues s \<noteq> [] then Inl (String (pr_redact s) (join (pr_issues s) [newline]))
           else Inr \<lparr>rn_opts = opts, rn_job = inp_Job inp,
                     rn_Plans = map (redact_display (pr_redact s)) (pr_Plans s), rn_redact = pr_redact s\<rparr>))"

section \<open>The specification: every host on its own\<close>

definition auth_ready :: "Options \<Rightarrow> 'k cred_env \<Rightarrow> Credential \<Rightarrow> bool" where
  "auth_ready opts E c \<longleftrightarrow> o_SkipCredentials opts \<or> is_ok (Resolve_auth E c)"

definition the_auth :: "Options \<Rightarrow> 'k cred_env \<Rightarrow> Credential \<Rightarrow> 'k Auth option" where
  "the_auth opts E c = (if o_SkipCredentials opts then None else case Resolve_auth E c of Inl _ \<Rightarrow> None | Inr a \<Rightarrow> Some a)"

definition auth_secrets :: "Options \<Rightarrow> 'k cred_env \<Rightarrow> Credential \<Rightarrow> string list" where
  "auth_secrets opts E c = (case the_auth opts E c of None \<Rightarrow> [] | Some a \<Rightarrow> auth_Secrets a)"

definition target_creds :: "Target \<Rightarrow> Credential list" where
  "target_creds t = ep_Credential t # (case tg_Bastion t of None \<Rightarrow> [] | Some b \<Rightarrow> [ep_Credential b])"

definition target_vars :: "Input \<Rightarrow> 'k cred_env \<Rightarrow> Target \<Rightarrow> issues + ((string, string) gomap \<times> string list)" where
  "target_vars inp E t = Resolve (inp_Job inp) (target_inputs inp t) (ce_env E)"

definition target_acts :: "Input \<Rightarrow> Options \<Rightarrow> 'k cred_env \<Rightarrow> Target \<Rightarrow> Failure + Action list" where
  "target_acts inp opts E t = Build (inp_Job inp) (fst (projr (target_vars inp E t))) (run_settings opts)"

definition target_ready :: "Input \<Rightarrow> Options \<Rightarrow> 'k cred_env \<Rightarrow> Target \<Rightarrow> bool" where
  "target_ready inp opts E t \<longleftrightarrow>
     is_ok (target_vars inp E t) \<and> is_ok (target_acts inp opts E t) \<and> list_all (auth_ready opts E) (target_creds t)"

definition the_plan :: "Input \<Rightarrow> Options \<Rightarrow> 'k cred_env \<Rightarrow> Target \<Rightarrow> 'k Plan" where
  "the_plan inp opts E t =
     \<lparr>pl_Target = t, pl_Actions = projr (target_acts inp opts E t), pl_auth = the_auth opts E (ep_Credential t),
      pl_bastion = (case tg_Bastion t of None \<Rightarrow> None | Some b \<Rightarrow> the_auth opts E (ep_Credential b))\<rparr>"

definition target_secrets :: "Input \<Rightarrow> Options \<Rightarrow> 'k cred_env \<Rightarrow> Target \<Rightarrow> string list" where
  "target_secrets inp opts E t =
     snd (projr (target_vars inp E t)) @ concat (map (auth_secrets opts E) (target_creds t))"

text \<open>A credential name stands for one credential, as in the targets of one inventory.\<close>

definition creds_by_name :: "Target list \<Rightarrow> bool" where
  "creds_by_name ts \<longleftrightarrow> inj_on cred_Name (\<Union>t \<in> set ts. set (target_creds t))"

section \<open>Prepare implements it\<close>

definition long :: "string list \<Rightarrow> string set" where
  "long ss = {s \<in> set ss. MinSecretLen \<le> length s}"

lemma long_append [simp]: "long (a @ b) = long a \<union> long b"
  by (auto simp: long_def)

lemma long_Nil [simp]: "long [] = {}"
  by (simp add: long_def)

text \<open>The cache holds what resolving again would give, and the redactor knows the secrets in it.\<close>

definition cache_ok :: "Credential set \<Rightarrow> 'k cred_env \<Rightarrow> 'k prep \<Rightarrow> bool" where
  "cache_ok C E s \<longleftrightarrow>
     redactor_ok (pr_redact s) \<and>
     (\<forall>n a. map_of (pr_auths s) n = Some a \<longrightarrow>
        long (auth_Secrets a) \<subseteq> set (rd_secrets (pr_redact s)) \<and> (\<exists>c \<in> C. cred_Name c = n \<and> Resolve_auth E c = Inr a))"

abbreviation known :: "'k prep \<Rightarrow> string set" where
  "known s \<equiv> set (rd_secrets (pr_redact s))"

lemma known_Add: "set (rd_secrets (Add r ss)) = set (rd_secrets r) \<union> long ss"
  by (simp add: set_Add long_def)

lemma resolve_once_spec:
  assumes "cache_ok C E s" and "inj_on cred_Name C" and "c \<in> C"
  shows "\<exists>s'. resolve_once opts E c s =
           (if auth_ready opts E c then Inr (the_auth opts E c) else Inl (projl (Resolve_auth E c)), s') \<and>
         cache_ok C E s' \<and> pr_Plans s' = pr_Plans s \<and> pr_issues s' = pr_issues s \<and> known s' = known s \<union> long (auth_secrets opts E c)"
proof (cases "o_SkipCredentials opts")
  case True
  then show ?thesis
    using assms(1) by (simp add: resolve_once_def auth_ready_def the_auth_def auth_secrets_def)
next
  case False
  show ?thesis
  proof (cases "map_of (pr_auths s) (cred_Name c)")
    case (Some a)
    then obtain c' where c': "c' \<in> C" "cred_Name c' = cred_Name c" "Resolve_auth E c' = Inr a"
      and l: "long (auth_Secrets a) \<subseteq> known s"
      using assms(1) unfolding cache_ok_def by blast
    then have "c' = c"
      using assms(2,3) by (auto dest: inj_onD)
    then show ?thesis
      using False Some c' l assms(1)
      by (auto simp: resolve_once_def auth_ready_def the_auth_def auth_secrets_def)
  next
    case None
    show ?thesis
    proof (cases "Resolve_auth E c")
      case (Inl f)
      then show ?thesis
        using False None assms(1) by (simp add: resolve_once_def auth_ready_def the_auth_def auth_secrets_def)
    next
      case (Inr a)
      let ?s = "s\<lparr>pr_redact := Add (pr_redact s) (auth_Secrets a), pr_auths := AList.update (cred_Name c) a (pr_auths s)\<rparr>"
      have "resolve_once opts E c s = (Inr (Some a), ?s)"
        using False None Inr by (simp add: resolve_once_def)
      moreover have "cache_ok C E ?s"
        using assms(1,3) Inr by (auto simp: cache_ok_def known_Add update_conv' redactor_ok_Add split: if_splits)
      ultimately show ?thesis
        using False Inr by (simp add: auth_ready_def the_auth_def auth_secrets_def known_Add)
    qed
  qed
qed

lemma auth_or_issue_spec:
  assumes "cache_ok C E s" and "inj_on cred_Name C" and "c \<in> C"
  obtains s' where "auth_or_issue opts E t w c s = (the_auth opts E c, s')" "cache_ok C E s'" "pr_Plans s' = pr_Plans s"
    "pr_issues s' = [] \<longleftrightarrow> pr_issues s = [] \<and> auth_ready opts E c" "known s' = known s \<union> long (auth_secrets opts E c)"
proof -
  obtain s' where s': "resolve_once opts E c s =
      (if auth_ready opts E c then Inr (the_auth opts E c) else Inl (projl (Resolve_auth E c)), s')"
    "cache_ok C E s'" "pr_Plans s' = pr_Plans s" "pr_issues s' = pr_issues s" "known s' = known s \<union> long (auth_secrets opts E c)"
    using resolve_once_spec [OF assms, of opts] by blast
  show thesis
  proof (cases "auth_ready opts E c")
    case True
    then show thesis
      using s' by (intro that [of s']) (simp_all add: auth_or_issue_def)
  next
    case False
    then have "the_auth opts E c = None"
      by (auto simp: auth_ready_def the_auth_def split: sum.splits)
    then show thesis
      using False s'
      by (intro that [of "add_issue t (w @ Failure_Error (projl (Resolve_auth E c))) s'"])
        (simp_all add: auth_or_issue_def add_issue_def cache_ok_def)
  qed
qed


lemma cache_ok_fields: "cache_ok C E (s\<lparr>pr_Plans := ps\<rparr>) = cache_ok C E s" "cache_ok C E (s\<lparr>pr_issues := is\<rparr>) = cache_ok C E s"
  by (simp_all add: cache_ok_def)

lemma cache_ok_Add: "cache_ok C E s \<Longrightarrow> cache_ok C E (s\<lparr>pr_redact := Add (pr_redact s) ss\<rparr>)"
  by (auto simp: cache_ok_def known_Add redactor_ok_Add)

text \<open>What one target adds, as one statement about the state before and after.\<close>

definition adds_plan ::
  "Options \<Rightarrow> 'k cred_env \<Rightarrow> Credential set \<Rightarrow> bool \<Rightarrow> 'k Plan list \<Rightarrow> string list \<Rightarrow> 'k prep \<Rightarrow> 'k prep \<Rightarrow> bool" where
  "adds_plan opts E C ready ps secrets s s' \<longleftrightarrow>
     cache_ok C E s' \<and> (pr_issues s' = [] \<longleftrightarrow> pr_issues s = [] \<and> ready) \<and>
     (ready \<longrightarrow> pr_Plans s' = pr_Plans s @ ps \<and> known s' = known s \<union> long secrets)"

lemma prepare_plan_spec:
  assumes "cache_ok C E s" and "inj_on cred_Name C" and "set (target_creds t) \<subseteq> C"
  shows "adds_plan opts E C (list_all (auth_ready opts E) (target_creds t))
     [\<lparr>pl_Target = t, pl_Actions = acts, pl_auth = the_auth opts E (ep_Credential t),
       pl_bastion = (case tg_Bastion t of None \<Rightarrow> None | Some b \<Rightarrow> the_auth opts E (ep_Credential b))\<rparr>]
     (concat (map (auth_secrets opts E) (target_creds t))) s (prepare_plan opts E t acts s)"
proof -
  have c: "ep_Credential t \<in> C"
    using assms(3) by (simp add: target_creds_def)
  obtain s1 where s1: "auth_or_issue opts E t '''' (ep_Credential t) s = (the_auth opts E (ep_Credential t), s1)"
    "cache_ok C E s1" "pr_Plans s1 = pr_Plans s" "pr_issues s1 = [] \<longleftrightarrow> pr_issues s = [] \<and> auth_ready opts E (ep_Credential t)"
    "known s1 = known s \<union> long (auth_secrets opts E (ep_Credential t))"
    by (rule auth_or_issue_spec [OF assms(1,2) c])
  show ?thesis
  proof (cases "tg_Bastion t")
    case None
    then show ?thesis
      using s1 by (simp add: adds_plan_def prepare_plan_def target_creds_def cache_ok_fields)
  next
    case (Some b)
    then have "ep_Credential b \<in> C"
      using assms(3) by (simp add: target_creds_def)
    from auth_or_issue_spec [OF s1(2) assms(2) this, of opts t "''bastion: ''"] obtain s2 where s2:
      "auth_or_issue opts E t ''bastion: '' (ep_Credential b) s1 = (the_auth opts E (ep_Credential b), s2)"
      "cache_ok C E s2" "pr_Plans s2 = pr_Plans s1" "pr_issues s2 = [] \<longleftrightarrow> pr_issues s1 = [] \<and> auth_ready opts E (ep_Credential b)"
      "known s2 = known s1 \<union> long (auth_secrets opts E (ep_Credential b))"
      by metis
    show ?thesis
      using Some s1 s2 by (simp add: adds_plan_def prepare_plan_def target_creds_def cache_ok_fields Un_assoc)
  qed
qed

lemma prepare_target_spec:
  assumes "cache_ok C E s" and "inj_on cred_Name C" and "set (target_creds t) \<subseteq> C"
  shows "adds_plan opts E C (target_ready inp opts E t) [the_plan inp opts E t] (target_secrets inp opts E t) s
           (prepare_target inp opts E t s)"
proof (cases "target_vars inp E t")
  case (Inl iss)
  then show ?thesis
    using assms(1) unfolding target_vars_def
    by (simp add: adds_plan_def prepare_target_def target_ready_def target_vars_def add_issue_def cache_ok_fields)
next
  case (Inr vs)
  obtain vars secrets where vs: "vs = (vars, secrets)"
    by (cases vs)
  let ?s1 = "s\<lparr>pr_redact := Add (pr_redact s) secrets\<rparr>"
  have c1: "cache_ok C E ?s1"
    using cache_ok_Add [OF assms(1)] .
  have step: "prepare_target inp opts E t s =
      (case target_acts inp opts E t of Inl f \<Rightarrow> add_issue t (Failure_Error f) ?s1 | Inr acts \<Rightarrow> prepare_plan opts E t acts ?s1)"
    using Inr vs by (simp add: prepare_target_def target_vars_def target_acts_def Let_def)
  show ?thesis
  proof (cases "target_acts inp opts E t")
    case (Inl f)
    then show ?thesis
      using c1 by (simp add: step adds_plan_def target_ready_def add_issue_def cache_ok_fields)
  next
    case (Inr acts)
    then show ?thesis
      using prepare_plan_spec [OF c1 assms(2,3), of opts acts] \<open>target_vars inp E t = Inr vs\<close> vs
      by (simp add: step adds_plan_def target_ready_def the_plan_def target_secrets_def known_Add Un_assoc)
  qed
qed

lemma prepare_targets_spec:
  assumes "inj_on cred_Name C"
  shows "cache_ok C E s \<Longrightarrow> (\<And>t. t \<in> set ts \<Longrightarrow> set (target_creds t) \<subseteq> C) \<Longrightarrow>
    adds_plan opts E C (list_all (target_ready inp opts E) ts) (map (the_plan inp opts E) ts)
      (concat (map (target_secrets inp opts E) ts)) s (fold (prepare_target inp opts E) ts s)"
proof (induction ts arbitrary: s)
  case Nil
  then show ?case by (simp add: adds_plan_def)
next
  case (Cons t ts)
  have t: "adds_plan opts E C (target_ready inp opts E t) [the_plan inp opts E t] (target_secrets inp opts E t) s
           (prepare_target inp opts E t s)"
    using Cons.prems by (intro prepare_target_spec assms) auto
  then have "cache_ok C E (prepare_target inp opts E t s)"
    by (simp add: adds_plan_def)
  from Cons.IH [OF this] Cons.prems(2) t show ?case
    by (auto simp: adds_plan_def)
qed

definition flags_declared :: "Input \<Rightarrow> bool" where
  "flags_declared inp \<longleftrightarrow> fst ` (set (inp_Vars inp) \<union> set (inp_VarEnv inp)) \<subseteq> fst ` set (job_Variables (inp_Job inp))"

lemma undeclared_None: "undeclared j (f, m) = None \<longleftrightarrow> fst ` set m \<subseteq> fst ` set (job_Variables j)"
proof -
  have "undeclared j (f, m) = None \<longleftrightarrow> (\<forall>(k, v) \<in> set m. k \<in> fst ` set (job_Variables j))"
    by (auto simp: undeclared_def find_None_iff map_of_eq_None_iff)
  also have "\<dots> \<longleftrightarrow> fst ` set m \<subseteq> fst ` set (job_Variables j)"
    by (force simp: subset_iff)
  finally show ?thesis .
qed

lemma no_undeclared: "List.map_filter (undeclared (inp_Job inp)) (flag_order b inp) = [] \<longleftrightarrow> flags_declared inp"
proof -
  have f: "List.map_filter (undeclared (inp_Job inp)) xs = [] \<longleftrightarrow> (\<forall>x \<in> set xs. undeclared (inp_Job inp) x = None)" for xs
    by (induction xs) (simp_all split: option.splits)
  show ?thesis
    unfolding f by (auto simp: flag_order_def Let_def undeclared_None flags_declared_def image_Un)
qed

lemma Prepare_Inr_iff:
  assumes "creds_by_name (inp_Targets inp)"
  shows "(is_ok (Prepare b E inp opts) \<longleftrightarrow> flags_declared inp \<and> list_all (target_ready inp opts E) (inp_Targets inp)) \<and>
    (\<forall>R. Prepare b E inp opts = Inr R \<longrightarrow>
       rn_opts R = opts \<and> rn_job R = inp_Job inp \<and> redactor_ok (rn_redact R) \<and>
       rn_Plans R = map (\<lambda>t. redact_display (rn_redact R) (the_plan inp opts E t)) (inp_Targets inp) \<and>
       set (rd_secrets (rn_redact R)) = long (concat (map (target_secrets inp opts E) (inp_Targets inp))))"
proof -
  let ?C = "\<Union>t \<in> set (inp_Targets inp). set (target_creds t)"
  let ?s = "fold (prepare_target inp opts E) (inp_Targets inp) prep_init"
  have init: "cache_ok ?C E prep_init"
    by (simp add: cache_ok_def prep_init_def redactor_ok_def)
  have "adds_plan opts E ?C (list_all (target_ready inp opts E) (inp_Targets inp)) (map (the_plan inp opts E) (inp_Targets inp))
      (concat (map (target_secrets inp opts E) (inp_Targets inp))) prep_init ?s"
    using assms by (intro prepare_targets_spec init) (auto simp: creds_by_name_def)
  then have s: "cache_ok ?C E ?s" "pr_issues ?s = [] \<longleftrightarrow> list_all (target_ready inp opts E) (inp_Targets inp)"
    "pr_issues ?s = [] \<Longrightarrow> pr_Plans ?s = map (the_plan inp opts E) (inp_Targets inp) \<and>
       known ?s = long (concat (map (target_secrets inp opts E) (inp_Targets inp)))"
    by (auto simp: adds_plan_def prep_init_def)
  show ?thesis
  proof (cases "flags_declared inp")
    case True
    then have "Prepare b E inp opts =
        (if pr_issues ?s \<noteq> [] then Inl (String (pr_redact ?s) (join (pr_issues ?s) [newline]))
         else Inr \<lparr>rn_opts = opts, rn_job = inp_Job inp,
                   rn_Plans = map (redact_display (pr_redact ?s)) (pr_Plans ?s), rn_redact = pr_redact ?s\<rparr>)"
      by (simp add: Prepare_def no_undeclared [of inp b, symmetric] Let_def)
    then show ?thesis
      using True s by (auto simp: cache_ok_def)
  next
    case False
    then have "List.map_filter (undeclared (inp_Job inp)) (flag_order b inp) \<noteq> []"
      by (simp add: no_undeclared)
    then obtain m ms where "List.map_filter (undeclared (inp_Job inp)) (flag_order b inp) = m # ms"
      by (meson neq_Nil_conv)
    then show ?thesis
      using False by (simp add: Prepare_def)
  qed
qed


section \<open>Properties\<close>

text \<open>
  C9: \<open>Prepare\<close> implements the specification that looks at every host on its own: it succeeds exactly when every
  name given on the command line is declared and every host's variables, templates and credentials resolve, and
  then the plans are those of the specification, in the order of the targets; sharing one lookup per credential
  changes nothing. The redactor then knows exactly the secrets of all hosts of three bytes or more.
\<close>

theorem Prepare_refines:
  assumes "creds_by_name (inp_Targets inp)"
  shows "(is_ok (Prepare b E inp opts) \<longleftrightarrow>
      fst ` (set (inp_Vars inp) \<union> set (inp_VarEnv inp)) \<subseteq> fst ` set (job_Variables (inp_Job inp)) \<and>
      (\<forall>t \<in> set (inp_Targets inp). target_ready inp opts E t)) \<and>
    (\<forall>R. Prepare b E inp opts = Inr R \<longrightarrow>
       rn_Plans R = map (\<lambda>t. redact_display (rn_redact R) (the_plan inp opts E t)) (inp_Targets inp) \<and>
       set (rd_secrets (rn_redact R)) =
         {s. MinSecretLen \<le> length s \<and> (\<exists>t \<in> set (inp_Targets inp). s \<in> set (target_secrets inp opts E t))})"
  using Prepare_Inr_iff [OF assms, of b E opts] by (auto simp: flags_declared_def list_all_iff long_def)

lemma redact_display_actions:
  "a \<in> set (pl_Actions (redact_display rd p)) \<Longrightarrow> \<exists>a0 \<in> set (pl_Actions p). a = a0\<lparr>act_Display := String rd (act_Display a0)\<rparr>"
  by (auto simp: redact_display_def)


lemma known_mono:
  "known s \<subseteq> known (prepare_target inp opts E t s)"
  "target_vars inp E t = Inr (vars, secrets) \<Longrightarrow> long secrets \<subseteq> known (prepare_target inp opts E t s)"
proof -
  have r: "known s \<subseteq> known s'" if "resolve_once opts E c s = (r, s')" for c r and s s' :: "'a prep"
    using that by (auto simp: resolve_once_def known_Add split: if_splits option.splits sum.splits)
  have a: "known s \<subseteq> known s'" if "auth_or_issue opts E t w c s = (x, s')" for w c x and s s' :: "'a prep"
    using that r [of c s] by (auto simp: auth_or_issue_def add_issue_def split: prod.splits sum.splits)
  have p: "known s \<subseteq> known (prepare_plan opts E t acts s)" for acts and s :: "'a prep"
  proof -
    obtain x s1 where 1: "auth_or_issue opts E t '''' (ep_Credential t) s = (x, s1)"
      by fastforce
    obtain y s2 where 2: "(case tg_Bastion t of None \<Rightarrow> (None, s1)
        | Some b \<Rightarrow> auth_or_issue opts E t ''bastion: '' (ep_Credential b) s1) = (y, s2)"
      by fastforce
    have "known s1 \<subseteq> known s2"
      using 2 a by (auto split: option.splits)
    then show ?thesis
      using a [OF 1] by (auto simp: prepare_plan_def 1 2)
  qed
  have target: "known (s\<lparr>pr_redact := Add (pr_redact s) secrets\<rparr>) \<subseteq> known (prepare_target inp opts E t s)"
    if "target_vars inp E t = Inr (vars, secrets)" for vars secrets and s :: "'a prep"
    using that p [of "s\<lparr>pr_redact := Add (pr_redact s) secrets\<rparr>"]
    by (auto simp: prepare_target_def target_vars_def add_issue_def Let_def split: sum.splits)
  show "known s \<subseteq> known (prepare_target inp opts E t s)"
  proof (cases "target_vars inp E t")
    case (Inl iss)
    then show ?thesis
      by (simp add: prepare_target_def target_vars_def add_issue_def)
  next
    case (Inr vs)
    then show ?thesis
      using target [of "fst vs" "snd vs" s] by (auto simp: known_Add)
  qed
  show "target_vars inp E t = Inr (vars, secrets) \<Longrightarrow> long secrets \<subseteq> known (prepare_target inp opts E t s)"
    using target [of vars secrets s] by (auto simp: known_Add)
qed

lemma fold_known:
  "known s \<subseteq> known (fold (prepare_target inp opts E) ts s)"
  "t \<in> set ts \<Longrightarrow> target_vars inp E t = Inr (vars, secrets) \<Longrightarrow> long secrets \<subseteq> known (fold (prepare_target inp opts E) ts s)"
proof (induction ts arbitrary: s)
  case (Cons u us)
  {
    case 1
    show ?case
      using Cons.IH(1) [of "prepare_target inp opts E u s"] known_mono(1) [of s inp opts E u] by simp
  next
    case 2
    show ?case
    proof (cases "t = u")
      case True
      then show ?thesis
        using known_mono(2) [OF 2(2)] Cons.IH(1) [of "prepare_target inp opts E u s"] by fastforce
    next
      case False
      then show ?thesis
        using 2 Cons.IH(2) by simp
    qed
  }
qed simp_all

text \<open>
  A validation message does not leak: when \<open>Prepare\<close> reports problems of the hosts, the text contains no
  secret value of a host whose variables could be resolved.
\<close>

theorem Prepare_error_hides:
  assumes "creds_by_name (inp_Targets inp)" and "flags_declared inp" and "Prepare b E inp opts = Inl msg"
    and "t \<in> set (inp_Targets inp)" and "target_vars inp E t = Inr (vars, secrets)"
    and "sec \<in> set secrets" and "MinSecretLen \<le> length sec" and "maskable sec"
  shows "\<not> contains msg sec"
proof -
  let ?C = "\<Union>t \<in> set (inp_Targets inp). set (target_creds t)"
  let ?s = "fold (prepare_target inp opts E) (inp_Targets inp) prep_init"
  have "cache_ok ?C E prep_init"
    by (simp add: cache_ok_def prep_init_def redactor_ok_def)
  from prepare_targets_spec [OF _ this, of "inp_Targets inp" opts inp] assms(1)
  have "redactor_ok (pr_redact ?s)"
    by (auto simp: adds_plan_def cache_ok_def creds_by_name_def)
  moreover have "sec \<in> known ?s"
    using fold_known(2) [OF assms(4,5), of opts prep_init] assms(6,7) by (auto simp: long_def)
  moreover have "msg = String (pr_redact ?s) (join (pr_issues ?s) [newline])"
    using assms(2,3) no_undeclared [of inp b] by (simp add: Prepare_def Let_def split: if_splits)
  ultimately show ?thesis
    using String_hides assms(8) by blast
qed


section \<open>An example\<close>

definition prep_input :: Input where
  "prep_input = \<lparr>inp_Job = example_job\<lparr>job_Steps := [job_Steps valid_job ! 1]\<rparr>, inp_Targets = [example_target],
     inp_Vars = [(''server'', ''ntp1'')], inp_VarEnv = [(''token'', ''TOK'')]\<rparr>"

definition prep_env :: "(string \<Rightarrow> string option) \<Rightarrow> unit cred_env" where
  "prep_env env = example_cred_env\<lparr>ce_env := env\<rparr>"

definition full_env :: "string \<Rightarrow> string option" where
  "full_env = map_of [(''TOK'', ''s3cret''), (cred_PasswordEnv example_cred, ''hunter2''), (''SUDO'', ''hunter2'')]"

lemma prep_creds: "creds_by_name (inp_Targets prep_input)"
  by (simp add: creds_by_name_def prep_input_def target_creds_def example_target_def)

lemma prep_evaluated:
  "is_ok (Prepare False (prep_env full_env) prep_input example_options)"
  "\<not> is_ok (Prepare False (prep_env (full_env(''SUDO'' := None))) prep_input example_options)"
  "map act_Display (pl_Actions (hd (rn_Plans (projr (Prepare False (prep_env full_env) prep_input example_options))))) = [''ntpdate ntp1'']"
  "set (target_secrets prep_input example_options (prep_env full_env) example_target) = {''s3cret'', ''hunter2''}"
  "target_vars prep_input (prep_env (full_env(''SUDO'' := None))) example_target =
     Inr (projr (target_vars prep_input (prep_env full_env) example_target))"
  "snd (projr (target_vars prep_input (prep_env full_env) example_target)) = [''s3cret'', ''s3cret'']"
  by code_simp+

lemma prep_secret: "MinSecretLen \<le> length ''s3cret''" "maskable ''s3cret''" "\<not> contains SensitiveMask ''s3cret''"
  by code_simp+

lemma prep_runner: "Prepare False (prep_env full_env) prep_input example_options =
   Inr (projr (Prepare False (prep_env full_env) prep_input example_options))"
  using prep_evaluated(1) by (auto simp: is_ok_iff)

theorem Prepare_refines_witness:
  "map pl_Target (rn_Plans (projr (Prepare False (prep_env full_env) prep_input example_options))) = [example_target]"
  using Prepare_refines [OF prep_creds, of False "prep_env full_env" example_options] prep_runner
  by (auto simp: comp_def redact_display_def the_plan_def prep_input_def)


theorem Prepare_error_hides_witness:
  "\<not> contains (projl (Prepare False (prep_env (full_env(''SUDO'' := None))) prep_input example_options)) ''s3cret''"
proof -
  let ?P = "Prepare False (prep_env (full_env(''SUDO'' := None))) prep_input example_options"
  have p: "?P = Inl (projl ?P)"
    using prep_evaluated(2) by (cases ?P) simp_all
  have f: "flags_declared prep_input" and t: "example_target \<in> set (inp_Targets prep_input)"
    by (simp_all add: flags_declared_def prep_input_def example_job_def)
  have v: "target_vars prep_input (prep_env (full_env(''SUDO'' := None))) example_target =
      Inr (fst (projr (target_vars prep_input (prep_env full_env) example_target)), [''s3cret'', ''s3cret''])"
    using prep_evaluated(5,6) by (metis prod.collapse)
  show ?thesis
    by (rule Prepare_error_hides [OF prep_creds f p t v _ prep_secret(1,2)]) simp
qed


end
