(* ===== verification/Classify.thy ===== *)
theory Classify
  imports Domain
begin

text \<open>
  \<open>internal/sshx/classify.go\<close>: what a connection or handshake error means. The error values are those of
  \<open>Domain\<close>; \<open>EOTHER\<close> stands for the system errors whose \<open>Timeout\<close> is false.
\<close>

section \<open>Errors and addresses\<close>

text \<open>\<open>errors.As(err, &ne)\<close> finds the first error of the chain with a \<open>Timeout\<close> method (\<open>net.Error\<close>); this is its answer.\<close>

fun timeout_method :: "go_error \<Rightarrow> bool option" where
  "timeout_method EDeadlineExceeded = Some True"
| "timeout_method (EErrno n m) = Some (n = ETIMEDOUT)"
| "timeout_method (EDNS t name m) = Some t"
| "timeout_method (EWrap m t e) = t"
| "timeout_method _ = None"

definition net_timeout :: "go_error \<Rightarrow> bool" where
  "net_timeout e = (case List.map_filter timeout_method (err_chain e) of t # _ \<Rightarrow> t | [] \<Rightarrow> False)"

definition dns_error :: "go_error \<Rightarrow> (bool \<times> string \<times> string) option" where
  "dns_error e = (case List.map_filter (\<lambda>x. case x of EDNS t n m \<Rightarrow> Some (t, n, m) | _ \<Rightarrow> None) (err_chain e) of d # _ \<Rightarrow> Some d | [] \<Rightarrow> None)"

definition key_error_of :: "go_error \<Rightarrow> string list option" where
  "key_error_of e = (case List.map_filter (\<lambda>x. case x of EKey w \<Rightarrow> Some w | _ \<Rightarrow> None) (err_chain e) of w # _ \<Rightarrow> Some w | [] \<Rightarrow> None)"

definition has_errno :: "go_error \<Rightarrow> Errno \<Rightarrow> bool" where
  "has_errno e n \<longleftrightarrow> list_ex (\<lambda>x. case x of EErrno n' _ \<Rightarrow> n' = n | _ \<Rightarrow> False) (err_chain e)"

text \<open>\<open>net.SplitHostPort\<close>; its callers ignore the error and then see two empty strings.\<close>

definition SplitHostPort :: "string \<Rightarrow> string \<times> string" where
  "SplitHostPort hp =
     (let n = length hp; c = CHR '':'';
          after = rev (takeWhile (\<lambda>x. x \<noteq> c) (rev hp)); i = n - length after - 1
      in if c \<notin> set hp then ('''', '''')
         else if hd hp = CHR ''['' then
           (let e = length (takeWhile (\<lambda>x. x \<noteq> CHR '']'') hp) in
            if CHR '']'' \<notin> set hp \<or> e + 1 \<noteq> i then ('''', '''')
            else if CHR ''['' \<in> set (tl hp) \<or> CHR '']'' \<in> set (drop (e + 1) hp) then ('''', '''')
            else (tl (take e hp), after))
         else if c \<in> set (take i hp) \<or> CHR ''['' \<in> set hp \<or> CHR '']'' \<in> set hp then ('''', '''')
         else (take i hp, after))"

section \<open>Classification\<close>

definition ClassifyDial :: "go_error \<Rightarrow> string \<Rightarrow> Failure" where
  "ClassifyDial err addr =
     (if errors_is err ECanceled then Fail CatCancelled (''cancelled while connecting to '' @ addr)
      else case dns_error err of
        Some (timeout, name, msg) \<Rightarrow>
          if timeout then Fail CatConnectionTimeout (''DNS lookup timeout for '' @ name)
          else Fail CatDNSFailure (''DNS lookup failed for '' @ name @ '': '' @ msg)
      | None \<Rightarrow>
          if has_errno err ECONNREFUSED then Fail CatConnectionRefused (''connection refused by '' @ addr)
          else if errors_is err EDeadlineExceeded \<or> net_timeout err
          then Fail CatConnectionTimeout (''connection to '' @ addr @ '' timed out'')
          else if has_errno err EHOSTUNREACH \<or> has_errno err ENETUNREACH
          then Fail CatConnectionTimeout (''network unreachable for '' @ addr @ '': '' @ err_string err)
          else if contains (err_string err) ''connect failed''
          then Fail CatConnectionRefused (''bastion could not reach '' @ addr @ '': '' @ err_string err)
          else Fail CatConnectionTimeout (''connection to '' @ addr @ '' failed: '' @ err_string err))"

definition ClassifyHandshake :: "go_error \<Rightarrow> string \<Rightarrow> bool \<Rightarrow> Failure" where
  "ClassifyHandshake err addr timedOut =
     (case as_failure err of
        Some f \<Rightarrow> f
      | None \<Rightarrow>
          (case key_error_of err of
             Some want \<Rightarrow>
               if want \<noteq> []
               then Fail CatHostKeyMismatch (''host key for '' @ addr @ '' does not match known_hosts (possible man-in-the-middle)'')
               else (let (host, port) = SplitHostPort addr in
                     Fail CatHostKeyUnknown (''host key for '' @ addr @
                       '' is not in known_hosts (verify the fingerprint, then: ssh-keyscan -p '' @ port @ '' '' @ host @
                       '' >> ~/.ssh/known_hosts, or run with --accept-new-host-keys)''))
           | None \<Rightarrow>
               if contains (err_string err) ''unable to authenticate'' \<or> contains (err_string err) ''no supported methods remain''
               then Fail CatAuthFailed (''authentication failed for '' @ addr)
               else if timedOut then Fail CatHandshakeFailed (''SSH handshake with '' @ addr @ '' timed out'')
               else if errors_is err ECanceled then Fail CatCancelled (''cancelled during SSH handshake with '' @ addr)
               else if errors_is err EEOF
               then Fail CatHandshakeFailed (''connection closed during SSH handshake with '' @ addr)
               else Fail CatHandshakeFailed (''SSH handshake with '' @ addr @ '' failed: '' @ err_string err)))"

section \<open>Properties\<close>

lemma itoa_chars:
  assumes "10 \<le> digit_val c" and "c \<noteq> CHR ''-''"
  shows "c \<notin> set (itoa i)"
proof -
  have "c \<noteq> digit_char m" for m
    using assms(1) mod_less_divisor [of 10 m] by (metis digit_val_digit_char leD zero_less_numeral)
  then have "c \<notin> set (nat_string n)" for n
    by (induction n rule: nat_string.induct) (subst nat_string.simps, auto)
  then show ?thesis
    using assms(2) by (simp add: itoa_def)
qed

lemma takeWhile_until: "c \<notin> set xs \<Longrightarrow> takeWhile (\<lambda>x. x \<noteq> c) (xs @ c # ys) = xs"
  by (induction xs) auto

text \<open>
  The address printed for \<open>ssh-keyscan\<close> is the one dialed: splitting \<open>host:port\<close> gives back the address and the
  port of the endpoint, for names, IPv4 and IPv6 addresses (an address has no brackets).
\<close>

theorem SplitHostPort_Addr:
  assumes "CHR ''['' \<notin> set (ep_Address e)" and "CHR '']'' \<notin> set (ep_Address e)"
  shows "SplitHostPort (Addr (e :: Endpoint)) = (ep_Address e, itoa (ep_Port e))"
proof -
  let ?h = "ep_Address e" and ?p = "itoa (ep_Port e)"
  have p: "CHR '':'' \<notin> set ?p" "CHR ''['' \<notin> set ?p" "CHR '']'' \<notin> set ?p"
    by (rule itoa_no_colon, (rule itoa_chars; simp add: digit_val_def)+)
  have tw: "rev (takeWhile (\<lambda>x. x \<noteq> CHR '':'') (rev (xs @ CHR '':'' # ?p))) = ?p" for xs
    using takeWhile_until [of "CHR '':''" "rev ?p" "rev xs"] p(1) by simp
  show ?thesis
  proof (cases "CHR '':'' \<in> set ?h")
    case True
    have eq: "Addr e = (CHR ''['' # ?h @ '']'') @ CHR '':'' # ?p"
      using True by (simp add: Addr_def JoinHostPort_def)
    have e: "takeWhile (\<lambda>x. x \<noteq> CHR '']'') (Addr e) = CHR ''['' # ?h"
      unfolding eq using takeWhile_until [of "CHR '']''" "CHR ''['' # ?h"] assms(2) by simp
    show ?thesis
      unfolding SplitHostPort_def Let_def e unfolding eq tw using assms p by simp
  next
    case False
    have eq: "Addr e = ?h @ CHR '':'' # ?p"
      using False by (simp add: Addr_def JoinHostPort_def)
    have "hd (Addr e) \<noteq> CHR ''[''"
      unfolding eq using assms(1) by (cases ?h) auto
    then show ?thesis
      unfolding SplitHostPort_def Let_def unfolding eq tw using assms p False by simp
  qed
qed

theorem SplitHostPort_Addr_witness:
  "SplitHostPort (Addr \<lparr>ep_Name = ''n'', ep_Address = ''::1'', ep_Port = 2222, ep_Username = ''u'',
     ep_Credential = undefined\<rparr>) = (''::1'', itoa 2222)"
  using SplitHostPort_Addr [of "\<lparr>ep_Name = ''n'', ep_Address = ''::1'', ep_Port = 2222, ep_Username = ''u'', ep_Credential = undefined\<rparr>"]
  by simp

text \<open>
  What is retried after a failed dial: every TCP error is a connection failure that is worth another try,
  except a cancelled run and a name that does not resolve.
\<close>

theorem ClassifyDial_retryable:
  "Retryable (Category (ClassifyDial err addr)) \<longleftrightarrow>
     \<not> errors_is err ECanceled \<and> (\<forall>name msg. dns_error err \<noteq> Some (False, name, msg))"
  by (auto simp: ClassifyDial_def split: option.splits)

text \<open>
  Identity errors are final: a rejected host key is reported as mismatch or unknown, and a refused
  authentication as such, even when the handshake also timed out or the run was cancelled; none of them is
  retried. Every other handshake error is a retryable handshake failure, or a cancelled run.
\<close>

theorem ClassifyHandshake_identity:
  assumes "as_failure err = None"
  shows "Category (ClassifyHandshake err addr timedOut) =
     (case key_error_of err of
        Some want \<Rightarrow> if want = [] then CatHostKeyUnknown else CatHostKeyMismatch
      | None \<Rightarrow>
          if contains (err_string err) ''unable to authenticate'' \<or> contains (err_string err) ''no supported methods remain''
          then CatAuthFailed
          else if \<not> timedOut \<and> errors_is err ECanceled then CatCancelled else CatHandshakeFailed) \<and>
     (Retryable (Category (ClassifyHandshake err addr timedOut)) \<longleftrightarrow>
        Category (ClassifyHandshake err addr timedOut) = CatHandshakeFailed)"
  using assms by (auto simp: ClassifyHandshake_def split: option.splits prod.splits)

theorem ClassifyHandshake_identity_witness:
  "Category (ClassifyHandshake (EWrap ''ssh: handshake failed'' None (EKey [''ssh-ed25519''])) ''10.0.0.1:22'' True) = CatHostKeyMismatch"
  using ClassifyHandshake_identity [of "EWrap ''ssh: handshake failed'' None (EKey [''ssh-ed25519''])" "''10.0.0.1:22''" True]
  by (simp add: as_failure_def key_error_of_def map_filter_def)


end
