(* ===== verification/Bastion_Pool.thy ===== *)
theory Bastion_Pool
  imports Classify
begin

text \<open>
  \<open>internal/sshx/bastion.go\<close>: the pool that shares one connection per bastion among the hosts of a run. Calls run
  concurrently, so the pool is a step relation whose steps are the sections under the mutex and the single
  actions between them. An entry (\<open>*pooled\<close>) is a pointer into a heap that only grows; a connection is a number,
  and which bastion it was dialed for is recorded beside it.
\<close>

section \<open>State\<close>

record pooled =
  po_ready :: bool
  po_c :: "nat option"
  po_err :: "go_error option"

text \<open>
  Where a caller is: inside \<open>get\<close> it owns a new entry (dialing, removing it after an error, about to close \<open>ready\<close>) or
  waits for one; afterwards it uses a connection, or closes it in \<open>broken\<close>.
\<close>

datatype caller =
    Idle
  | Dialing string nat
  | Evicting string nat
  | Publishing string nat
  | Waiting string nat
  | Got string nat
  | Closing nat
  | Returned

record BastionPool =
  bp_conns :: "(string, nat) gomap"
  bp_heap :: "pooled list"
  bp_keys :: "string list"
  bp_dialed :: "string list"
  bp_open :: "nat list"
  bp_watch :: "(string \<times> nat \<times> nat) list"
  bp_callers :: "caller list"

definition at_call :: "nat \<Rightarrow> caller \<Rightarrow> BastionPool \<Rightarrow> BastionPool" where
  "at_call i ph P = P\<lparr>bp_callers := (bp_callers P)[i := ph]\<rparr>"

section \<open>Operations\<close>

text \<open>The locked section of \<open>get\<close>: the entry of the key, or a new one the caller owns.\<close>

definition get_lookup :: "string \<Rightarrow> BastionPool \<Rightarrow> (nat \<times> bool) \<times> BastionPool" where
  "get_lookup key P =
     (case map_of (bp_conns P) key of
        Some e \<Rightarrow> ((e, True), P)
      | None \<Rightarrow>
          (let e = length (bp_heap P) in
           ((e, False), P\<lparr>bp_conns := AList.update key e (bp_conns P),
                         bp_heap := bp_heap P @ [\<lparr>po_ready = False, po_c = None, po_err = None\<rparr>],
                         bp_keys := bp_keys P @ [key]\<rparr>)))"

definition set_result :: "nat \<Rightarrow> nat option \<Rightarrow> go_error option \<Rightarrow> BastionPool \<Rightarrow> BastionPool" where
  "set_result e c err P = P\<lparr>bp_heap := (bp_heap P)[e := (bp_heap P ! e)\<lparr>po_c := c, po_err := err\<rparr>]\<rparr>"

text \<open>A successful dial: a new connection, and the goroutine that waits for its end.\<close>

definition get_dialed :: "string \<Rightarrow> nat \<Rightarrow> BastionPool \<Rightarrow> BastionPool" where
  "get_dialed key e P =
     (let c = length (bp_dialed P) in
      (set_result e (Some c) None P)\<lparr>bp_dialed := bp_dialed P @ [key], bp_open := c # bp_open P,
        bp_watch := (key, e, c) # bp_watch P\<rparr>)"

definition evict :: "string \<Rightarrow> nat \<Rightarrow> BastionPool \<Rightarrow> BastionPool" where
  "evict key e P = (if map_of (bp_conns P) key = Some e then P\<lparr>bp_conns := AList.delete key (bp_conns P)\<rparr> else P)"

definition publish :: "nat \<Rightarrow> BastionPool \<Rightarrow> BastionPool" where
  "publish e P = P\<lparr>bp_heap := (bp_heap P)[e := (bp_heap P ! e)\<lparr>po_ready := True\<rparr>]\<rparr>"

definition tunnel_refused :: "go_error \<Rightarrow> bool" where
  "tunnel_refused err \<longleftrightarrow> list_ex (\<lambda>x. case x of EOpenChannel _ \<Rightarrow> True | _ \<Rightarrow> False) (err_chain err)"

text \<open>The locked section of \<open>broken\<close>.\<close>

definition broken_drop :: "string \<Rightarrow> nat \<Rightarrow> BastionPool \<Rightarrow> BastionPool" where
  "broken_drop key c P =
     (case map_of (bp_conns P) key of
        Some e \<Rightarrow> if po_c (bp_heap P ! e) = Some c then P\<lparr>bp_conns := AList.delete key (bp_conns P)\<rparr> else P
      | None \<Rightarrow> P)"

definition close_conn :: "nat \<Rightarrow> BastionPool \<Rightarrow> BastionPool" where
  "close_conn c P = P\<lparr>bp_open := removeAll c (bp_open P)\<rparr>"

definition close_entry :: "BastionPool \<Rightarrow> nat \<Rightarrow> BastionPool \<Rightarrow> BastionPool" where
  "close_entry P e Q =
     (if po_ready (bp_heap P ! e) then (case po_c (bp_heap P ! e) of Some c \<Rightarrow> close_conn c Q | None \<Rightarrow> Q) else Q)"

definition pool_Close :: "BastionPool \<Rightarrow> BastionPool" where
  "pool_Close P = (fold (\<lambda>(k, e). close_entry P e) (bp_conns P) P)\<lparr>bp_conns := []\<rparr>"

section \<open>Steps\<close>

inductive pool_step :: "BastionPool \<Rightarrow> BastionPool \<Rightarrow> bool" where
  ask: "i < length (bp_callers P) \<Longrightarrow> bp_callers P ! i = Idle \<Longrightarrow> get_lookup key P = ((e, ok), P') \<Longrightarrow>
    pool_step P (at_call i (if ok then Waiting key e else Dialing key e) P')"
| dialed: "i < length (bp_callers P) \<Longrightarrow> bp_callers P ! i = Dialing key e \<Longrightarrow>
    pool_step P (at_call i (Publishing key e) (get_dialed key e P))"
| dial_failed: "i < length (bp_callers P) \<Longrightarrow> bp_callers P ! i = Dialing key e \<Longrightarrow>
    pool_step P (at_call i (Evicting key e) (set_result e None (Some err) P))"
| evicts: "i < length (bp_callers P) \<Longrightarrow> bp_callers P ! i = Evicting key e \<Longrightarrow>
    pool_step P (at_call i (Publishing key e) (evict key e P))"
| publishes: "i < length (bp_callers P) \<Longrightarrow> bp_callers P ! i = Publishing key e \<Longrightarrow>
    pool_step P (at_call i (Waiting key e) (publish e P))"
| returns: "i < length (bp_callers P) \<Longrightarrow> bp_callers P ! i = Waiting key e \<Longrightarrow> po_ready (bp_heap P ! e) \<Longrightarrow>
    pool_step P (at_call i (case po_c (bp_heap P ! e) of Some c \<Rightarrow> Got key c | None \<Rightarrow> Returned) P)"
| cancelled: "i < length (bp_callers P) \<Longrightarrow> bp_callers P ! i = Waiting key e \<Longrightarrow>
    pool_step P (at_call i Returned P)"
| finished: "i < length (bp_callers P) \<Longrightarrow> bp_callers P ! i = Got key c \<Longrightarrow>
    pool_step P (at_call i Returned P)"
| breaks: "i < length (bp_callers P) \<Longrightarrow> bp_callers P ! i = Got key c \<Longrightarrow>
    pool_step P (if tunnel_refused err then at_call i Returned P else at_call i (Closing c) (broken_drop key c P))"
| closes: "i < length (bp_callers P) \<Longrightarrow> bp_callers P ! i = Closing c \<Longrightarrow>
    pool_step P (at_call i Returned (close_conn c P))"
| dies: "c \<in> set (bp_open P) \<Longrightarrow> pool_step P (close_conn c P)"
| watched: "(key, e, c) \<in> set (bp_watch P) \<Longrightarrow> c \<notin> set (bp_open P) \<Longrightarrow>
    pool_step P ((evict key e P)\<lparr>bp_watch := remove1 (key, e, c) (bp_watch P)\<rparr>)"

text \<open>A new pool, with any number of calls to come.\<close>

definition pool_init :: "BastionPool \<Rightarrow> bool" where
  "pool_init P \<longleftrightarrow> bp_conns P = [] \<and> bp_heap P = [] \<and> bp_keys P = [] \<and> bp_dialed P = [] \<and> bp_open P = [] \<and>
     bp_watch P = [] \<and> set (bp_callers P) \<subseteq> {Idle}"

section \<open>The invariant\<close>

fun handle :: "caller \<Rightarrow> (string \<times> nat) option" where
  "handle (Dialing k e) = Some (k, e)"
| "handle (Evicting k e) = Some (k, e)"
| "handle (Publishing k e) = Some (k, e)"
| "handle (Waiting k e) = Some (k, e)"
| "handle _ = None"

fun owned :: "caller \<Rightarrow> nat option" where
  "owned (Dialing k e) = Some e"
| "owned (Evicting k e) = Some e"
| "owned (Publishing k e) = Some e"
| "owned _ = None"

text \<open>What a caller knows, given the heap and the map.\<close>

fun caller_ok :: "BastionPool \<Rightarrow> caller \<Rightarrow> bool" where
  "caller_ok P (Dialing k e) \<longleftrightarrow> e < length (bp_heap P) \<and> bp_keys P ! e = k \<and> map_of (bp_conns P) k = Some e \<and> po_c (bp_heap P ! e) = None"
| "caller_ok P (Evicting k e) \<longleftrightarrow> e < length (bp_heap P) \<and> bp_keys P ! e = k \<and> po_c (bp_heap P ! e) = None"
| "caller_ok P (Publishing k e) \<longleftrightarrow> e < length (bp_heap P) \<and> bp_keys P ! e = k"
| "caller_ok P (Waiting k e) \<longleftrightarrow> e < length (bp_heap P) \<and> bp_keys P ! e = k"
| "caller_ok P (Got k c) \<longleftrightarrow> c < length (bp_dialed P) \<and> bp_dialed P ! c = k"
| "caller_ok P (Closing c) \<longleftrightarrow> c < length (bp_dialed P)"
| "caller_ok P _ \<longleftrightarrow> True"

definition callers_ok :: "BastionPool \<Rightarrow> bool" where
  "callers_ok P \<longleftrightarrow> (\<forall>i < length (bp_callers P). caller_ok P (bp_callers P ! i))"

definition heap_ok :: "BastionPool \<Rightarrow> bool" where
  "heap_ok P \<longleftrightarrow>
     length (bp_keys P) = length (bp_heap P) \<and>
     (\<forall>k e. map_of (bp_conns P) k = Some e \<longrightarrow> e < length (bp_heap P) \<and> bp_keys P ! e = k) \<and>
     (\<forall>e < length (bp_heap P). \<forall>c. po_c (bp_heap P ! e) = Some c \<longrightarrow> c < length (bp_dialed P) \<and> bp_dialed P ! c = bp_keys P ! e)"

text \<open>An entry that is not ready has exactly one owner, so nobody waits for it in vain.\<close>

definition owners_ok :: "BastionPool \<Rightarrow> bool" where
  "owners_ok P \<longleftrightarrow>
     (\<forall>i < length (bp_callers P). \<forall>j < length (bp_callers P). \<forall>e.
        owned (bp_callers P ! i) = Some e \<and> owned (bp_callers P ! j) = Some e \<longrightarrow> i = j) \<and>
     (\<forall>e < length (bp_heap P). \<not> po_ready (bp_heap P ! e) \<longleftrightarrow> (\<exists>i < length (bp_callers P). owned (bp_callers P ! i) = Some e))"

text \<open>An open connection is the one in the map for its bastion, or about to be closed.\<close>

definition open_ok :: "BastionPool \<Rightarrow> bool" where
  "open_ok P \<longleftrightarrow>
     (\<forall>(k, e, c) \<in> set (bp_watch P). e < length (bp_heap P) \<and> po_c (bp_heap P ! e) = Some c) \<and>
     (\<forall>c \<in> set (bp_open P). c < length (bp_dialed P) \<and>
        ((\<exists>e. map_of (bp_conns P) (bp_dialed P ! c) = Some e \<and> po_c (bp_heap P ! e) = Some c) \<or>
         Closing c \<in> set (bp_callers P)))"

definition pool_inv :: "BastionPool \<Rightarrow> bool" where
  "pool_inv P \<longleftrightarrow> heap_ok P \<and> callers_ok P \<and> owners_ok P \<and> open_ok P"

section \<open>What the operations change\<close>

named_theorems pool_simps \<open>fields of the pool after an operation\<close>

lemma at_call_fields [pool_simps]:
  "bp_conns (at_call i ph P) = bp_conns P" "bp_heap (at_call i ph P) = bp_heap P" "bp_keys (at_call i ph P) = bp_keys P"
  "bp_dialed (at_call i ph P) = bp_dialed P" "bp_open (at_call i ph P) = bp_open P" "bp_watch (at_call i ph P) = bp_watch P"
  "bp_callers (at_call i ph P) = (bp_callers P)[i := ph]"
  by (simp_all add: at_call_def)

lemma evict_fields [pool_simps]:
  "bp_heap (evict k e P) = bp_heap P" "bp_keys (evict k e P) = bp_keys P" "bp_dialed (evict k e P) = bp_dialed P"
  "bp_open (evict k e P) = bp_open P" "bp_watch (evict k e P) = bp_watch P" "bp_callers (evict k e P) = bp_callers P"
  "map_of (bp_conns (evict k e P)) k' = (if k' = k \<and> map_of (bp_conns P) k = Some e then None else map_of (bp_conns P) k')"
  by (simp_all add: evict_def delete_conv')

lemma broken_fields [pool_simps]:
  "bp_heap (broken_drop k c P) = bp_heap P" "bp_keys (broken_drop k c P) = bp_keys P" "bp_dialed (broken_drop k c P) = bp_dialed P"
  "bp_open (broken_drop k c P) = bp_open P" "bp_watch (broken_drop k c P) = bp_watch P" "bp_callers (broken_drop k c P) = bp_callers P"
  "map_of (bp_conns (broken_drop k c P)) k' =
     (if k' = k \<and> (\<exists>e. map_of (bp_conns P) k = Some e \<and> po_c (bp_heap P ! e) = Some c) then None else map_of (bp_conns P) k')"
  by (auto simp: broken_drop_def delete_conv' split: option.splits)

lemma close_fields [pool_simps]:
  "bp_conns (close_conn c P) = bp_conns P" "bp_heap (close_conn c P) = bp_heap P" "bp_keys (close_conn c P) = bp_keys P"
  "bp_dialed (close_conn c P) = bp_dialed P" "set (bp_open (close_conn c P)) = set (bp_open P) - {c}"
  "bp_watch (close_conn c P) = bp_watch P" "bp_callers (close_conn c P) = bp_callers P"
  by (simp_all add: close_conn_def)

lemma result_fields [pool_simps]:
  "bp_conns (set_result e c err P) = bp_conns P" "length (bp_heap (set_result e c err P)) = length (bp_heap P)"
  "bp_keys (set_result e c err P) = bp_keys P" "bp_dialed (set_result e c err P) = bp_dialed P"
  "bp_open (set_result e c err P) = bp_open P" "bp_watch (set_result e c err P) = bp_watch P"
  "bp_callers (set_result e c err P) = bp_callers P"
  "e < length (bp_heap P) \<Longrightarrow> po_c (bp_heap (set_result e c err P) ! e') = (if e' = e then c else po_c (bp_heap P ! e'))"
  "e < length (bp_heap P) \<Longrightarrow> po_ready (bp_heap (set_result e c err P) ! e') = po_ready (bp_heap P ! e')"
  by (simp_all add: set_result_def nth_list_update)

lemma dialed_fields [pool_simps]:
  "bp_conns (get_dialed k e P) = bp_conns P" "length (bp_heap (get_dialed k e P)) = length (bp_heap P)"
  "bp_keys (get_dialed k e P) = bp_keys P" "bp_dialed (get_dialed k e P) = bp_dialed P @ [k]"
  "bp_open (get_dialed k e P) = length (bp_dialed P) # bp_open P"
  "bp_watch (get_dialed k e P) = (k, e, length (bp_dialed P)) # bp_watch P" "bp_callers (get_dialed k e P) = bp_callers P"
  "e < length (bp_heap P) \<Longrightarrow>
     po_c (bp_heap (get_dialed k e P) ! e') = (if e' = e then Some (length (bp_dialed P)) else po_c (bp_heap P ! e'))"
  "e < length (bp_heap P) \<Longrightarrow> po_ready (bp_heap (get_dialed k e P) ! e') = po_ready (bp_heap P ! e')"
  by (simp_all add: get_dialed_def Let_def result_fields)

lemma publish_fields [pool_simps]:
  "bp_conns (publish e P) = bp_conns P" "length (bp_heap (publish e P)) = length (bp_heap P)" "bp_keys (publish e P) = bp_keys P"
  "bp_dialed (publish e P) = bp_dialed P" "bp_open (publish e P) = bp_open P" "bp_watch (publish e P) = bp_watch P"
  "bp_callers (publish e P) = bp_callers P"
  "e < length (bp_heap P) \<Longrightarrow> po_c (bp_heap (publish e P) ! e') = po_c (bp_heap P ! e')"
  "e < length (bp_heap P) \<Longrightarrow> po_ready (bp_heap (publish e P) ! e') = (e' = e \<or> po_ready (bp_heap P ! e'))"
  by (auto simp: publish_def nth_list_update)

lemma get_lookup_cases:
  assumes "get_lookup k P = ((e, ok), P')"
  obtains (hit) "ok" "P' = P" "map_of (bp_conns P) k = Some e"
  | (miss) "\<not> ok" "map_of (bp_conns P) k = None" "e = length (bp_heap P)"
      "bp_heap P' = bp_heap P @ [\<lparr>po_ready = False, po_c = None, po_err = None\<rparr>]" "bp_keys P' = bp_keys P @ [k]"
      "bp_dialed P' = bp_dialed P" "bp_open P' = bp_open P" "bp_watch P' = bp_watch P" "bp_callers P' = bp_callers P"
      "map_of (bp_conns P') = (map_of (bp_conns P))(k \<mapsto> e)"
  using assms by (auto simp: get_lookup_def Let_def update_conv' split: option.splits)

section \<open>Every step keeps the invariant\<close>

lemma caller_at: "callers_ok P \<Longrightarrow> i < length (bp_callers P) \<Longrightarrow> bp_callers P ! i = ph \<Longrightarrow> caller_ok P ph"
  unfolding callers_ok_def by blast

lemma heap_ok_step: "pool_step P Q \<Longrightarrow> heap_ok P \<Longrightarrow> callers_ok P \<Longrightarrow> heap_ok Q"
proof (induction rule: pool_step.induct)
  case (ask i P key e ok P')
  from ask.hyps(3) show ?case
  proof (cases rule: get_lookup_cases)
    case hit
    then show ?thesis
      using ask.prems(1) by (simp add: heap_ok_def pool_simps)
  next
    case miss
    then show ?thesis
      using ask.prems(1) by (auto simp: heap_ok_def pool_simps nth_append less_Suc_eq)
  qed
next
  case (dialed i P key e)
  then show ?case
    using caller_at [OF dialed.prems(2) dialed.hyps] by (auto simp: heap_ok_def pool_simps nth_append less_Suc_eq)
next
  case (dial_failed i P key e err)
  then show ?case
    using caller_at [OF dial_failed.prems(2) dial_failed.hyps] by (auto simp: heap_ok_def pool_simps)
next
  case (publishes i P key e)
  then show ?case
    using caller_at [OF publishes.prems(2) publishes.hyps] by (auto simp: heap_ok_def pool_simps)
qed (auto simp: heap_ok_def pool_simps)

lemma callers_okI:
  assumes "callers_ok P" and "i < length (bp_callers P)" and "bp_callers Q = (bp_callers P)[i := ph]" and "caller_ok Q ph"
    and "\<And>j. j < length (bp_callers P) \<Longrightarrow> j \<noteq> i \<Longrightarrow> caller_ok P (bp_callers P ! j) \<Longrightarrow> caller_ok Q (bp_callers P ! j)"
  shows "callers_ok Q"
  using assms unfolding callers_ok_def by (auto simp: nth_list_update)

lemma other_owner:
  "owners_ok P \<Longrightarrow> i < length (bp_callers P) \<Longrightarrow> owned (bp_callers P ! i) = Some e \<Longrightarrow> j < length (bp_callers P) \<Longrightarrow> j \<noteq> i \<Longrightarrow>
   owned (bp_callers P ! j) \<noteq> Some e"
  unfolding owners_ok_def by blast

lemma caller_ok_same [simp]:
  "caller_ok (at_call i ph P) x = caller_ok P x" "caller_ok (close_conn c P) x = caller_ok P x"
  "caller_ok (P\<lparr>bp_watch := w\<rparr>) x = caller_ok P x"
  by (cases x; simp add: pool_simps)+

lemma callers_ok_step: "pool_step P Q \<Longrightarrow> heap_ok P \<Longrightarrow> callers_ok P \<Longrightarrow> owners_ok P \<Longrightarrow> open_ok P \<Longrightarrow> callers_ok Q"
proof (induction rule: pool_step.induct)
  case (ask i P key e ok P')
  from ask.hyps(3) show ?case
  proof (cases rule: get_lookup_cases)
    case hit
    then show ?thesis
      using ask by (intro callers_okI [OF ask.prems(2) ask.hyps(1)]) (auto simp: pool_simps heap_ok_def)
  next
    case miss
    have "caller_ok P' x" if "caller_ok P x" for x
      using that ask.prems(1) miss by (cases x) (auto simp: nth_append heap_ok_def)
    then show ?thesis
      using ask miss by (intro callers_okI [OF ask.prems(2) ask.hyps(1)]) (auto simp: pool_simps heap_ok_def nth_append)
  qed
next
  case (dialed i P key e)
  note c = caller_at [OF dialed.prems(2) dialed.hyps]
  have "caller_ok (get_dialed key e P) x" if "caller_ok P x" "owned x \<noteq> Some e" for x
    using that c by (cases x) (auto simp: pool_simps nth_append)
  then show ?case
    using dialed c other_owner [OF dialed.prems(3) dialed.hyps(1)]
    by (intro callers_okI [OF dialed.prems(2) dialed.hyps(1)]) (auto simp: pool_simps)
next
  case (dial_failed i P key e err)
  note c = caller_at [OF dial_failed.prems(2) dial_failed.hyps]
  have "caller_ok (set_result e None (Some err) P) x" if "caller_ok P x" for x
    using that c by (cases x) (auto simp: pool_simps)
  then show ?case
    using dial_failed c by (intro callers_okI [OF dial_failed.prems(2) dial_failed.hyps(1)]) (auto simp: pool_simps)
next
  case (evicts i P key e)
  note c = caller_at [OF evicts.prems(2) evicts.hyps]
  have "caller_ok (evict key e P) x" if "caller_ok P x" "owned x \<noteq> Some e" for x
    using that c by (cases x) (auto simp: pool_simps)
  then show ?case
    using evicts c other_owner [OF evicts.prems(3) evicts.hyps(1)]
    by (intro callers_okI [OF evicts.prems(2) evicts.hyps(1)]) (auto simp: pool_simps)
next
  case (publishes i P key e)
  note c = caller_at [OF publishes.prems(2) publishes.hyps]
  have "caller_ok (publish e P) x" if "caller_ok P x" for x
    using that c by (cases x) (auto simp: pool_simps)
  then show ?case
    using publishes c by (intro callers_okI [OF publishes.prems(2) publishes.hyps(1)]) (auto simp: pool_simps)
next
  case (returns i P key e)
  then show ?case
    using caller_at [OF returns.prems(2) returns.hyps(1,2)]
    by (intro callers_okI [OF returns.prems(2) returns.hyps(1)]) (auto simp: pool_simps heap_ok_def split: option.splits)
next
  case (breaks i P key c err)
  have "caller_ok (broken_drop key c P) x" if "caller_ok P x" for x
    using that by (cases x) (auto simp: pool_simps)
  then show ?case
    using breaks caller_at [OF breaks.prems(2) breaks.hyps]
    by (auto intro!: callers_okI [OF breaks.prems(2) breaks.hyps(1)] simp: pool_simps)
next
  case (watched key e c P)
  have "po_c (bp_heap P ! e) = Some c"
    using watched.prems(4) watched.hyps(1) by (auto simp: open_ok_def)
  then have "caller_ok (evict key e P) x" if "caller_ok P x" for x
    using that by (cases x) (auto simp: pool_simps)
  then show ?case
    using watched.prems(2) by (simp add: callers_ok_def pool_simps)
qed (auto simp: callers_ok_def pool_simps nth_list_update)

lemma owners_ok_cong:
  assumes "length (bp_callers Q) = length (bp_callers P)"
    and "\<And>i. i < length (bp_callers P) \<Longrightarrow> owned (bp_callers Q ! i) = owned (bp_callers P ! i)"
    and "length (bp_heap Q) = length (bp_heap P)" and "\<And>e. po_ready (bp_heap Q ! e) = po_ready (bp_heap P ! e)"
  shows "owners_ok Q = owners_ok P"
  unfolding owners_ok_def using assms by (simp cong: conj_cong)

text \<open>A new entry, owned by the caller that logs in.\<close>

lemma owners_ok_new:
  assumes "i < length (bp_callers P)" and "bp_callers P ! i = Idle" and "callers_ok P" and "owners_ok P"
    and new: "e = length (bp_heap P)" "bp_heap P' = bp_heap P @ [\<lparr>po_ready = False, po_c = None, po_err = None\<rparr>]"
      "bp_callers P' = bp_callers P"
  shows "owners_ok (at_call i (Dialing key e) P')"
proof -
  have old: "e' < length (bp_heap P)" if "j < length (bp_callers P)" "owned (bp_callers P ! j) = Some e'" for j e'
    using that assms(3) unfolding callers_ok_def by (cases "bp_callers P ! j") force+
  let ?n = "length (bp_callers P)" and ?Q = "at_call i (Dialing key e) P'"
  have ow: "owned (bp_callers ?Q ! j) = (if j = i then Some e else owned (bp_callers P ! j))" if "j < ?n" for j
    using that new by (simp add: pool_simps nth_list_update)
  have idle: "owned (bp_callers P ! i) = None"
    using assms(2) by simp
  have len: "length (bp_callers ?Q) = ?n" "length (bp_heap ?Q) = Suc e"
    using new by (simp_all add: pool_simps)
  have uniq: "j = k" if "j < ?n" "k < ?n" "owned (bp_callers ?Q ! j) = Some x" "owned (bp_callers ?Q ! k) = Some x" for j k x
    using that old [of j x] old [of k x] assms(4) new(1) unfolding ow [OF that(1)] ow [OF that(2)] owners_ok_def
    by (auto split: if_splits)
  have ready: "\<not> po_ready (bp_heap ?Q ! x) \<longleftrightarrow> (\<exists>j < ?n. owned (bp_callers ?Q ! j) = Some x)" if x: "x < Suc e" for x
  proof (cases "x = e")
    case True
    then show ?thesis
      using ow [OF assms(1)] assms(1) new by (auto simp: pool_simps)
  next
    case False
    then have "(\<exists>j < ?n. owned (bp_callers ?Q ! j) = Some x) \<longleftrightarrow> (\<exists>j < ?n. owned (bp_callers P ! j) = Some x)"
      using ow idle by (metis option.inject option.simps(3))
    moreover have "x < length (bp_heap P)" "po_ready (bp_heap ?Q ! x) = po_ready (bp_heap P ! x)"
      using x False new by (simp_all add: pool_simps nth_append)
    ultimately show ?thesis
      using assms(4) unfolding owners_ok_def by blast
  qed
  show ?thesis
    using uniq ready unfolding owners_ok_def len by blast
qed

text \<open>A finished entry, which loses its owner.\<close>

lemma owners_ok_published:
  assumes "i < length (bp_callers P)" and "bp_callers P ! i = Publishing key e" and "callers_ok P" and "owners_ok P"
  shows "owners_ok (at_call i (Waiting key e) (publish e P))"
proof -
  note c = caller_at [OF assms(3) assms(1,2)]
  let ?n = "length (bp_callers P)" and ?Q = "at_call i (Waiting key e) (publish e P)"
  have ow: "owned (bp_callers ?Q ! j) = (if j = i then None else owned (bp_callers P ! j))" if "j < ?n" for j
    using that by (simp add: pool_simps nth_list_update)
  have own: "owned (bp_callers P ! i) = Some e"
    using assms(2) by simp
  have len: "length (bp_callers ?Q) = ?n" "length (bp_heap ?Q) = length (bp_heap P)"
    by (simp_all add: pool_simps)
  have uniq: "j = k" if "j < ?n" "k < ?n" "owned (bp_callers ?Q ! j) = Some x" "owned (bp_callers ?Q ! k) = Some x" for j k x
    using that assms(4) unfolding ow [OF that(1)] ow [OF that(2)] owners_ok_def by (auto split: if_splits)
  have ready: "\<not> po_ready (bp_heap ?Q ! x) \<longleftrightarrow> (\<exists>j < ?n. owned (bp_callers ?Q ! j) = Some x)" if x: "x < length (bp_heap P)" for x
  proof (cases "x = e")
    case True
    have "\<not> (\<exists>j < ?n. owned (bp_callers ?Q ! j) = Some e)"
      using ow other_owner [OF assms(4) assms(1) own] by auto
    then show ?thesis
      using True c by (simp add: pool_simps)
  next
    case False
    then have "(\<exists>j < ?n. owned (bp_callers ?Q ! j) = Some x) \<longleftrightarrow> (\<exists>j < ?n. owned (bp_callers P ! j) = Some x)"
      using ow own by (metis option.inject option.simps(3))
    moreover have "po_ready (bp_heap ?Q ! x) = po_ready (bp_heap P ! x)"
      using c False by (simp add: pool_simps)
    ultimately show ?thesis
      using assms(4) x unfolding owners_ok_def by blast
  qed
  show ?thesis
    using uniq ready unfolding owners_ok_def len by blast
qed

lemma owners_ok_step: "pool_step P Q \<Longrightarrow> callers_ok P \<Longrightarrow> owners_ok P \<Longrightarrow> owners_ok Q"
proof (induction rule: pool_step.induct)
  case (ask i P key e ok P')
  from ask.hyps(3) show ?case
  proof (cases rule: get_lookup_cases)
    case hit
    then have "owners_ok (at_call i (Waiting key e) P) = owners_ok P"
      using ask.hyps by (intro owners_ok_cong) (auto simp: pool_simps nth_list_update)
    then show ?thesis
      using hit ask.prems by simp
  next
    case miss
    then have "owners_ok (at_call i (Dialing key e) P')"
      using ask.hyps ask.prems by (intro owners_ok_new) simp_all
    then show ?thesis
      using miss(1) by simp
  qed
next
  case (publishes i P key e)
  then show ?case
    by (intro owners_ok_published)
next
  case (dialed i P key e)
  have "owners_ok (at_call i (Publishing key e) (get_dialed key e P)) = owners_ok P"
    using dialed.hyps caller_at [OF dialed.prems(1) dialed.hyps]
    by (intro owners_ok_cong) (auto simp: pool_simps nth_list_update)
  then show ?case
    using dialed.prems by simp
next
  case (dial_failed i P key e err)
  have "owners_ok (at_call i (Evicting key e) (set_result e None (Some err) P)) = owners_ok P"
    using dial_failed.hyps caller_at [OF dial_failed.prems(1) dial_failed.hyps]
    by (intro owners_ok_cong) (auto simp: pool_simps nth_list_update)
  then show ?case
    using dial_failed.prems by simp
next
  case (evicts i P key e)
  have "owners_ok (at_call i (Publishing key e) (evict key e P)) = owners_ok P"
    using evicts.hyps by (intro owners_ok_cong) (auto simp: pool_simps nth_list_update)
  then show ?case
    using evicts.prems by simp
next
  case (breaks i P key c err)
  have "owners_ok (at_call i Returned P) = owners_ok P" "owners_ok (at_call i (Closing c) (broken_drop key c P)) = owners_ok P"
    using breaks.hyps by (intro owners_ok_cong; auto simp: pool_simps nth_list_update)+
  then show ?case
    using breaks.prems by simp
qed ((subst owners_ok_cong, (auto simp: pool_simps nth_list_update split: option.splits)[4]), assumption)+

lemma closing_kept:
  "Closing c \<in> set cs \<Longrightarrow> cs ! i \<noteq> Closing c \<Longrightarrow> Closing c \<in> set (cs[i := ph])"
  by (metis in_set_conv_nth length_list_update nth_list_update_neq)

lemma open_okD:
  "open_ok P \<Longrightarrow> (k, e, c) \<in> set (bp_watch P) \<Longrightarrow> e < length (bp_heap P) \<and> po_c (bp_heap P ! e) = Some c"
  "open_ok P \<Longrightarrow> c \<in> set (bp_open P) \<Longrightarrow> c < length (bp_dialed P)"
  by (auto simp: open_ok_def)

lemma heap_okD: "heap_ok P \<Longrightarrow> map_of (bp_conns P) k = Some e \<Longrightarrow> e < length (bp_heap P) \<and> bp_keys P ! e = k"
  by (simp add: heap_ok_def)

lemma open_okI:
  assumes "open_ok P"
    and "\<And>k e c. (k, e, c) \<in> set (bp_watch Q) \<Longrightarrow>
      (k, e, c) \<in> set (bp_watch P) \<and> e < length (bp_heap P) \<and> po_c (bp_heap P ! e) = Some c \<or>
      e < length (bp_heap Q) \<and> po_c (bp_heap Q ! e) = Some c"
    and "\<And>e c. e < length (bp_heap P) \<Longrightarrow> po_c (bp_heap P ! e) = Some c \<Longrightarrow> e < length (bp_heap Q) \<and> po_c (bp_heap Q ! e) = Some c"
    and "\<And>c. c \<in> set (bp_open Q) \<Longrightarrow> c \<in> set (bp_open P) \<or>
      c < length (bp_dialed Q) \<and> (\<exists>e. map_of (bp_conns Q) (bp_dialed Q ! c) = Some e \<and> po_c (bp_heap Q ! e) = Some c)"
    and "\<And>c. c < length (bp_dialed P) \<Longrightarrow> c < length (bp_dialed Q) \<and> bp_dialed Q ! c = bp_dialed P ! c"
    and "\<And>c e. c \<in> set (bp_open Q) \<Longrightarrow> map_of (bp_conns P) (bp_dialed P ! c) = Some e \<Longrightarrow> po_c (bp_heap P ! e) = Some c \<Longrightarrow>
      (map_of (bp_conns Q) (bp_dialed P ! c) = Some e \<and> po_c (bp_heap Q ! e) = Some c) \<or> Closing c \<in> set (bp_callers Q)"
    and "\<And>c. c \<in> set (bp_open Q) \<Longrightarrow> Closing c \<in> set (bp_callers P) \<Longrightarrow> Closing c \<in> set (bp_callers Q)"
  shows "open_ok Q"
proof -
  have "c < length (bp_dialed Q) \<and> ((\<exists>e. map_of (bp_conns Q) (bp_dialed Q ! c) = Some e \<and> po_c (bp_heap Q ! e) = Some c) \<or>
      Closing c \<in> set (bp_callers Q))" if c: "c \<in> set (bp_open Q)" for c
  proof (cases "c \<in> set (bp_open P)")
    case True
    then have "c < length (bp_dialed P)" and p: "(\<exists>e. map_of (bp_conns P) (bp_dialed P ! c) = Some e \<and> po_c (bp_heap P ! e) = Some c) \<or>
        Closing c \<in> set (bp_callers P)"
      using assms(1) by (auto simp: open_ok_def)
    then have d: "c < length (bp_dialed Q)" "bp_dialed Q ! c = bp_dialed P ! c"
      using assms(5) by auto
    from p show ?thesis
      unfolding d(2) using d(1) assms(6) [OF c] assms(7) [OF c] by blast
  next
    case False
    then show ?thesis
      using assms(4) [OF c] by blast
  qed
  moreover have "e < length (bp_heap Q) \<and> po_c (bp_heap Q ! e) = Some c" if "(k, e, c) \<in> set (bp_watch Q)" for k e c
    using assms(2) [OF that] assms(3) by blast
  ultimately show ?thesis
    unfolding open_ok_def by blast
qed

lemma open_ok_dialed:
  assumes "i < length (bp_callers P)" and "bp_callers P ! i = Dialing key e" and "callers_ok P" and "open_ok P"
  shows "open_ok (at_call i (Publishing key e) (get_dialed key e P))"
proof -
  have c: "e < length (bp_heap P)" "map_of (bp_conns P) key = Some e" "po_c (bp_heap P ! e) = None"
    using caller_at [OF assms(3,1,2)] by simp_all
  show ?thesis
  proof (rule open_okI [OF assms(4)], goal_cases)
    case (1 k x c)
    then show ?case
      using c open_okD(1) [OF assms(4)] by (auto simp: pool_simps)
  next
    case (2 x c)
    then show ?case
      using c by (auto simp: pool_simps)
  next
    case (3 x)
    then show ?case
      using c by (auto simp: pool_simps)
  next
    case (4 x)
    then show ?case
      by (simp add: pool_simps nth_append)
  next
    case (5 x y)
    then show ?case
      using c by (auto simp: pool_simps)
  next
    case (6 x)
    then show ?case
      using closing_kept assms(1,2) by (simp add: pool_simps)
  qed
qed

lemma open_ok_step: "pool_step P Q \<Longrightarrow> heap_ok P \<Longrightarrow> callers_ok P \<Longrightarrow> open_ok P \<Longrightarrow> open_ok Q"
proof (induction rule: pool_step.induct)
  case (ask i P key e ok P')
  from ask.hyps(3) show ?case
  proof (cases rule: get_lookup_cases)
    case hit
    then show ?thesis
      using ask.prems(3) ask.hyps(2) by (auto simp: open_ok_def pool_simps intro: closing_kept)
  next
    case miss
    have "bp_dialed P ! c \<noteq> key" if "map_of (bp_conns P) (bp_dialed P ! c) = Some e'" for c e'
      using that miss(2) by auto
    then show ?thesis
      using miss ask.hyps(2) heap_okD [OF ask.prems(1)] open_okD [OF ask.prems(3)] closing_kept [of _ "bp_callers P" i]
      by (intro open_okI [OF ask.prems(3)]) (simp_all add: pool_simps nth_append)
  qed
next
  case (dialed i P key e)
  then show ?case
    by (intro open_ok_dialed)
next
  case (dial_failed i P key e err)
  show ?case
    using dial_failed.prems dial_failed.hyps caller_at [OF dial_failed.prems(2) dial_failed.hyps]
    by (intro open_okI [OF dial_failed.prems(3)]) (auto simp: pool_simps open_ok_def intro: closing_kept)
next
  case (evicts i P key e)
  show ?case
    using evicts.prems evicts.hyps caller_at [OF evicts.prems(2) evicts.hyps]
    by (intro open_okI [OF evicts.prems(3)]) (auto simp: pool_simps open_ok_def intro: closing_kept)
next
  case (publishes i P key e)
  show ?case
    using publishes.prems publishes.hyps caller_at [OF publishes.prems(2) publishes.hyps]
    by (intro open_okI [OF publishes.prems(3)]) (auto simp: pool_simps open_ok_def intro: closing_kept)
next
  case (returns i P key e)
  show ?case
    using returns.prems returns.hyps
    by (intro open_okI [OF returns.prems(3)]) (auto simp: pool_simps open_ok_def intro: closing_kept)
next
  case (breaks i P key c err)
  have "open_ok (at_call i Returned P)"
    using breaks.prems breaks.hyps
    by (intro open_okI [OF breaks.prems(3)]) (auto simp: pool_simps open_ok_def intro: closing_kept)
  moreover have "open_ok (at_call i (Closing c) (broken_drop key c P))"
    using breaks.prems breaks.hyps
    by (intro open_okI [OF breaks.prems(3)]) (auto simp: pool_simps open_ok_def set_update_memI intro: closing_kept)
  ultimately show ?case
    by simp
next
  case (closes i P c)
  show ?case
    using closes.prems closes.hyps
    by (intro open_okI [OF closes.prems(3)]) (auto simp: pool_simps open_ok_def intro: closing_kept)
next
  case (watched key e c P)
  have w: "po_c (bp_heap P ! e) = Some c"
    using watched.prems(3) watched.hyps(1) by (auto simp: open_ok_def)
  have sub: "x \<in> set (bp_watch P)" if "x \<in> set (remove1 y (bp_watch P))" for x y
    using that set_remove1_subset by fast
  show ?case
    using watched.hyps(2) w open_okD(1) [OF watched.prems(3) sub]
    by (intro open_okI [OF watched.prems(3)]) (auto simp: pool_simps)
qed (auto simp: open_ok_def pool_simps intro: closing_kept)

lemma pool_inv_step: "pool_inv P \<Longrightarrow> pool_step P Q \<Longrightarrow> pool_inv Q"
  unfolding pool_inv_def using heap_ok_step callers_ok_step owners_ok_step open_ok_step by blast

lemma pool_inv_init: "pool_init P \<Longrightarrow> pool_inv P"
proof -
  assume "pool_init P"
  then have "bp_callers P ! i = Idle" if "i < length (bp_callers P)" for i
    using that nth_mem by (fastforce simp: pool_init_def)
  then show ?thesis
    using \<open>pool_init P\<close> by (auto simp: pool_init_def pool_inv_def heap_ok_def callers_ok_def owners_ok_def open_ok_def)
qed

interpretation pool: invariant_system pool_init pool_step pool_inv
  by unfold_locales (use pool_inv_init pool_inv_step in blast)+

end
