(* ===== verification/Bastion_Props.thy ===== *)
theory Bastion_Props
  imports Bastion_Pool
begin

text \<open>
  What the bastion pool promises its callers: one login per bastion at a time, one shared connection, the right
  bastion, a waiter is never forgotten, nothing stays open. Seen from one bastion the pool is a small state
  machine that it refines.
\<close>

abbreviation pool_reachable :: "BastionPool \<Rightarrow> bool" where
  "pool_reachable \<equiv> reachable pool_init pool_step"

lemma reachable_parts:
  assumes "pool_reachable P"
  shows "heap_ok P" "callers_ok P" "owners_ok P" "open_ok P"
  using pool.inv_reachable [OF assms] by (simp_all add: pool_inv_def)

section \<open>One bastion as a state machine\<close>

datatype slot = Absent | Connecting | Up nat

definition slot_of :: "BastionPool \<Rightarrow> string \<Rightarrow> slot" where
  "slot_of P key =
     (case map_of (bp_conns P) key of
        None \<Rightarrow> Absent
      | Some e \<Rightarrow> (case po_c (bp_heap P ! e) of None \<Rightarrow> Connecting | Some c \<Rightarrow> Up c))"

inductive slot_step :: "slot \<Rightarrow> slot \<Rightarrow> bool" where
  login: "slot_step Absent Connecting"
| connected: "slot_step Connecting (Up c)"
| refused: "slot_step Connecting Absent"
| lost: "slot_step (Up c) Absent"

lemma slot_of_cong:
  "map_of (bp_conns Q) k = map_of (bp_conns P) k \<Longrightarrow> (\<And>e. map_of (bp_conns P) k = Some e \<Longrightarrow> po_c (bp_heap Q ! e) = po_c (bp_heap P ! e)) \<Longrightarrow>
   slot_of Q k = slot_of P k"
  by (simp add: slot_of_def split: option.splits)

lemma slot_of_same [simp]:
  "slot_of (at_call i ph P) k = slot_of P k" "slot_of (close_conn c P) k = slot_of P k" "slot_of (P\<lparr>bp_watch := w\<rparr>) k = slot_of P k"
  by (rule slot_of_cong; simp add: pool_simps)+

lemma slot_of_Up: "slot_of P k = Up c \<longleftrightarrow> (\<exists>e. map_of (bp_conns P) k = Some e \<and> po_c (bp_heap P ! e) = Some c)"
  by (auto simp: slot_of_def split: option.splits)

text \<open>The slots after an operation on the pool.\<close>

lemma slot_of_evict: "slot_of (evict key e P) k = (if k = key \<and> map_of (bp_conns P) key = Some e then Absent else slot_of P k)"
  by (auto simp: slot_of_def pool_simps split: option.splits)

lemma slot_of_broken: "slot_of (broken_drop key c P) k = (if k = key \<and> slot_of P key = Up c then Absent else slot_of P k)"
  by (auto simp: slot_of_def pool_simps split: option.splits)

lemma slot_of_dialed:
  assumes "heap_ok P" and "map_of (bp_conns P) key = Some e"
  shows "slot_of (get_dialed key e P) k = (if k = key then Up (length (bp_dialed P)) else slot_of P k)"
  using assms heap_okD [OF assms(1), of k] heap_okD [OF assms] by (auto simp: slot_of_def pool_simps split: option.splits)

lemma slot_of_lookup:
  assumes "get_lookup key P = ((e, False), P')" and "heap_ok P"
  shows "slot_of P key = Absent" "slot_of P' k = (if k = key then Connecting else slot_of P k)"
  using assms(1) by (cases rule: get_lookup_cases; use heap_okD [OF assms(2), of k] in \<open>auto simp: slot_of_def nth_append split: option.splits\<close>)+

text \<open>What one step does to one slot.\<close>

definition slot_move :: "BastionPool \<Rightarrow> BastionPool \<Rightarrow> string \<Rightarrow> bool" where
  "slot_move P Q k \<longleftrightarrow>
     slot_of Q k = slot_of P k \<or>
     slot_step (slot_of P k) (slot_of Q k) \<and>
     (\<forall>c. slot_of P k = Up c \<longrightarrow> c \<notin> set (bp_open P) \<or> Closing c \<in> set (bp_callers Q))"

lemma slot_move_step: "pool_step P Q \<Longrightarrow> pool_inv P \<Longrightarrow> slot_move P Q k"
proof (induction rule: pool_step.induct)
  case (ask i P key e ok P')
  then have "heap_ok P"
    by (simp add: pool_inv_def)
  then show ?case
    using ask.hyps(3) login slot_of_lookup [of key P e P'] get_lookup_cases [OF ask.hyps(3)] by (cases ok) (auto simp: slot_move_def)
next
  case (dialed i P key e)
  have c: "heap_ok P" "map_of (bp_conns P) key = Some e" "slot_of P key = Connecting"
    using caller_at [OF _ dialed.hyps] dialed.prems by (simp_all add: pool_inv_def slot_of_def)
  then show ?case
    using connected by (simp add: slot_move_def slot_of_dialed)
next
  case (dial_failed i P key e err)
  have c: "e < length (bp_heap P)" "po_c (bp_heap P ! e) = None"
    using caller_at [OF _ dial_failed.hyps] dial_failed.prems by (simp_all add: pool_inv_def)
  then have "slot_of (set_result e None (Some err) P) k = slot_of P k"
    by (intro slot_of_cong) (auto simp: pool_simps)
  then show ?case
    by (simp add: slot_move_def)
next
  case (evicts i P key e)
  have "map_of (bp_conns P) key = Some e \<Longrightarrow> slot_of P key = Connecting"
    using caller_at [OF _ evicts.hyps] evicts.prems by (simp add: pool_inv_def slot_of_def)
  then show ?case
    using refused by (auto simp: slot_move_def slot_of_evict)
next
  case (publishes i P key e)
  have "e < length (bp_heap P)"
    using caller_at [OF _ publishes.hyps] publishes.prems by (simp add: pool_inv_def)
  then have "slot_of (publish e P) k = slot_of P k"
    by (intro slot_of_cong) (auto simp: pool_simps)
  then show ?case
    by (simp add: slot_move_def)
next
  case (breaks i P key c err)
  then show ?case
    using lost by (simp add: slot_move_def slot_of_broken pool_simps set_update_memI)
next
  case (watched key e c P)
  have "map_of (bp_conns P) key = Some e \<Longrightarrow> slot_of P key = Up c"
    using watched.hyps(1) watched.prems open_okD(1) by (auto simp: pool_inv_def slot_of_def)
  then show ?case
    using lost watched.hyps(2) by (auto simp: slot_move_def slot_of_evict)
qed (simp_all add: slot_move_def)

text \<open>
  C14: Seen from one bastion, every step of the pool is a step of the four-step machine (log in, connected, refused,
  lost) or does not touch it; a connection leaves the pool only when it is already closed or when a caller found it
  broken and is about to close it.
\<close>

theorem pool_refines_slots:
  assumes "pool_reachable P" and "pool_step P Q"
  shows "slot_of Q k = slot_of P k \<or>
     slot_step (slot_of P k) (slot_of Q k) \<and>
     (\<forall>c. slot_of P k = Up c \<longrightarrow> c \<notin> set (bp_open P) \<or> Closing c \<in> set (bp_callers Q))"
  using slot_move_step [OF assms(2) pool.inv_reachable [OF assms(1)]] by (simp add: slot_move_def)

section \<open>Safety\<close>

text \<open>
  A bastion sees one login at a time and one connection: two calls never dial the same bastion together, and
  two open connections to one bastion are the same one, unless one of them was found broken and is being closed.
\<close>

theorem pool_single_login:
  assumes "pool_reachable P"
  shows "(i < length (bp_callers P) \<and> bp_callers P ! i = Dialing k e \<and>
          j < length (bp_callers P) \<and> bp_callers P ! j = Dialing k e' \<longrightarrow> i = j) \<and>
     (c \<in> set (bp_open P) \<and> c' \<in> set (bp_open P) \<and> bp_dialed P ! c = bp_dialed P ! c' \<and>
      Closing c \<notin> set (bp_callers P) \<and> Closing c' \<notin> set (bp_callers P) \<longrightarrow> c = c')"
proof (intro conjI impI)
  note ok = reachable_parts [OF assms]
  assume d: "i < length (bp_callers P) \<and> bp_callers P ! i = Dialing k e \<and>
    j < length (bp_callers P) \<and> bp_callers P ! j = Dialing k e'"
  then have "e = e'"
    using caller_at [OF ok(2), of i] caller_at [OF ok(2), of j] by simp
  then have "owned (bp_callers P ! i) = Some e" "owned (bp_callers P ! j) = Some e"
    using d by simp_all
  then show "i = j"
    using other_owner [OF ok(3), of i e j] d by blast
next
  note ok = reachable_parts [OF assms]
  have up: "slot_of P (bp_dialed P ! x) = Up x" if "x \<in> set (bp_open P)" "Closing x \<notin> set (bp_callers P)" for x
  proof -
    have "(\<exists>e. map_of (bp_conns P) (bp_dialed P ! x) = Some e \<and> po_c (bp_heap P ! e) = Some x) \<or> Closing x \<in> set (bp_callers P)"
      using ok(4) that(1) by (simp add: open_ok_def)
    then show ?thesis
      using that(2) unfolding slot_of_Up by blast
  qed
  assume "c \<in> set (bp_open P) \<and> c' \<in> set (bp_open P) \<and> bp_dialed P ! c = bp_dialed P ! c' \<and>
      Closing c \<notin> set (bp_callers P) \<and> Closing c' \<notin> set (bp_callers P)"
  then show "c = c'"
    using up by (metis slot.inject)
qed

text \<open>
  A caller gets a connection to the bastion it asked for, and is never forgotten: a call that waits for an
  entry that is not ready waits for exactly one other call, which still owns the entry and will make it ready.
\<close>

theorem pool_right_bastion:
  assumes "pool_reachable P" and "i < length (bp_callers P)"
  shows "(bp_callers P ! i = Got k c \<longrightarrow> bp_dialed P ! c = k) \<and>
     (bp_callers P ! i = Waiting k e \<and> \<not> po_ready (bp_heap P ! e) \<longrightarrow>
        (\<exists>!j. j < length (bp_callers P) \<and> owned (bp_callers P ! j) = Some e))"
proof (intro conjI impI)
  note ok = reachable_parts [OF assms(1)]
  show "bp_dialed P ! c = k" if "bp_callers P ! i = Got k c"
    using caller_at [OF ok(2) assms(2) that] by simp
  assume w: "bp_callers P ! i = Waiting k e \<and> \<not> po_ready (bp_heap P ! e)"
  then have "e < length (bp_heap P)"
    using caller_at [OF ok(2) assms(2)] by simp
  then have "\<exists>j < length (bp_callers P). owned (bp_callers P ! j) = Some e"
    using ok(3) w unfolding owners_ok_def by blast
  then show "\<exists>!j. j < length (bp_callers P) \<and> owned (bp_callers P ! j) = Some e"
    using ok(3) unfolding owners_ok_def by blast
qed

section \<open>Nothing stays open\<close>

lemma fold_close_open:
  "set (bp_open (fold (\<lambda>(k, e). close_entry P e) es Q)) =
     set (bp_open Q) - {c. \<exists>(k, e) \<in> set es. po_ready (bp_heap P ! e) \<and> po_c (bp_heap P ! e) = Some c}"
proof (induction es arbitrary: Q)
  case (Cons x es)
  have one: "set (bp_open (close_entry P e Q)) =
      set (bp_open Q) - {c. po_ready (bp_heap P ! e) \<and> po_c (bp_heap P ! e) = Some c}" for e
    by (auto simp: close_entry_def pool_simps split: option.splits)
  show ?case
    by (cases x) (auto simp: Cons.IH one)
qed simp

text \<open>
  When the run is over nothing stays open: closing the pool after every call has returned closes every
  connection that was ever dialed through it and is still open.
\<close>

theorem pool_Close_no_leak:
  assumes "pool_reachable P" and "set (bp_callers P) \<subseteq> {Idle, Returned}"
  shows "bp_open (pool_Close P) = [] \<and> bp_conns (pool_Close P) = []"
proof -
  note ok = reachable_parts [OF assms(1)]
  have "\<exists>(k, e) \<in> set (bp_conns P). po_ready (bp_heap P ! e) \<and> po_c (bp_heap P ! e) = Some c" if c: "c \<in> set (bp_open P)" for c
  proof -
    have "Closing c \<notin> set (bp_callers P)"
      using assms(2) by auto
    then obtain e where e: "map_of (bp_conns P) (bp_dialed P ! c) = Some e" "po_c (bp_heap P ! e) = Some c"
      using ok(4) c unfolding open_ok_def by blast
    have "\<not> (\<exists>i < length (bp_callers P). owned (bp_callers P ! i) = Some e)"
      using assms(2) nth_mem by fastforce
    then have "po_ready (bp_heap P ! e)"
      using ok(3) heap_okD [OF ok(1) e(1)] unfolding owners_ok_def by blast
    then show ?thesis
      using e map_of_SomeD [OF e(1)] by blast
  qed
  then have "set (bp_open (pool_Close P)) = {}"
    by (auto simp: pool_Close_def fold_close_open)
  then show ?thesis
    by (simp add: pool_Close_def)
qed

section \<open>An example\<close>

definition new_pool :: "nat \<Rightarrow> BastionPool" where
  "new_pool n = \<lparr>bp_conns = [], bp_heap = [], bp_keys = [], bp_dialed = [], bp_open = [], bp_watch = [], bp_callers = replicate n Idle\<rparr>"

text \<open>Two calls ask for the same bastion; the first one dials.\<close>

definition pool1 :: BastionPool where
  "pool1 = at_call 0 (Dialing ''ops@jump:22'' 0) (snd (get_lookup ''ops@jump:22'' (new_pool 2)))"

definition pool2 :: BastionPool where
  "pool2 = at_call 1 (Waiting ''ops@jump:22'' 0) pool1"

definition pool3 :: BastionPool where
  "pool3 = at_call 0 (Publishing ''ops@jump:22'' 0) (get_dialed ''ops@jump:22'' 0 pool2)"

definition pool4 :: BastionPool where
  "pool4 = at_call 0 (Waiting ''ops@jump:22'' 0) (publish 0 pool3)"

definition pool5 :: BastionPool where
  "pool5 = at_call 1 Returned (at_call 0 Returned pool4)"

lemmas pool_states = pool1_def pool2_def pool3_def pool4_def pool5_def new_pool_def at_call_def get_lookup_def get_dialed_def
  set_result_def publish_def Let_def numeral_2_eq_2

lemma pool_steps:
  "pool_reachable pool2" "pool_step pool2 pool3" "pool_reachable pool3" "pool_reachable pool5"
proof -
  have r0: "pool_reachable (new_pool 2)"
    by (rule reach_init) (simp add: pool_init_def new_pool_def)
  have "pool_step (new_pool 2) pool1"
    using ask [of 0 "new_pool 2" "''ops@jump:22''" 0 False "snd (get_lookup ''ops@jump:22'' (new_pool 2))"]
    by (simp add: pool1_def new_pool_def get_lookup_def Let_def)
  moreover have "pool_step pool1 pool2"
    using ask [of 1 pool1 "''ops@jump:22''" 0 True pool1] by (simp add: pool_states)
  ultimately show r2: "pool_reachable pool2"
    using r0 reach_step by metis
  show s3: "pool_step pool2 pool3"
    using dialed [of 0 pool2 "''ops@jump:22''" 0] unfolding pool3_def by (simp add: pool_states)
  show r3: "pool_reachable pool3"
    using reach_step [OF r2 s3] .
  have "pool_step pool3 pool4"
    using publishes [of 0 pool3 "''ops@jump:22''" 0] unfolding pool4_def by (simp add: pool_states)
  moreover have "pool_step pool4 (at_call 0 Returned pool4)"
    using cancelled [of 0 pool4 "''ops@jump:22''" 0] by (simp add: pool_states)
  moreover have "pool_step (at_call 0 Returned pool4) pool5"
    using cancelled [of 1 "at_call 0 Returned pool4" "''ops@jump:22''" 0] unfolding pool5_def by (simp add: pool_states)
  ultimately show "pool_reachable pool5"
    using r3 reach_step by metis
qed

theorem pool_refines_slots_witness:
  "slot_of pool2 ''ops@jump:22'' = Connecting \<and> slot_of pool3 ''ops@jump:22'' = Up 0 \<and> slot_step Connecting (Up 0)"
proof -
  have "slot_of pool2 ''ops@jump:22'' = Connecting" "slot_of pool3 ''ops@jump:22'' = Up 0"
    by (simp_all add: slot_of_def pool_states)
  then show ?thesis
    using pool_refines_slots [OF pool_steps(1,2), of "''ops@jump:22''"] by simp
qed

theorem pool_single_login_witness: "bp_callers pool2 ! 1 \<noteq> Dialing ''ops@jump:22'' 0"
proof -
  have "0 < length (bp_callers pool2)" "1 < length (bp_callers pool2)" "bp_callers pool2 ! 0 = Dialing ''ops@jump:22'' 0"
    by (simp_all add: pool_states)
  then show ?thesis
    using pool_single_login [OF pool_steps(1), of 0 "''ops@jump:22''" 0 1 0] by auto
qed

theorem pool_right_bastion_witness:
  "\<exists>!j. j < length (bp_callers pool2) \<and> owned (bp_callers pool2 ! j) = Some 0"
  using pool_right_bastion [OF pool_steps(1), of 1 "''ops@jump:22''" undefined 0] by (simp add: pool_states)

theorem pool_Close_no_leak_witness: "bp_open pool5 = [0] \<and> bp_open (pool_Close pool5) = []"
proof -
  have "set (bp_callers pool5) \<subseteq> {Idle, Returned}" "bp_open pool5 = [0]"
    by (simp_all add: pool_states)
  then show ?thesis
    using pool_Close_no_leak [OF pool_steps(4)] by blast
qed



definition shared_pool :: BastionPool where
  "shared_pool = at_call 1 (Got ''ops@jump:22'' 0) (at_call 0 (Got ''ops@jump:22'' 0) pool4)"



end
