(* ===== verification/Host_Keys.thy ===== *)
theory Host_Keys
  imports Classify Load_Job
begin

text \<open>
  \<open>HostKeys\<close> and \<open>knownAlgorithms\<close> of \<open>internal/sshx/dial.go\<close>: checking host keys against a \<open>known_hosts\<close> file with a
  cached parse, and trust on first use. The library \<open>golang.org/x/crypto/ssh/knownhosts\<close> is a parameter: what it
  makes of the text of a file (an error, or the check of a host, a remote address and a key, whose error is
  \<open>EKey\<close> with the types of the keys it has), and the line it writes for a key.
\<close>

record pubkey =
  pk_Type :: string
  pk_Data :: string

type_synonym callback = "string \<Rightarrow> string \<Rightarrow> pubkey \<Rightarrow> go_error option"

record kh_lib =
  kh_New :: "string \<Rightarrow> string + callback"
  kh_Line :: "string \<Rightarrow> pubkey \<Rightarrow> string"

text \<open>
  The file with its modification time (None: it does not exist), the time of the next write, and what fails (a
  failing write or close comes with the number of bytes that reached the file).
\<close>

record kh_world =
  kw_file :: "(string \<times> nat) option"
  kw_clock :: nat
  kw_stat_err :: "string option"
  kw_mkdir_err :: "string option"
  kw_create_err :: "string option"
  kw_open_err :: "string option"
  kw_write_err :: "(string \<times> nat) option"

record HostKeys =
  hk_Path :: string
  hk_Insecure :: bool
  hk_AcceptNew :: bool
  hk_modTime :: nat
  hk_cb :: "callback option"

definition write_file :: "string \<Rightarrow> kh_world \<Rightarrow> kh_world" where
  "write_file content w = w\<lparr>kw_file := Some (content, kw_clock w), kw_clock := kw_clock w + 1\<rparr>"

definition unknown_key :: "string \<Rightarrow> Failure" where
  "unknown_key msg = Fail CatHostKeyUnknown msg"

text \<open>\<open>os.Stat\<close> again after the file was created, and the use of the cache.\<close>

definition load_cached :: "kh_lib \<Rightarrow> HostKeys \<Rightarrow> kh_world \<Rightarrow> (Failure + callback) \<times> HostKeys" where
  "load_cached L h w =
     (case (kw_stat_err w, kw_file w) of
        (Some e, _) \<Rightarrow> (Inl (unknown_key (''known_hosts file '' @ hk_Path h @ '' is not readable: '' @ e)), h)
      | (None, None) \<Rightarrow>
          (Inl (unknown_key (''known_hosts file '' @ hk_Path h @ '' is not readable: no such file or directory'')), h)
      | (None, Some (content, mtime)) \<Rightarrow>
          (case (if mtime = hk_modTime h then hk_cb h else None) of
             Some cb \<Rightarrow> (Inr cb, h)
           | None \<Rightarrow>
               (case kh_New L content of
                  Inl e \<Rightarrow> (Inl (unknown_key (''cannot load known_hosts '' @ hk_Path h @ '': '' @ e)), h)
                | Inr cb \<Rightarrow> (Inr cb, h\<lparr>hk_cb := Some cb, hk_modTime := mtime\<rparr>))))"

definition load :: "kh_lib \<Rightarrow> HostKeys \<Rightarrow> kh_world \<Rightarrow> (Failure + callback) \<times> HostKeys \<times> kh_world" where
  "load L h w =
     (if kw_stat_err w = None \<and> kw_file w = None \<and> hk_AcceptNew h then
        (case kw_mkdir_err w of
           Some e \<Rightarrow> (Inl (unknown_key (''cannot create '' @ path_dir (hk_Path h) @ '': '' @ e)), h, w)
         | None \<Rightarrow>
             (case kw_create_err w of
                Some e \<Rightarrow> (Inl (unknown_key (''cannot create known_hosts '' @ hk_Path h @ '': '' @ e)), h, w)
              | None \<Rightarrow> (let w' = write_file '''' w; (r, h') = load_cached L h w' in (r, h', w'))))
      else (let (r, h') = load_cached L h w in (r, h', w)))"

definition Callback :: "kh_lib \<Rightarrow> HostKeys \<Rightarrow> kh_world \<Rightarrow> (Failure + callback) \<times> HostKeys \<times> kh_world" where
  "Callback L h w = (if hk_Insecure h then (Inr (\<lambda>_ _ _. None), h, w) else load L h w)"

text \<open>An error that says the host has no entry: the only one that adding a key can cure.\<close>

definition no_entry :: "go_error option \<Rightarrow> bool" where
  "no_entry err \<longleftrightarrow> (case err of None \<Rightarrow> False | Some e \<Rightarrow> key_error_of e = Some [])"

definition append_text :: "string \<Rightarrow> kh_world \<Rightarrow> kh_world" where
  "append_text s w = write_file ((case kw_file w of None \<Rightarrow> '''' | Some (c, _) \<Rightarrow> c) @ s) w"

definition append_line :: "kh_lib \<Rightarrow> HostKeys \<Rightarrow> string \<Rightarrow> pubkey \<Rightarrow> kh_world \<Rightarrow> go_error option \<times> HostKeys \<times> kh_world" where
  "append_line L h host key w =
     (case kw_open_err w of
        Some e \<Rightarrow> (Some (EFailure (unknown_key (''cannot update known_hosts '' @ hk_Path h @ '': '' @ e))), h, w)
      | None \<Rightarrow>
          (case kw_write_err w of
             Some (e, n) \<Rightarrow>
               (Some (EFailure (unknown_key (''cannot update known_hosts '' @ hk_Path h @ '': '' @ e))), h,
                append_text (take n (kh_Line L host key @ [newline])) w)
           | None \<Rightarrow> (None, h\<lparr>hk_cb := None\<rparr>, append_text (kh_Line L host key @ [newline]) w)))"

definition hk_add :: "kh_lib \<Rightarrow> HostKeys \<Rightarrow> string \<Rightarrow> string \<Rightarrow> pubkey \<Rightarrow> kh_world \<Rightarrow> go_error option \<times> HostKeys \<times> kh_world" where
  "hk_add L h host remote key w =
     (case load L (h\<lparr>hk_cb := None\<rparr>) w of
        (Inl f, h', w') \<Rightarrow> (Some (EFailure f), h', w')
      | (Inr cb, h', w') \<Rightarrow>
          if \<not> no_entry (cb host remote key) then (cb host remote key, h', w')
          else append_line L h' host key w')"

definition verifier ::
  "kh_lib \<Rightarrow> HostKeys \<Rightarrow> callback \<Rightarrow> string \<Rightarrow> string \<Rightarrow> pubkey \<Rightarrow> kh_world \<Rightarrow> go_error option \<times> HostKeys \<times> kh_world" where
  "verifier L h strict host remote key w =
     (if \<not> hk_AcceptNew h \<or> hk_Insecure h then (strict host remote key, h, w)
      else if \<not> no_entry (strict host remote key) then (strict host remote key, h, w)
      else hk_add L h host remote key w)"

text \<open>\<open>ssh.KeyAlgoRSA\<close> keys also verify the SHA-2 signature algorithms.\<close>

definition key_algorithms :: "string \<Rightarrow> string list" where
  "key_algorithms t = (if t = ''ssh-rsa'' then [''rsa-sha2-512'', ''rsa-sha2-256'', ''ssh-rsa''] else [t])"

definition add_algo :: "string \<Rightarrow> string list \<Rightarrow> string list" where
  "add_algo t algos = (if t \<in> set algos then algos else algos @ [t])"

text \<open>
  \<open>tcp_addr\<close> stands for the remote address made of the host and port texts (\<open>net.ParseIP\<close>, \<open>net.TCPAddr\<close>), which only
  the check looks at; \<open>probe\<close> is the random probe key.
\<close>

definition knownAlgorithms :: "(string \<Rightarrow> string \<Rightarrow> string) \<Rightarrow> pubkey \<Rightarrow> callback \<Rightarrow> string \<Rightarrow> string list" where
  "knownAlgorithms tcp_addr probe cb addr =
     (let (host, port) = SplitHostPort addr
      in case Option.bind (cb addr (tcp_addr host port) probe) key_error_of of
           None \<Rightarrow> []
         | Some want \<Rightarrow> fold add_algo (concat (map key_algorithms want)) [])"

section \<open>The cache is never stale\<close>

text \<open>
  The cached check is that of the file with the remembered modification time. The file system gives every write a
  new time; other programs may write the file too.
\<close>

definition fresh :: "kh_lib \<Rightarrow> HostKeys \<Rightarrow> kh_world \<Rightarrow> bool" where
  "fresh L h w \<longleftrightarrow>
     (\<forall>c m. kw_file w = Some (c, m) \<longrightarrow> m < kw_clock w) \<and>
     (\<forall>cb. hk_cb h = Some cb \<longrightarrow> hk_modTime h < kw_clock w \<and>
        (\<forall>c. kw_file w = Some (c, hk_modTime h) \<longrightarrow> kh_New L c = Inr cb))"

lemma fresh_uncached: "fresh L h w \<Longrightarrow> fresh L (h\<lparr>hk_cb := None\<rparr>) w"
  by (simp add: fresh_def)

lemma fresh_write: "fresh L h w \<Longrightarrow> fresh L h (write_file c w)"
  by (auto simp: fresh_def write_file_def)

lemma load_cached_fresh:
  assumes "fresh L h w" and "load_cached L h w = (r, h')"
  shows "fresh L h' w" and "fst (load_cached L (h\<lparr>hk_cb := None\<rparr>) w) = r" and "hk_Insecure h' = hk_Insecure h" "hk_AcceptNew h' = hk_AcceptNew h"
proof -
  have "fresh L h' w \<and> fst (load_cached L (h\<lparr>hk_cb := None\<rparr>) w) = r \<and> hk_Insecure h' = hk_Insecure h \<and> hk_AcceptNew h' = hk_AcceptNew h"
  proof (cases "kw_stat_err w = None \<and> kw_file w \<noteq> None")
    case False
    then show ?thesis
      using assms by (cases "kw_stat_err w"; cases "kw_file w") (auto simp: load_cached_def)
  next
    case True
    then obtain c m where f: "kw_stat_err w = None" "kw_file w = Some (c, m)"
      by (auto simp: not_None_eq)
    then have m: "m < kw_clock w"
      using assms(1) by (simp add: fresh_def)
    show ?thesis
    proof (cases "m = hk_modTime h \<and> hk_cb h \<noteq> None")
      case True
      then show ?thesis
        using assms f by (auto simp: load_cached_def fresh_def)
    next
      case False
      then have "(if m = hk_modTime h then hk_cb h else None) = None"
        by auto
      then show ?thesis
        using assms f m by (cases "kh_New L c") (auto simp: load_cached_def fresh_def)
    qed
  qed
  then show "fresh L h' w" and "fst (load_cached L (h\<lparr>hk_cb := None\<rparr>) w) = r" and "hk_Insecure h' = hk_Insecure h"
    "hk_AcceptNew h' = hk_AcceptNew h"
    by simp_all
qed

lemma load_cached_Inr:
  "load_cached L (h\<lparr>hk_cb := None\<rparr>) w = (Inr cb, h') \<Longrightarrow> \<exists>c m. kw_file w = Some (c, m) \<and> kh_New L c = Inr cb"
  by (auto simp: load_cached_def split: option.splits sum.splits if_splits)

lemma load_Inr:
  assumes "load L (h\<lparr>hk_cb := None\<rparr>) w = (Inr cb, h', w')"
  shows "\<exists>c m. kw_file w' = Some (c, m) \<and> kh_New L c = Inr cb"
proof -
  have "load_cached L (h\<lparr>hk_cb := None\<rparr>) w' = (Inr cb, h')"
    using assms by (auto simp: load_def Let_def split: if_splits option.splits prod.splits)
  then show ?thesis
    using load_cached_Inr by blast
qed

lemma load_fresh:
  assumes "fresh L h w" and "load L h w = (r, h', w')"
  shows "fresh L h' w' \<and> fst (load L (h\<lparr>hk_cb := None\<rparr>) w) = r \<and> snd (snd (load L (h\<lparr>hk_cb := None\<rparr>) w)) = w'"
proof (cases "kw_stat_err w = None \<and> kw_file w = None \<and> hk_AcceptNew h \<and> kw_mkdir_err w = None \<and> kw_create_err w = None")
  case True
  obtain r1 h1 where l: "load_cached L h (write_file '''' w) = (r1, h1)"
    by fastforce
  obtain r2 h2 where l2: "load_cached L (h\<lparr>hk_cb := None\<rparr>) (write_file '''' w) = (r2, h2)"
    by fastforce
  show ?thesis
    using True assms(2) l l2 load_cached_fresh [OF fresh_write [OF assms(1)] l] by (simp add: load_def)
next
  case False
  obtain r1 h1 where l: "load_cached L h w = (r1, h1)"
    by fastforce
  obtain r2 h2 where l2: "load_cached L (h\<lparr>hk_cb := None\<rparr>) w = (r2, h2)"
    by fastforce
  show ?thesis
    using False assms(1,2) l l2 load_cached_fresh [OF assms(1) l] by (auto simp: load_def split: if_splits option.splits)
qed

text \<open>
  Caching the parsed \<open>known_hosts\<close> changes nothing: whatever was loaded and written before, the strict check that
  \<open>Callback\<close> returns is the one of the text now in the file, the same as without the cache, and this stays so
  after the call and after any later write to the file by anyone.
\<close>

theorem Callback_no_stale:
  assumes "fresh L h w" and "\<not> hk_Insecure h" and "Callback L h w = (r, h', w')"
  shows "r = fst (Callback L (h\<lparr>hk_cb := None\<rparr>) w) \<and>
     (\<forall>cb. r = Inr cb \<longrightarrow> (\<exists>c m. kw_file w' = Some (c, m) \<and> kh_New L c = Inr cb)) \<and>
     fresh L h' w' \<and> (\<forall>c. fresh L h' (write_file c w'))"
proof -
  have l: "load L h w = (r, h', w')"
    using assms(2,3) by (simp add: Callback_def)
  note f = load_fresh [OF assms(1) l]
  obtain h2 where l2: "load L (h\<lparr>hk_cb := None\<rparr>) w = (r, h2, w')"
    using f by (metis prod.collapse)
  have "\<exists>c m. kw_file w' = Some (c, m) \<and> kh_New L c = Inr cb" if "r = Inr cb" for cb
    using load_Inr l2 that by blast
  then show ?thesis
    using f assms(2) fresh_write by (simp add: Callback_def)
qed

section \<open>What is accepted\<close>

lemma hk_add_accepts:
  assumes "hk_add L h host remote key w = (None, h', w')"
  shows "\<exists>c m cb h1 w1. load L (h\<lparr>hk_cb := None\<rparr>) w = (Inr cb, h1, w1) \<and> kw_file w1 = Some (c, m) \<and> kh_New L c = Inr cb \<and>
     (cb host remote key = None \<and> w' = w1 \<or>
      no_entry (cb host remote key) \<and> kw_file w' = Some (c @ kh_Line L host key @ [newline], kw_clock w1) \<and> hk_cb h' = None)"
proof -
  obtain cb h1 w1 where l: "load L (h\<lparr>hk_cb := None\<rparr>) w = (Inr cb, h1, w1)"
    using assms by (auto simp: hk_add_def split: prod.splits sum.splits)
  obtain c m where c: "kw_file w1 = Some (c, m)" "kh_New L c = Inr cb"
    using load_Inr [OF l] by blast
  show ?thesis
    using assms l c
    by (auto simp: hk_add_def append_line_def append_text_def write_file_def split: if_splits option.splits)
qed

text \<open>
  C13: A key is accepted only if the file vouches for it or had nothing to say: unless verification is switched off,
  an accepted key passed the strict check, or (with accept-new) both the strict check and the file read again
  under the lock have no entry for the host, and the file then ends with the line for this host and key, or
  another connection has just added it. A changed key is never accepted.
\<close>

theorem verifier_accepts:
  assumes "\<not> hk_Insecure h" and "verifier L h strict host remote key w = (None, h', w')"
  shows "strict host remote key = None \<and> w' = w \<or>
     hk_AcceptNew h \<and> no_entry (strict host remote key) \<and>
     (\<exists>c m cb. kh_New L c = Inr cb \<and>
        (cb host remote key = None \<and> kw_file w' = Some (c, m) \<or>
         no_entry (cb host remote key) \<and> kw_file w' = Some (c @ kh_Line L host key @ [newline], m)))"
proof (cases "hk_AcceptNew h \<and> no_entry (strict host remote key)")
  case True
  then have "hk_add L h host remote key w = (None, h', w')"
    using assms by (simp add: verifier_def)
  from hk_add_accepts [OF this] True show ?thesis
    by blast
next
  case False
  then show ?thesis
    using assms by (auto simp: verifier_def split: if_splits)
qed

text \<open>The text of the file; a file that is not there counts as empty, as accept-new makes it.\<close>

definition text_of :: "kh_world \<Rightarrow> string" where
  "text_of w = (case kw_file w of None \<Rightarrow> '''' | Some (c, _) \<Rightarrow> c)"

definition vouches :: "kh_lib \<Rightarrow> string \<Rightarrow> string \<Rightarrow> string \<Rightarrow> pubkey \<Rightarrow> bool" where
  "vouches L txt host remote key \<longleftrightarrow> (\<exists>cb. kh_New L txt = Inr cb \<and> cb host remote key = None)"

definition silent :: "kh_lib \<Rightarrow> string \<Rightarrow> string \<Rightarrow> string \<Rightarrow> pubkey \<Rightarrow> bool" where
  "silent L txt host remote key \<longleftrightarrow> (\<exists>cb. kh_New L txt = Inr cb \<and> no_entry (cb host remote key))"

lemma load_text:
  assumes "load L (h\<lparr>hk_cb := None\<rparr>) w = (Inr cb, h', w')"
  shows "kh_New L (text_of w) = Inr cb"
proof -
  obtain c m where "kw_file w' = Some (c, m)" "kh_New L c = Inr cb"
    using load_Inr [OF assms] by blast
  moreover have "text_of w' = text_of w"
    using assms by (auto simp: load_def text_of_def write_file_def Let_def split: if_splits option.splits prod.splits)
  ultimately show ?thesis
    by (simp add: text_of_def)
qed

lemma Callback_text:
  assumes "fresh L h w" and "\<not> hk_Insecure h" and "Callback L h w = (Inr cb, h', w')"
  shows "kh_New L (text_of w) = Inr cb"
proof -
  have "load L h w = (Inr cb, h', w')"
    using assms(2,3) by (simp add: Callback_def)
  from load_fresh [OF assms(1) this] obtain h2 where "load L (h\<lparr>hk_cb := None\<rparr>) w = (Inr cb, h2, w')"
    by (metis prod.collapse)
  then show ?thesis
    by (rule load_text)
qed

lemma verifier_text:
  assumes "\<not> hk_Insecure h" and "verifier L h strict host remote key w = (None, h', w')"
  shows "strict host remote key = None \<or>
     hk_AcceptNew h \<and> no_entry (strict host remote key) \<and> (vouches L (text_of w) host remote key \<or> silent L (text_of w) host remote key)"
proof (cases "strict host remote key = None")
  case False
  then have a: "hk_AcceptNew h" "no_entry (strict host remote key)" "hk_add L h host remote key w = (None, h', w')"
    using assms by (auto simp: verifier_def split: if_splits)
  then show ?thesis
    using hk_add_accepts [OF a(3)] load_text unfolding vouches_def silent_def by blast
qed simp

lemma set_add_algos: "set (fold add_algo ts acc) = set acc \<union> set ts"
  by (induction ts arbitrary: acc) (auto simp: add_algo_def)

lemma distinct_add_algos: "distinct acc \<Longrightarrow> distinct (fold add_algo ts acc)"
  by (induction ts arbitrary: acc) (auto simp: add_algo_def)

text \<open>
  The handshake offers exactly the algorithms that can be verified: each is listed once, each belongs to a key
  that \<open>known_hosts\<close> holds for the host, every such key is covered, and there is no list (the defaults apply)
  exactly when the file has no key to compare.
\<close>

theorem knownAlgorithms_verifiable:
  assumes "SplitHostPort addr = (host, port)" and "cb addr (tcp_addr host port) probe = Some err"
    and "key_error_of err = Some want"
  shows "distinct (knownAlgorithms tcp_addr probe cb addr) \<and>
     set (knownAlgorithms tcp_addr probe cb addr) = (\<Union>t \<in> set want. set (key_algorithms t)) \<and>
     (knownAlgorithms tcp_addr probe cb addr = [] \<longleftrightarrow> want = [])"
proof -
  have k: "knownAlgorithms tcp_addr probe cb addr = fold add_algo (concat (map key_algorithms want)) []"
    using assms by (simp add: knownAlgorithms_def)
  have s: "set (knownAlgorithms tcp_addr probe cb addr) = (\<Union>t \<in> set want. set (key_algorithms t))"
    unfolding k set_add_algos by simp
  have "(\<Union>t \<in> set want. set (key_algorithms t)) = {} \<longleftrightarrow> want = []"
    by (auto simp: key_algorithms_def split: if_splits)
  then show ?thesis
    using s distinct_add_algos [of "[]" "concat (map key_algorithms want)"] by (metis distinct.simps(1) k set_empty)
qed


section \<open>An example\<close>

definition example_lib :: kh_lib where
  "example_lib =
     \<lparr>kh_New = (\<lambda>c. Inr (\<lambda>host remote key.
        if contains c (host @ '' '' @ pk_Data key) then None
        else if contains c host then Some (EKey [''ssh-rsa'']) else Some (EKey []))),
      kh_Line = (\<lambda>host key. host @ '' '' @ pk_Data key)\<rparr>"

definition example_pubkey :: pubkey where
  "example_pubkey = \<lparr>pk_Type = ''ssh-ed25519'', pk_Data = ''AAAA''\<rparr>"

definition example_kh_world :: kh_world where
  "example_kh_world = \<lparr>kw_file = None, kw_clock = 5, kw_stat_err = None, kw_mkdir_err = None, kw_create_err = None,
     kw_open_err = None, kw_write_err = None\<rparr>"

definition example_host_keys :: HostKeys where
  "example_host_keys = \<lparr>hk_Path = ''/root/.ssh/known_hosts'', hk_Insecure = False, hk_AcceptNew = True, hk_modTime = 0, hk_cb = None\<rparr>"

definition old_world :: kh_world where
  "old_world = write_file ''web1 BBBB'' example_kh_world"

lemma example_fresh: "fresh example_lib example_host_keys old_world"
  by (simp add: fresh_def example_host_keys_def old_world_def write_file_def example_kh_world_def)

theorem Callback_no_stale_witness:
  "\<exists>cb h'. Callback example_lib example_host_keys old_world = (Inr cb, h', old_world) \<and> fresh example_lib h' old_world"
proof -
  let ?cb = "projr (kh_New example_lib ''web1 BBBB'')"
  let ?h = "example_host_keys\<lparr>hk_cb := Some ?cb, hk_modTime := 5\<rparr>"
  have "Callback example_lib example_host_keys old_world = (Inr ?cb, ?h, old_world)"
    by (simp add: Callback_def load_def load_cached_def example_host_keys_def old_world_def write_file_def example_kh_world_def
        example_lib_def)
  moreover have "\<not> hk_Insecure example_host_keys"
    by (simp add: example_host_keys_def)
  ultimately show ?thesis
    using Callback_no_stale [OF example_fresh] by blast
qed

theorem verifier_accepts_witness:
  "\<exists>c m. kw_file (snd (snd (verifier example_lib example_host_keys (\<lambda>_ _ _. Some (EKey [])) ''web1'' ''10.0.0.1:22'' example_pubkey
     example_kh_world))) = Some (c @ ''web1 AAAA'' @ [newline], m)"
proof -
  let ?v = "verifier example_lib example_host_keys (\<lambda>_ _ _. Some (EKey [])) ''web1'' ''10.0.0.1:22'' example_pubkey example_kh_world"
  have v: "fst ?v = None" "kw_file (snd (snd ?v)) = Some (''web1 AAAA'' @ [newline], 6)"
    by code_simp+
  then have "?v = (None, fst (snd ?v), snd (snd ?v))"
    by (metis prod.collapse)
  from verifier_accepts [OF _ this] v(2) show ?thesis
    by (auto simp: example_host_keys_def intro: exI [of _ "[]"])
qed

theorem knownAlgorithms_verifiable_witness:
  "set (knownAlgorithms (\<lambda>h p. h) example_pubkey (projr (kh_New example_lib ''10.0.0.1:22 BBBB'')) ''10.0.0.1:22'') =
     {''rsa-sha2-512'', ''rsa-sha2-256'', ''ssh-rsa''}"
proof -
  have "SplitHostPort ''10.0.0.1:22'' = (''10.0.0.1'', ''22'')"
    "projr (kh_New example_lib ''10.0.0.1:22 BBBB'') ''10.0.0.1:22'' ''10.0.0.1'' example_pubkey = Some (EKey [''ssh-rsa''])"
    "key_error_of (EKey [''ssh-rsa'']) = Some [''ssh-rsa'']"
    by code_simp+
  from knownAlgorithms_verifiable [of _ _ _ "projr (kh_New example_lib ''10.0.0.1:22 BBBB'')" "\<lambda>h p. h" example_pubkey, OF this]
  show ?thesis
    by (auto simp: key_algorithms_def)
qed


end
