(* ===== verification/Dial.thy ===== *)
theory Dial
  imports Host_Keys Credentials Job_Types
begin

text \<open>
  The \<open>Dialer\<close> of \<open>internal/sshx/dial.go\<close>: TCP or a tunnel through a bastion, then the SSH handshake. The network, the
  SSH library and the bastion pool are a record of functions on an abstract world; the shared \<open>HostKeys\<close> and its
  file are a part of the world (\<open>de_keys\<close>, \<open>de_put_keys\<close>), which other goroutines may change during a long call. The
  connections the dialer itself opens and closes are recorded in a trace. An SSH client is named by the network
  connection it runs on. The calls of the pool (\<open>Bastion_Pool\<close>) dial with \<open>dialHop\<close>; their connections belong to the
  pool and are not in the trace.
\<close>

record 'k Hop =
  hop_Addr :: string
  hop_User :: string
  hop_Methods :: "'k AuthMethod list"

record Dialer =
  dl_ConnectTimeout :: duration
  dl_HandshakeTimeout :: duration
  dl_pooled :: bool

record Client =
  cl_Client :: nat
  cl_bastion :: "nat option"

record 'k ClientConfig =
  cfg_User :: string
  cfg_Auth :: "'k AuthMethod list"
  cfg_HostKeyCallback :: "string \<Rightarrow> string \<Rightarrow> pubkey \<Rightarrow> HostKeys \<times> kh_world \<Rightarrow> go_error option \<times> HostKeys \<times> kh_world"
  cfg_HostKeyAlgorithms :: "string list"
  cfg_Timeout :: duration

datatype net_event = EvOpen nat | EvClose nat

record 'w nstate =
  ns_world :: 'w
  ns_trace :: "net_event list"

record ('k, 'w) dial_env =
  de_tcp :: "duration \<Rightarrow> string \<Rightarrow> 'w \<Rightarrow> (go_error + nat) \<times> 'w"
  de_tunnel :: "duration \<Rightarrow> nat \<Rightarrow> string \<Rightarrow> 'w \<Rightarrow> (go_error + nat) \<times> 'w"
  de_handshake :: "nat \<Rightarrow> string \<Rightarrow> 'k ClientConfig \<Rightarrow> 'w \<Rightarrow> (go_error option \<times> bool) \<times> 'w"
  de_lib :: kh_lib
  de_keys :: "'w \<Rightarrow> HostKeys \<times> kh_world"
  de_put_keys :: "HostKeys \<times> kh_world \<Rightarrow> 'w \<Rightarrow> 'w"
  de_ctx :: "'w \<Rightarrow> go_error option"
  de_close :: "nat \<Rightarrow> 'w \<Rightarrow> 'w"
  de_pool_get :: "string \<Rightarrow> 'k Hop \<Rightarrow> 'w \<Rightarrow> (go_error + nat) \<times> 'w"
  de_pool_broken :: "string \<Rightarrow> nat \<Rightarrow> go_error \<Rightarrow> 'w \<Rightarrow> 'w"
  de_tcp_addr :: "string \<Rightarrow> string \<Rightarrow> string"
  de_probe :: pubkey

definition opened :: "(go_error + nat) \<times> 'w \<Rightarrow> 'w nstate \<Rightarrow> (go_error + nat) \<times> 'w nstate" where
  "opened rw st =
     (fst rw, st\<lparr>ns_world := snd rw, ns_trace := (case fst rw of Inl _ \<Rightarrow> [] | Inr n \<Rightarrow> [EvOpen n]) @ ns_trace st\<rparr>)"

definition close_net :: "('k, 'w) dial_env \<Rightarrow> nat \<Rightarrow> 'w nstate \<Rightarrow> 'w nstate" where
  "close_net E n st = st\<lparr>ns_world := de_close E n (ns_world st), ns_trace := EvClose n # ns_trace st\<rparr>"

text \<open>\<open>Close\<close> of a client, and of the bastion connection it owns.\<close>

definition Client_Close :: "('k, 'w) dial_env \<Rightarrow> Client \<Rightarrow> 'w nstate \<Rightarrow> 'w nstate" where
  "Client_Close E c st =
     (let st1 = close_net E (cl_Client c) st in
      case cl_bastion c of None \<Rightarrow> st1 | Some b \<Rightarrow> close_net E b st1)"

definition prefix_failure :: "go_error \<Rightarrow> string \<Rightarrow> Failure" where
  "prefix_failure err what = (let f = AsFailure err in Fail (Category f) (what @ '': '' @ Reason f))"

definition dialTCP :: "('k, 'w) dial_env \<Rightarrow> Dialer \<Rightarrow> string \<Rightarrow> 'w nstate \<Rightarrow> (Failure + nat) \<times> 'w nstate" where
  "dialTCP E d addr st =
     (case opened (de_tcp E (dl_ConnectTimeout d) addr (ns_world st)) st of
        (Inl err, st') \<Rightarrow> (Inl (ClassifyDial err addr), st')
      | (Inr conn, st') \<Rightarrow> (Inr conn, st'))"

definition client_config :: "('k, 'w) dial_env \<Rightarrow> Dialer \<Rightarrow> HostKeys \<Rightarrow> 'k Hop \<Rightarrow> callback \<Rightarrow> 'k ClientConfig" where
  "client_config E d h hop cb =
     \<lparr>cfg_User = hop_User hop, cfg_Auth = hop_Methods hop,
      cfg_HostKeyCallback = (\<lambda>host remote key (hk, k). verifier (de_lib E) hk cb host remote key k),
      cfg_HostKeyAlgorithms = (if hk_Insecure h then [] else knownAlgorithms (de_tcp_addr E) (de_probe E) cb (hop_Addr hop)),
      cfg_Timeout = dl_HandshakeTimeout d\<rparr>"

text \<open>What a failed handshake means: the state of the context first, then the error and whether the timer fired.\<close>

definition handshake_failure :: "go_error option \<Rightarrow> go_error \<Rightarrow> string \<Rightarrow> bool \<Rightarrow> Failure" where
  "handshake_failure ctx err addr timedOut =
     (case ctx of
        Some e \<Rightarrow> if errors_is e ECanceled then Fail CatCancelled (''cancelled during SSH handshake with '' @ addr)
                  else Fail CatHandshakeFailed (''SSH handshake with '' @ addr @ '' timed out'')
      | None \<Rightarrow> ClassifyHandshake err addr timedOut)"

definition handshake :: "('k, 'w) dial_env \<Rightarrow> Dialer \<Rightarrow> nat \<Rightarrow> 'k Hop \<Rightarrow> 'w nstate \<Rightarrow> (Failure + nat) \<times> 'w nstate" where
  "handshake E d conn hop st =
     (case Callback (de_lib E) (fst (de_keys E (ns_world st))) (snd (de_keys E (ns_world st))) of
        (Inl f, hk) \<Rightarrow> (Inl f, close_net E conn (st\<lparr>ns_world := de_put_keys E hk (ns_world st)\<rparr>))
      | (Inr cb, hk) \<Rightarrow>
          (case de_handshake E conn (hop_Addr hop) (client_config E d (fst hk) hop cb) (de_put_keys E hk (ns_world st)) of
             ((None, _), w') \<Rightarrow> (Inr conn, st\<lparr>ns_world := w'\<rparr>)
           | ((Some err, timedOut), w') \<Rightarrow>
               (let st' = close_net E conn (st\<lparr>ns_world := w'\<rparr>) in
                (Inl (handshake_failure (de_ctx E (ns_world st')) err (hop_Addr hop) timedOut), st'))))"

definition dialHop :: "('k, 'w) dial_env \<Rightarrow> Dialer \<Rightarrow> 'k Hop \<Rightarrow> 'w nstate \<Rightarrow> (Failure + nat) \<times> 'w nstate" where
  "dialHop E d hop st =
     (case dialTCP E d (hop_Addr hop) st of
        (Inl f, st') \<Rightarrow> (Inl f, st')
      | (Inr raw, st') \<Rightarrow> handshake E d raw hop st')"

text \<open>The bastion part of \<open>Dial\<close>: the bastion connection, and whether it is owned.\<close>

definition bastion_client :: "('k, 'w) dial_env \<Rightarrow> Dialer \<Rightarrow> string \<Rightarrow> 'k Hop \<Rightarrow> 'w nstate \<Rightarrow> (go_error + nat) \<times> 'w nstate" where
  "bastion_client E d key hop st =
     (if dl_pooled d then
        (let (r, w) = de_pool_get E key hop (ns_world st) in (r, st\<lparr>ns_world := w\<rparr>))
      else (case dialHop E d hop st of (Inl f, st') \<Rightarrow> (Inl (EFailure f), st') | (Inr c, st') \<Rightarrow> (Inr c, st')))"

definition drop_bastion :: "('k, 'w) dial_env \<Rightarrow> Dialer \<Rightarrow> string \<Rightarrow> nat \<Rightarrow> go_error \<Rightarrow> 'w nstate \<Rightarrow> 'w nstate" where
  "drop_bastion E d key bc err st =
     (if dl_pooled d then st\<lparr>ns_world := de_pool_broken E key bc err (ns_world st)\<rparr> else close_net E bc st)"

definition finish_dial :: "('k, 'w) dial_env \<Rightarrow> Dialer \<Rightarrow> nat \<Rightarrow> 'k Hop \<Rightarrow> nat option \<Rightarrow> 'w nstate \<Rightarrow> (Failure + Client) \<times> 'w nstate" where
  "finish_dial E d conn target owned st =
     (case handshake E d conn target st of
        (Inl f, st') \<Rightarrow> (Inl f, case owned of None \<Rightarrow> st' | Some b \<Rightarrow> close_net E b st')
      | (Inr c, st') \<Rightarrow> (Inr \<lparr>cl_Client = c, cl_bastion = owned\<rparr>, st'))"

definition Dial :: "('k, 'w) dial_env \<Rightarrow> Dialer \<Rightarrow> 'k Hop \<Rightarrow> 'k Hop option \<Rightarrow> 'w nstate \<Rightarrow> (Failure + Client) \<times> 'w nstate" where
  "Dial E d target bastion st =
     (case bastion of
        None \<Rightarrow>
          (case dialTCP E d (hop_Addr target) st of
             (Inl f, st') \<Rightarrow> (Inl f, st')
           | (Inr conn, st') \<Rightarrow> finish_dial E d conn target None st')
      | Some b \<Rightarrow>
          (let key = hop_User b @ ''@'' @ hop_Addr b in
           case bastion_client E d key b st of
             (Inl err, st1) \<Rightarrow> (Inl (prefix_failure err ''bastion''), st1)
           | (Inr bc, st1) \<Rightarrow>
               (case opened (de_tunnel E (dl_ConnectTimeout d) bc (hop_Addr target) (ns_world st1)) st1 of
                  (Inl err, st2) \<Rightarrow> (Inl (ClassifyDial err (hop_Addr target)), drop_bastion E d key bc err st2)
                | (Inr conn, st2) \<Rightarrow> finish_dial E d conn target (if dl_pooled d then None else Some bc) st2)))"

section \<open>Connections\<close>

text \<open>How often a connection was opened more than closed.\<close>

fun balance :: "nat \<Rightarrow> net_event list \<Rightarrow> int" where
  "balance n [] = 0"
| "balance n (EvOpen m # t) = (if m = n then 1 else 0) + balance n t"
| "balance n (EvClose m # t) = (if m = n then -1 else 0) + balance n t"

definition bal :: "nat \<Rightarrow> 'w nstate \<Rightarrow> int" where
  "bal n st = balance n (ns_trace st)"

definition holds :: "nat \<Rightarrow> nat option \<Rightarrow> int" where
  "holds n c = (if c = Some n then 1 else 0)"

lemma bal_simps [simp]:
  "bal n (close_net E m st) = bal n st - holds n (Some m)" "bal n (st\<lparr>ns_world := w\<rparr>) = bal n st" "holds n None = 0"
  by (simp_all add: bal_def close_net_def holds_def)

lemma opened_bal: "opened rw st = (r, st') \<Longrightarrow> bal n st' = bal n st + (case r of Inl _ \<Rightarrow> 0 | Inr m \<Rightarrow> holds n (Some m))"
  by (auto simp: opened_def bal_def holds_def split: sum.splits)

lemma dialTCP_bal:
  assumes "dialTCP E d a st = (r, st')"
  shows "bal n st' = bal n st + (case r of Inl _ \<Rightarrow> 0 | Inr m \<Rightarrow> holds n (Some m))"
proof -
  obtain r1 st1 where o: "opened (de_tcp E (dl_ConnectTimeout d) a (ns_world st)) st = (r1, st1)"
    by fastforce
  show ?thesis
    using assms o opened_bal [OF o, of n] by (cases r1) (auto simp: dialTCP_def)
qed

lemma handshake_bal:
  assumes "handshake E d conn hop st = (r, st')"
  shows "bal n st' = bal n st - (case r of Inl _ \<Rightarrow> holds n (Some conn) | Inr c \<Rightarrow> 0) \<and> (\<forall>c. r = Inr c \<longrightarrow> c = conn)"
proof -
  obtain r1 hk where c: "Callback (de_lib E) (fst (de_keys E (ns_world st))) (snd (de_keys E (ns_world st))) = (r1, hk)"
    by (rule prod.exhaust)
  show ?thesis
  proof (cases r1)
    case (Inl f)
    then show ?thesis
      using assms c by (auto simp: handshake_def)
  next
    case (Inr cb)
    obtain e t w' where h: "de_handshake E conn (hop_Addr hop) (client_config E d (fst hk) hop cb) (de_put_keys E hk (ns_world st)) = ((e, t), w')"
      by (metis prod.collapse)
    show ?thesis
      using assms c h Inr by (cases e) (auto simp: handshake_def Let_def)
  qed
qed

lemma dialHop_bal:
  assumes "dialHop E d hop st = (r, st')"
  shows "bal n st' = bal n st + (case r of Inl _ \<Rightarrow> 0 | Inr m \<Rightarrow> holds n (Some m))"
proof -
  obtain r1 st1 where t: "dialTCP E d (hop_Addr hop) st = (r1, st1)"
    by fastforce
  show ?thesis
  proof (cases r1)
    case (Inl f)
    then show ?thesis
      using assms t dialTCP_bal [OF t, of n] by (auto simp: dialHop_def)
  next
    case (Inr raw)
    then have "handshake E d raw hop st1 = (r, st')"
      using assms t by (simp add: dialHop_def)
    from handshake_bal [OF this, of n] dialTCP_bal [OF t, of n] Inr show ?thesis
      by (auto split: sum.splits)
  qed
qed

lemma bastion_client_bal:
  assumes "bastion_client E d key hop st = (r, st')"
  shows "bal n st' = bal n st + (case r of Inl _ \<Rightarrow> 0 | Inr m \<Rightarrow> if dl_pooled d then 0 else holds n (Some m))"
proof (cases "dl_pooled d")
  case True
  then show ?thesis
    using assms by (auto simp: bastion_client_def split: prod.splits sum.splits)
next
  case False
  obtain r1 st1 where t: "dialHop E d hop st = (r1, st1)"
    by fastforce
  show ?thesis
    using assms t False dialHop_bal [OF t, of n] by (cases r1) (auto simp: bastion_client_def)
qed

lemma finish_dial_bal:
  assumes "finish_dial E d conn target ow st = (r, st')"
  shows "case r of
      Inl _ \<Rightarrow> bal n st' = bal n st - holds n (Some conn) - holds n ow
    | Inr c \<Rightarrow> bal n st' = bal n st \<and> c = \<lparr>cl_Client = conn, cl_bastion = ow\<rparr>"
proof -
  obtain r1 st1 where h: "handshake E d conn target st = (r1, st1)"
    by fastforce
  show ?thesis
    using assms h handshake_bal [OF h, of n] by (cases r1; cases ow) (auto simp: finish_dial_def)
qed

text \<open>What is open after \<open>Dial\<close>, and after closing what it returned.\<close>

definition dial_balanced :: "('k, 'w) dial_env \<Rightarrow> Dialer \<Rightarrow> nat \<Rightarrow> bool \<Rightarrow> 'w nstate \<Rightarrow> Failure + Client \<Rightarrow> 'w nstate \<Rightarrow> bool" where
  "dial_balanced E d n behind st r st' \<longleftrightarrow>
     (case r of
        Inl f \<Rightarrow> bal n st' = bal n st
      | Inr c \<Rightarrow> bal n st' = bal n st + holds n (Some (cl_Client c)) + holds n (cl_bastion c) \<and>
          bal n (Client_Close E c st') = bal n st \<and> (cl_bastion c \<noteq> None \<longleftrightarrow> behind \<and> \<not> dl_pooled d))"

lemma Dial_direct_balanced:
  assumes "Dial E d target None st = (r, st')"
  shows "dial_balanced E d n False st r st'"
proof -
  obtain r1 st1 where t: "dialTCP E d (hop_Addr target) st = (r1, st1)"
    by fastforce
  show ?thesis
  proof (cases r1)
    case (Inl f)
    then show ?thesis
      using assms t dialTCP_bal [OF t, of n] by (auto simp: Dial_def dial_balanced_def)
  next
    case (Inr conn)
    then have "finish_dial E d conn target None st1 = (r, st')"
      using assms t by (simp add: Dial_def)
    from finish_dial_bal [OF this, of n] dialTCP_bal [OF t, of n] Inr show ?thesis
      by (auto simp: dial_balanced_def Client_Close_def split: sum.splits)
  qed
qed

lemma Dial_tunnel_balanced:
  assumes "Dial E d target (Some b) st = (r, st')"
  shows "dial_balanced E d n True st r st'"
proof -
  let ?key = "hop_User b @ ''@'' @ hop_Addr b"
  obtain r1 st1 where b: "bastion_client E d ?key b st = (r1, st1)"
    by fastforce
  show ?thesis
  proof (cases r1)
    case (Inl err)
    then show ?thesis
      using assms b bastion_client_bal [OF b, of n] by (auto simp: Dial_def dial_balanced_def)
  next
    case (Inr bc)
    obtain r2 st2 where o: "opened (de_tunnel E (dl_ConnectTimeout d) bc (hop_Addr target) (ns_world st1)) st1 = (r2, st2)"
      by fastforce
    note bals = bastion_client_bal [OF b, of n] opened_bal [OF o, of n] \<open>r1 = Inr bc\<close>
    show ?thesis
    proof (cases r2)
      case (Inl err)
      then have "st' = drop_bastion E d ?key bc err st2" "\<exists>f. r = Inl f"
        using assms b o \<open>r1 = Inr bc\<close> by (auto simp: Dial_def)
      then show ?thesis
        using bals Inl by (auto simp: drop_bastion_def dial_balanced_def)
    next
      case (Inr conn)
      then have "finish_dial E d conn target (if dl_pooled d then None else Some bc) st2 = (r, st')"
        using assms b o \<open>r1 = Inr bc\<close> by (simp add: Dial_def)
      from finish_dial_bal [OF this, of n] bals Inr show ?thesis
        by (auto simp: dial_balanced_def Client_Close_def split: sum.splits if_splits)
    qed
  qed
qed

text \<open>
  C21: Dialing leaks no connection: when \<open>Dial\<close> fails, at whatever point, everything it opened is closed again; when it
  succeeds, exactly the connection of the client and the bastion connection it owns are open, and closing the
  client closes both. A connection of the pool is never closed by \<open>Dial\<close> itself.
\<close>

theorem Dial_no_leak:
  assumes "Dial E d target bastion st = (r, st')"
  shows "case r of
      Inl f \<Rightarrow> bal n st' = bal n st
    | Inr c \<Rightarrow> bal n st' = bal n st + holds n (Some (cl_Client c)) + holds n (cl_bastion c) \<and>
        bal n (Client_Close E c st') = bal n st \<and> (cl_bastion c \<noteq> None \<longleftrightarrow> bastion \<noteq> None \<and> \<not> dl_pooled d)"
  using assms Dial_direct_balanced [of E d target st r st' n] Dial_tunnel_balanced [of E d target _ st r st' n]
  by (cases bastion) (auto simp: dial_balanced_def split: sum.splits)

section \<open>Who is at the other end\<close>

text \<open>
  What the program relies on, for a set \<open>H\<close> of moments of the world that holds everything the operations of the environment
  lead to. The SSH library only completes a handshake when, at some moment, the host key callback accepted a key of
  which the server proved possession (\<open>proves\<close>). The options of the host keys are set once, and the cache of the
  file is as \<open>Host_Keys\<close> keeps it.
\<close>

definition history :: "('k, 'w) dial_env \<Rightarrow> ('w \<Rightarrow> bool) \<Rightarrow> bool" where
  "history E H \<longleftrightarrow>
     (\<forall>w. H w \<longrightarrow> (\<forall>t a. H (snd (de_tcp E t a w))) \<and> (\<forall>t c a. H (snd (de_tunnel E t c a w))) \<and>
        (\<forall>c a cfg. H (snd (de_handshake E c a cfg w))) \<and> (\<forall>hk. H (de_put_keys E hk w)) \<and> (\<forall>k hop. H (snd (de_pool_get E k hop w))) \<and>
        (\<forall>k c e. H (de_pool_broken E k c e w)) \<and> (\<forall>c. H (de_close E c w)))"

definition library_checks :: "('k, 'w) dial_env \<Rightarrow> ('w \<Rightarrow> bool) \<Rightarrow> (nat \<Rightarrow> pubkey \<Rightarrow> bool) \<Rightarrow> bool" where
  "library_checks E H proves \<longleftrightarrow>
     (\<forall>conn addr cfg w timedOut w'. H w \<and> de_handshake E conn addr cfg w = ((None, timedOut), w') \<longrightarrow>
        (\<exists>remote key v hk. H v \<and> proves conn key \<and> cfg_HostKeyCallback cfg addr remote key (de_keys E v) = (None, hk)))"

definition strict_keys :: "('k, 'w) dial_env \<Rightarrow> ('w \<Rightarrow> bool) \<Rightarrow> bool \<Rightarrow> bool" where
  "strict_keys E H acceptNew \<longleftrightarrow>
     (\<forall>w. H w \<longrightarrow> \<not> hk_Insecure (fst (de_keys E w)) \<and> hk_AcceptNew (fst (de_keys E w)) = acceptNew \<and>
        fresh (de_lib E) (fst (de_keys E w)) (snd (de_keys E w)))"

definition checked :: "('k, 'w) dial_env \<Rightarrow> ('w \<Rightarrow> bool) \<Rightarrow> (nat \<Rightarrow> pubkey \<Rightarrow> bool) \<Rightarrow> bool \<Rightarrow> bool" where
  "checked E H proves acceptNew \<longleftrightarrow> history E H \<and> library_checks E H proves \<and> strict_keys E H acceptNew"

text \<open>The file as it is at a moment.\<close>

abbreviation known_at :: "('k, 'w) dial_env \<Rightarrow> 'w \<Rightarrow> string" where
  "known_at E w \<equiv> text_of (snd (de_keys E w))"

text \<open>
  The server at the end of a connection has proved possession of a key that the file has for the address; or, with
  accept-new, of a key of a host the file does not know, and at the moment it was added the file still did not, or had
  just been given this key.
\<close>

definition verified :: "('k, 'w) dial_env \<Rightarrow> ('w \<Rightarrow> bool) \<Rightarrow> (nat \<Rightarrow> pubkey \<Rightarrow> bool) \<Rightarrow> bool \<Rightarrow> nat \<Rightarrow> string \<Rightarrow> bool" where
  "verified E H proves acceptNew conn addr \<longleftrightarrow>
     (\<exists>remote key w. proves conn key \<and> H w \<and>
        (vouches (de_lib E) (known_at E w) addr remote key \<or>
         acceptNew \<and> silent (de_lib E) (known_at E w) addr remote key \<and>
           (\<exists>v. H v \<and> (vouches (de_lib E) (known_at E v) addr remote key \<or> silent (de_lib E) (known_at E v) addr remote key))))"

lemma moments:
  assumes "checked E H proves acc" and "H w"
  shows "H (snd (de_tcp E t a w))" "H (snd (de_tunnel E t c a w))" "H (snd (de_handshake E c a cfg w))" "H (de_put_keys E hk w)"
    "H (snd (de_pool_get E k hop w))" "H (de_pool_broken E k c e w)" "H (de_close E c w)"
  using assms(2) assms(1) [unfolded checked_def history_def, THEN conjunct1, rule_format, OF assms(2)] by (simp_all del: split_paired_All)

lemma handshake_verified:
  assumes "checked E H proves acc" and "H (ns_world st)" and "handshake E d conn hop st = (Inr c, st')"
  shows "verified E H proves acc c (hop_Addr hop) \<and> H (ns_world st')"
proof -
  let ?w = "ns_world st"
  obtain cb hk where cb: "Callback (de_lib E) (fst (de_keys E ?w)) (snd (de_keys E ?w)) = (Inr cb, hk)"
    and h: "\<exists>t. de_handshake E conn (hop_Addr hop) (client_config E d (fst hk) hop cb) (de_put_keys E hk ?w) = ((None, t), ns_world st')"
    and "c = conn"
    using assms(3) unfolding handshake_def by (auto simp: Let_def split: prod.splits sum.splits option.splits)
  have put: "H (de_put_keys E hk ?w)"
    using moments(4) [OF assms(1,2)] .
  then have H: "H (ns_world st')"
    using moments(3) [OF assms(1) put] h by (metis snd_conv)
  obtain remote key v hk' where v: "H v" "proves conn key"
    and a: "cfg_HostKeyCallback (client_config E d (fst hk) hop cb) (hop_Addr hop) remote key (de_keys E v) = (None, hk')"
    using assms(1) h put unfolding checked_def library_checks_def by blast
  have strict: "\<not> hk_Insecure (fst (de_keys E x))" "hk_AcceptNew (fst (de_keys E x)) = acc"
    "fresh (de_lib E) (fst (de_keys E x)) (snd (de_keys E x))" if "H x" for x
    using assms(1) that by (simp_all add: checked_def strict_keys_def)
  have new: "kh_New (de_lib E) (known_at E ?w) = Inr cb"
    using Callback_text strict [OF assms(2)] cb by (metis prod.collapse)
  have "verifier (de_lib E) (fst (de_keys E v)) cb (hop_Addr hop) remote key (snd (de_keys E v)) = (None, fst hk', snd hk')"
    using a by (simp add: client_config_def split_beta)
  from verifier_text [OF strict(1) [OF v(1)] this] have "verified E H proves acc conn (hop_Addr hop)"
    unfolding verified_def vouches_def silent_def using new v assms(2) strict(2) [OF v(1)] by blast
  then show ?thesis
    using \<open>c = conn\<close> H by simp
qed

lemma dialTCP_world:
  assumes "checked E H proves acc" and "H (ns_world st)" and "dialTCP E d addr st = (Inr conn, st')"
  shows "H (ns_world st')"
  using moments(1) [OF assms(1,2)] assms(3) by (auto simp: dialTCP_def opened_def split: prod.splits sum.splits)

lemma finish_dial_verified:
  assumes "checked E H proves acc" and "H (ns_world st)" and "finish_dial E d conn target ow st = (Inr c, st')"
  shows "verified E H proves acc (cl_Client c) (hop_Addr target) \<and> cl_bastion c = ow"
proof -
  obtain c1 st1 where "handshake E d conn target st = (Inr c1, st1)" "c = \<lparr>cl_Client = c1, cl_bastion = ow\<rparr>"
    using assms(3) by (auto simp: finish_dial_def split: prod.splits sum.splits)
  then show ?thesis
    using handshake_verified [OF assms(1,2)] by auto
qed

lemma bastion_client_verified:
  assumes "checked E H proves acc" and "H (ns_world st)" and "bastion_client E d key b st = (Inr bc, st')"
  shows "H (ns_world st') \<and> (\<not> dl_pooled d \<longrightarrow> verified E H proves acc bc (hop_Addr b))"
proof (cases "dl_pooled d")
  case True
  then show ?thesis
    using moments(5) [OF assms(1,2), of key b] assms(3) by (auto simp: bastion_client_def split: prod.splits sum.splits)
next
  case False
  then obtain raw st1 where "dialTCP E d (hop_Addr b) st = (Inr raw, st1)" "handshake E d raw b st1 = (Inr bc, st')"
    using assms(3) by (auto simp: bastion_client_def dialHop_def split: prod.splits sum.splits)
  then show ?thesis
    using handshake_verified [OF assms(1) dialTCP_world [OF assms(1,2)]] by blast
qed

text \<open>
  A connection leads to the right host: unless host key checks are switched off, the server at the end of every
  connection \<open>Dial\<close> returns, and of the bastion connection it opened itself, is verified under the address that was dialed,
  whatever other connections do to the file meanwhile.
\<close>

lemma Dial_verified:
  assumes "checked E H proves acc" and "H (ns_world st)" and "Dial E d target bastion st = (Inr c, st')"
  shows "verified E H proves acc (cl_Client c) (hop_Addr target) \<and>
     (\<forall>bc. cl_bastion c = Some bc \<longrightarrow> (\<exists>b. bastion = Some b \<and> verified E H proves acc bc (hop_Addr b)))"
proof (cases bastion)
  case None
  then obtain conn st1 where "dialTCP E d (hop_Addr target) st = (Inr conn, st1)" "finish_dial E d conn target None st1 = (Inr c, st')"
    using assms(3) by (auto simp: Dial_def split: prod.splits sum.splits)
  then show ?thesis
    using finish_dial_verified [OF assms(1) dialTCP_world [OF assms(1,2)]] by force
next
  case (Some b)
  obtain bc st1 conn st2 where b: "bastion_client E d (hop_User b @ ''@'' @ hop_Addr b) b st = (Inr bc, st1)"
    and t: "opened (de_tunnel E (dl_ConnectTimeout d) bc (hop_Addr target) (ns_world st1)) st1 = (Inr conn, st2)"
    and f: "finish_dial E d conn target (if dl_pooled d then None else Some bc) st2 = (Inr c, st')"
    using assms(3) Some by (auto simp: Dial_def Let_def split: prod.splits sum.splits)
  note v = bastion_client_verified [OF assms(1,2) b]
  have "H (ns_world st2)"
    using moments(2) [OF assms(1), of "ns_world st1"] v t by (auto simp: opened_def)
  from finish_dial_verified [OF assms(1) this f] show ?thesis
    using v Some by (auto split: if_splits)
qed

section \<open>The moments of a dial\<close>

lemma close_net_moment: "checked E H proves acc \<Longrightarrow> H (ns_world st) \<Longrightarrow> H (ns_world (close_net E c st))"
  using moments(7) by (simp add: close_net_def)

lemma handshake_moment:
  assumes "checked E H proves acc" and "H (ns_world st)" and "handshake E d conn hop st = (r, st')"
  shows "H (ns_world st')"
proof -
  obtain x hk where Pair: "Callback (de_lib E) (fst (de_keys E (ns_world st))) (snd (de_keys E (ns_world st))) = (x, hk)"
    by (metis prod.collapse)
  have put: "H (de_put_keys E hk (ns_world st))"
    using moments(4) [OF assms(1,2)] .
  note hs = moments(3) [OF assms(1) put, of conn "hop_Addr hop"]
  show ?thesis
  proof (cases x)
    case (Inl f)
    then show ?thesis
      using assms(3) Pair put close_net_moment [OF assms(1), of "st\<lparr>ns_world := de_put_keys E hk (ns_world st)\<rparr>"]
      by (simp add: handshake_def) (metis)
  next
    case (Inr cb)
    obtain e t w where w: "de_handshake E conn (hop_Addr hop) (client_config E d (fst hk) hop cb) (de_put_keys E hk (ns_world st)) = ((e, t), w)"
      by (metis prod.collapse)
    have "H w"
      using hs [of "client_config E d (fst hk) hop cb"] w by simp
    then show ?thesis
      using assms(3) Pair Inr w close_net_moment [OF assms(1), of "st\<lparr>ns_world := w\<rparr>"]
      by (cases e) (auto simp: handshake_def Let_def)
  qed
qed

lemma dialTCP_moment: "checked E H proves acc \<Longrightarrow> H (ns_world st) \<Longrightarrow> H (ns_world (snd (dialTCP E d addr st)))"
  using moments(1) by (auto simp: dialTCP_def opened_def split: sum.splits prod.splits)

lemma finish_dial_moment:
  assumes "checked E H proves acc" and "H (ns_world st)" and "finish_dial E d conn target ow st = (r, st')"
  shows "H (ns_world st')"
proof -
  obtain x st1 where h: "handshake E d conn target st = (x, st1)"
    by fastforce
  note h1 = handshake_moment [OF assms(1,2) h]
  show ?thesis
    using assms(3) h h1 close_net_moment [OF assms(1) h1] by (auto simp: finish_dial_def split: sum.splits option.splits)
qed

lemma bastion_client_moment:
  assumes "checked E H proves acc" and "H (ns_world st)" and "bastion_client E d key b st = (r, st')"
  shows "H (ns_world st')"
proof (cases "dl_pooled d")
  case True
  then show ?thesis
    using moments(5) [OF assms(1,2), of key b] assms(3) by (auto simp: bastion_client_def split_beta)
next
  case False
  obtain x st1 where d: "dialTCP E d (hop_Addr b) st = (x, st1)"
    by fastforce
  have "H (ns_world st1)"
    using dialTCP_moment [OF assms(1,2), of d "hop_Addr b"] d by simp
  then show ?thesis
    using assms(3) False d handshake_moment [OF assms(1)]
    by (fastforce simp: bastion_client_def dialHop_def split: sum.splits prod.splits)
qed

lemma drop_bastion_moment: "checked E H proves acc \<Longrightarrow> H (ns_world st) \<Longrightarrow> H (ns_world (drop_bastion E d key bc err st))"
  using moments(6) close_net_moment by (auto simp: drop_bastion_def)

lemma Dial_moment:
  assumes "checked E H proves acc" and "H (ns_world st)" and "Dial E d target bastion st = (r, st')"
  shows "H (ns_world st')"
proof (cases bastion)
  case None
  then show ?thesis
    using assms(3) dialTCP_moment [OF assms(1,2), of d "hop_Addr target"] finish_dial_moment [OF assms(1)]
    by (fastforce simp: Dial_def split: sum.splits prod.splits)
next
  case (Some b)
  let ?key = "hop_User b @ ''@'' @ hop_Addr b"
  obtain x st1 where b: "bastion_client E d ?key b st = (x, st1)"
    by fastforce
  note b1 = bastion_client_moment [OF assms(1,2) b]
  show ?thesis
  proof (cases x)
    case (Inl err)
    then show ?thesis
      using assms(3) Some b b1 by (auto simp: Dial_def)
  next
    case (Inr bc)
    obtain y st2 where t: "opened (de_tunnel E (dl_ConnectTimeout d) bc (hop_Addr target) (ns_world st1)) st1 = (y, st2)"
      by fastforce
    have "H (ns_world st2)"
      using moments(2) [OF assms(1) b1] t by (auto simp: opened_def)
    then show ?thesis
      using assms(3) Some b Inr t finish_dial_moment [OF assms(1)] drop_bastion_moment [OF assms(1)]
      by (cases y) (auto simp: Dial_def Let_def)
  qed
qed

text \<open>
  C39: A host that is cancelled while it waits for the shared login of its bastion is not reported as cancelled: the
  plain context error has no category, so \<open>Dial\<close> returns an internal error.
\<close>

theorem Dial_cancelled_waiting:
  assumes "dl_pooled d" and "de_pool_get E (hop_User b @ ''@'' @ hop_Addr b) b (ns_world st) = (Inl ECanceled, w)"
  shows "fst (Dial E d target (Some b) st) = Inl (Fail CatInternalError ''bastion: context canceled'')"
  using assms by (simp add: Dial_def bastion_client_def prefix_failure_def AsFailure_def as_failure_def map_filter_def)

section \<open>An example\<close>

text \<open>
  A network that numbers its connections; the server of every connection shows the example key, and the handshake of
  connection 1 fails in the authentication.
\<close>

definition example_dial_env :: "HostKeys \<Rightarrow> kh_world \<Rightarrow> (unit, nat) dial_env" where
  "example_dial_env h k =
     \<lparr>de_tcp = (\<lambda>t a w. (Inr w, w + 1)), de_tunnel = (\<lambda>t c a w. (Inr w, w + 1)),
      de_handshake = (\<lambda>c a cfg w.
        (((case cfg_HostKeyCallback cfg a a example_pubkey (h, k) of
             (Some e, _) \<Rightarrow> Some e
           | (None, _) \<Rightarrow> if c = 1 then Some (EMsg ''ssh: unable to authenticate'') else None), False), w)),
      de_lib = example_lib, de_keys = (\<lambda>w. (h, k)), de_put_keys = (\<lambda>hk w. w), de_ctx = (\<lambda>w. None), de_close = (\<lambda>c w. w),
      de_pool_get = (\<lambda>k h w. (Inl ECanceled, w)), de_pool_broken = (\<lambda>k c e w. w),
      de_tcp_addr = (\<lambda>h p. h), de_probe = example_pubkey\<rparr>"

definition example_hop :: "string \<Rightarrow> unit Hop" where
  "example_hop addr = \<lparr>hop_Addr = addr, hop_User = ''ops'', hop_Methods = []\<rparr>"

definition example_dialer :: "bool \<Rightarrow> Dialer" where
  "example_dialer pooled = \<lparr>dl_ConnectTimeout = 10, dl_HandshakeTimeout = 10, dl_pooled = pooled\<rparr>"

definition known_web :: kh_world where
  "known_web = write_file ''10.0.0.9:22 AAAA 10.0.0.2:22 AAAA'' example_kh_world"

theorem Dial_no_leak_witness:
  "\<exists>f st'. Dial (example_dial_env example_host_keys known_web) (example_dialer False) (example_hop ''10.0.0.2:22'') (Some (example_hop ''10.0.0.9:22''))
     \<lparr>ns_world = 0, ns_trace = []\<rparr> = (Inl f, st') \<and> bal 0 st' = 0"
proof -
  let ?D = "Dial (example_dial_env example_host_keys known_web) (example_dialer False) (example_hop ''10.0.0.2:22'') (Some (example_hop ''10.0.0.9:22''))
     \<lparr>ns_world = 0, ns_trace = []\<rparr>"
  have "\<not> is_ok (fst ?D)"
    by code_simp
  then obtain f st' where D: "?D = (Inl f, st')"
    by (metis is_ok_simps(1) obj_sumE prod.collapse)
  from Dial_no_leak [OF D, of 0] D show ?thesis
    by (simp add: bal_def)
qed

theorem Dial_cancelled_waiting_witness:
  "fst (Dial (example_dial_env example_host_keys known_web) (example_dialer True) (example_hop ''10.0.0.2:22'') (Some (example_hop ''10.0.0.9:22''))
     \<lparr>ns_world = 0, ns_trace = []\<rparr>) = Inl (Fail CatInternalError ''bastion: context canceled'')"
  by (rule Dial_cancelled_waiting) (simp_all add: example_dialer_def example_dial_env_def)

text \<open>The hypotheses on the library hold for this network.\<close>

lemma example_checked:
  assumes "\<not> hk_Insecure h" and "fresh example_lib h k"
  shows "checked (example_dial_env h k) (\<lambda>w. True) (\<lambda>c key. key = example_pubkey) (hk_AcceptNew h)"
  using assms
  by (auto simp: checked_def history_def library_checks_def strict_keys_def example_dial_env_def split: prod.splits option.splits if_splits)

end
