(* ===== verification/Flags.thy ===== *)
theory Flags
  imports Transport
begin

text \<open>
  The flags of \<open>internal/cli/cli.go\<close>: their definitions (\<open>newFlags\<close>, \<open>aliases\<close>, \<open>flagOrder\<close>), parsing a command line the way
  Go's \<open>flag\<close> package does, and the help text. Aligning columns (\<open>text/tabwriter\<close>) is a parameter. Shown: \<open>--execute\<close> is
  only set when it was typed out, the help describes every flag, and a command line made of settings parses to
  those settings.
\<close>

section \<open>Values\<close>

definition multi_Set :: "string list \<Rightarrow> string \<Rightarrow> string list" where
  "multi_Set m v = m @ [v]"

definition multi_String :: "string list \<Rightarrow> string" where
  "multi_String m = join m '',''"

record flags =
  f_inv :: "string list"
  f_groups :: "string list"
  f_tags :: "string list"
  f_hosts :: "string list"
  f_vars :: "string list"
  f_varEnvs :: "string list"
  f_o :: Options
  f_job :: string
  f_output :: string
  f_report :: string
  f_onlyFailed :: string
  f_maxFailures :: string
  f_execute :: bool
  f_verbose :: bool
  f_quiet :: bool

text \<open>\<open>strconv.ParseBool\<close>.\<close>

definition ParseBool :: "string \<Rightarrow> bool option" where
  "ParseBool s =
     (if s \<in> {''1'', ''t'', ''T'', ''TRUE'', ''true'', ''True''} then Some True
      else if s \<in> {''0'', ''f'', ''F'', ''FALSE'', ''false'', ''False''} then Some False else None)"

text \<open>\<open>strconv.ParseInt(s, 0, 64)\<close>: a sign, a base prefix, digits with underscores between them.\<close>

datatype num_error = ErrSyntax | ErrRange

definition base_prefix :: "string \<Rightarrow> int \<times> string" where
  "base_prefix s =
     (if s \<noteq> [] \<and> hd s = CHR ''0'' then
        (if length s \<ge> 3 \<and> lower (s ! 1) = CHR ''b'' then (2, drop 2 s)
         else if length s \<ge> 3 \<and> lower (s ! 1) = CHR ''o'' then (8, drop 2 s)
         else if length s \<ge> 3 \<and> lower (s ! 1) = CHR ''x'' then (16, drop 2 s)
         else (8, tl s))
      else (10, s))"

definition letter_digit :: "char \<Rightarrow> bool" where
  "letter_digit c \<longleftrightarrow> CHR ''a'' \<le> lower c \<and> lower c \<le> CHR ''z''"

fun uint_digits :: "int \<Rightarrow> int \<Rightarrow> string \<Rightarrow> num_error + int" where
  "uint_digits base n [] = Inr n"
| "uint_digits base n (c # s) =
     (if c = CHR ''_'' then uint_digits base n s
      else if \<not> dec_digit c \<and> \<not> letter_digit c then Inl ErrSyntax
      else if digit_value c \<ge> base then Inl ErrSyntax
      else if n * base + digit_value c \<ge> 2 ^ 64 then Inl ErrRange
      else uint_digits base (n * base + digit_value c) s)"

text \<open>\<open>underscoreOK\<close> of a number without its sign.\<close>

definition number_underscores :: "string \<Rightarrow> bool" where
  "number_underscores s =
     (if length s \<ge> 2 \<and> hd s = CHR ''0'' \<and> lower (s ! 1) \<in> set ''box''
      then underscores_ok (lower (s ! 1) = CHR ''x'') Digit (drop 2 s)
      else underscores_ok False Begin s)"

definition ParseUint :: "string \<Rightarrow> num_error + int" where
  "ParseUint s =
     (if s = '''' then Inl ErrSyntax
      else let (base, digits) = base_prefix s in
        bind_result (uint_digits base 0 digits) (\<lambda>n.
          if CHR ''_'' \<in> set digits \<and> \<not> number_underscores s then Inl ErrSyntax else Inr n))"

definition ParseInt :: "string \<Rightarrow> num_error + int" where
  "ParseInt s =
     (if s = '''' then Inl ErrSyntax
      else let neg = (hd s = CHR ''-''); t = (if hd s \<in> set ''+-'' then tl s else s) in
        bind_result (ParseUint t) (\<lambda>un.
          if \<not> neg \<and> un \<ge> 2 ^ 63 \<or> neg \<and> un > 2 ^ 63 then Inl ErrRange
          else Inr (if neg then - un else un)))"

section \<open>The flags\<close>

text \<open>The kinds of flag values, with what setting one changes.\<close>

datatype flag_value =
    BoolFlag "bool \<Rightarrow> flags \<Rightarrow> flags"
  | IntFlag "int \<Rightarrow> flags \<Rightarrow> flags"
  | DurationFlag "duration \<Rightarrow> flags \<Rightarrow> flags"
  | StringFlag "string \<Rightarrow> flags \<Rightarrow> flags"
  | MultiFlag "string \<Rightarrow> flags \<Rightarrow> flags"

fun is_bool_flag :: "flag_value \<Rightarrow> bool" where
  "is_bool_flag (BoolFlag u) = True"
| "is_bool_flag _ = False"

text \<open>\<open>Value.Set\<close>, with the message of a wrong value.\<close>

fun set_flag :: "flag_value \<Rightarrow> string \<Rightarrow> flags \<Rightarrow> string + flags" where
  "set_flag (BoolFlag u) s f = (case ParseBool s of None \<Rightarrow> Inl ''parse error'' | Some b \<Rightarrow> Inr (u b f))"
| "set_flag (IntFlag u) s f =
     (case ParseInt s of
        Inl ErrSyntax \<Rightarrow> Inl ''parse error'' | Inl ErrRange \<Rightarrow> Inl ''value out of range'' | Inr n \<Rightarrow> Inr (u n f))"
| "set_flag (DurationFlag u) s f = (case ParseDuration s of Inl _ \<Rightarrow> Inl ''parse error'' | Inr d \<Rightarrow> Inr (u d f))"
| "set_flag (StringFlag u) s f = Inr (u s f)"
| "set_flag (MultiFlag u) s f = Inr (u s f)"

record flag_def =
  fd_Value :: flag_value
  fd_Usage :: string
  fd_DefValue :: string

text \<open>The values the flags have when they are not given.\<close>

definition newFlags :: flags where
  "newFlags =
     \<lparr>f_inv = [], f_groups = [], f_tags = [], f_hosts = [], f_vars = [], f_varEnvs = [],
      f_o = \<lparr>o_Concurrency = 100, o_ConnectTimeout = 10 * Second, o_HandshakeTimeout = 15 * Second, o_StepTimeout = 5 * Minute,
             o_ConnectRetries = 2, o_RetryDelay = 2 * Second, o_MaxRetryDelay = 30 * Second, o_MaxOutput = 2 ^ 20,
             o_KnownHosts = ''~/.ssh/known_hosts'', o_AcceptNewHosts = False, o_Insecure = False, o_SkipCredentials = False,
             o_MaxFailures = 0, o_Progress = 0\<rparr>,
      f_job = '''', f_output = ''table'', f_report = '''', f_onlyFailed = '''', f_maxFailures = '''',
      f_execute = False, f_verbose = False, f_quiet = False\<rparr>"

definition multi_flag :: "(string \<Rightarrow> flags \<Rightarrow> flags) \<Rightarrow> string \<Rightarrow> flag_def" where
  "multi_flag u usage = \<lparr>fd_Value = MultiFlag u, fd_Usage = usage, fd_DefValue = multi_String []\<rparr>"

definition string_flag :: "(string \<Rightarrow> flags \<Rightarrow> flags) \<Rightarrow> string \<Rightarrow> string \<Rightarrow> flag_def" where
  "string_flag u def usage = \<lparr>fd_Value = StringFlag u, fd_Usage = usage, fd_DefValue = def\<rparr>"

definition bool_flag :: "(bool \<Rightarrow> flags \<Rightarrow> flags) \<Rightarrow> string \<Rightarrow> flag_def" where
  "bool_flag u usage = \<lparr>fd_Value = BoolFlag u, fd_Usage = usage, fd_DefValue = ''false''\<rparr>"

definition int_flag :: "(int \<Rightarrow> Options \<Rightarrow> Options) \<Rightarrow> int \<Rightarrow> string \<Rightarrow> flag_def" where
  "int_flag u def usage =
     \<lparr>fd_Value = IntFlag (\<lambda>n f. f\<lparr>f_o := u n (f_o f)\<rparr>), fd_Usage = usage, fd_DefValue = itoa def\<rparr>"

definition duration_flag :: "(duration \<Rightarrow> Options \<Rightarrow> Options) \<Rightarrow> duration \<Rightarrow> string \<Rightarrow> flag_def" where
  "duration_flag u def usage =
     \<lparr>fd_Value = DurationFlag (\<lambda>n f. f\<lparr>f_o := u n (f_o f)\<rparr>), fd_Usage = usage, fd_DefValue = Duration_String def\<rparr>"

definition flag_defs :: "(string \<times> flag_def) list" where
  "flag_defs =
     [(''inventory'', multi_flag (\<lambda>v f. f\<lparr>f_inv := multi_Set (f_inv f) v\<rparr>) ''inventory `FILE`; repeat to combine files (e.g. common.yaml + prod.yaml)''),
      (''job'', string_flag (\<lambda>v f. f\<lparr>f_job := v\<rparr>) '''' ''`JOB` directory (with job.yaml) or job YAML file''),
      (''group'', multi_flag (\<lambda>v f. f\<lparr>f_groups := multi_Set (f_groups f) v\<rparr>) ''select hosts in group `NAME` (repeatable)''),
      (''tag'', multi_flag (\<lambda>v f. f\<lparr>f_tags := multi_Set (f_tags f) v\<rparr>) ''select hosts with tag `NAME` (repeatable)''),
      (''host'', multi_flag (\<lambda>v f. f\<lparr>f_hosts := multi_Set (f_hosts f) v\<rparr>) ''select host `NAME` (repeatable)''),
      (''execute'', bool_flag (\<lambda>b f. f\<lparr>f_execute := b\<rparr>) ''actually run the job; without it RCO only previews, connecting to nothing''),
      (''var'', multi_flag (\<lambda>v f. f\<lparr>f_vars := multi_Set (f_vars f) v\<rparr>) ''job variable `NAME=VALUE` (repeatable)''),
      (''var-env'', multi_flag (\<lambda>v f. f\<lparr>f_varEnvs := multi_Set (f_varEnvs f) v\<rparr>)
         ''job variable `NAME=ENV_VAR` read from the environment; required for sensitive variables (repeatable)''),
      (''concurrency'', int_flag (\<lambda>n p. p\<lparr>o_Concurrency := n\<rparr>) 100 ''maximum hosts processed at the same time''),
      (''max-failures'', string_flag (\<lambda>v f. f\<lparr>f_maxFailures := v\<rparr>) ''''
         (''override the job'' @ [CHR 0x27] @ ''s max_failures: stop starting new hosts after `N` failed hosts, or N% of all hosts; the rest are SKIPPED'')),
      (''only-failed'', string_flag (\<lambda>v f. f\<lparr>f_onlyFailed := v\<rparr>) ''''
         ''run only on hosts that did not succeed in a previous `REPORT` (.json, .yaml or .jsonl)''),
      (''timeout'', duration_flag (\<lambda>d p. p\<lparr>o_StepTimeout := d\<rparr>) (5 * Minute) ''default per-step timeout (job file values win)''),
      (''connect-timeout'', duration_flag (\<lambda>d p. p\<lparr>o_ConnectTimeout := d\<rparr>) (10 * Second) ''TCP connect timeout''),
      (''handshake-timeout'', duration_flag (\<lambda>d p. p\<lparr>o_HandshakeTimeout := d\<rparr>) (15 * Second) ''SSH handshake and authentication timeout''),
      (''connect-retries'', int_flag (\<lambda>n p. p\<lparr>o_ConnectRetries := n\<rparr>) 2
         ''extra connection attempts for transient failures (never for auth or host key errors)''),
      (''retry-delay'', duration_flag (\<lambda>d p. p\<lparr>o_RetryDelay := d\<rparr>) (2 * Second) ''base delay between retries (exponential with jitter)''),
      (''max-retry-delay'', duration_flag (\<lambda>d p. p\<lparr>o_MaxRetryDelay := d\<rparr>) (30 * Second) ''maximum delay between connection retries''),
      (''max-output'', int_flag (\<lambda>n p. p\<lparr>o_MaxOutput := n\<rparr>) (2 ^ 20) ''`BYTES` of stdout/stderr kept per step (head and tail are kept)''),
      (''known-hosts'', string_flag (\<lambda>v f. f\<lparr>f_o := (f_o f)\<lparr>o_KnownHosts := v\<rparr>\<rparr>) ''~/.ssh/known_hosts''
         ''known_hosts `FILE` used to verify host keys''),
      (''accept-new-host-keys'', bool_flag (\<lambda>b f. f\<lparr>f_o := (f_o f)\<lparr>o_AcceptNewHosts := b\<rparr>\<rparr>)
         ''add keys of hosts missing from known_hosts (trust on first use); changed keys still fail''),
      (''insecure-skip-host-key-check'', bool_flag (\<lambda>b f. f\<lparr>f_o := (f_o f)\<lparr>o_Insecure := b\<rparr>\<rparr>)
         ''INSECURE: do not verify host keys (lab use only)''),
      (''output'', string_flag (\<lambda>v f. f\<lparr>f_output := v\<rparr>) ''table'' ''result `FORMAT` on stdout: table, json or yaml''),
      (''report'', string_flag (\<lambda>v f. f\<lparr>f_report := v\<rparr>) ''''
         ''also write the full report to `FILE` (.json, .yaml; .jsonl is written host by host as results arrive)''),
      (''verbose'', bool_flag (\<lambda>b f. f\<lparr>f_verbose := b\<rparr>) ''table output: include every step with its output''),
      (''quiet'', bool_flag (\<lambda>b f. f\<lparr>f_quiet := b\<rparr>) ''log only warnings and errors (hides progress)'')]"

definition aliases :: "(string \<times> string) list" where
  "aliases =
     [(''inventory'', ''i''), (''job'', ''j''), (''group'', ''g''), (''tag'', ''t''), (''host'', ''H''), (''concurrency'', ''c''),
      (''output'', ''o''), (''verbose'', ''v''), (''quiet'', ''q'')]"

text \<open>The flags as the parser finds them: a short name shares the value of its long one.\<close>

definition lookup_flag :: "string \<Rightarrow> flag_value option" where
  "lookup_flag name =
     (case map_of (map (\<lambda>(long, short). (short, long)) aliases) name of
        Some long \<Rightarrow> map_option fd_Value (map_of flag_defs long)
      | None \<Rightarrow> map_option fd_Value (map_of flag_defs name))"

section \<open>Parsing\<close>

datatype parse_step = Stop "string list" | FlagHelp | FlagError string | Next flags "string list"

text \<open>\<open>parseOne\<close> of the \<open>flag\<close> package.\<close>

definition set_value :: "flag_value \<Rightarrow> string \<Rightarrow> string \<Rightarrow> flags \<Rightarrow> string list \<Rightarrow> parse_step" where
  "set_value v name x f rest =
     (case set_flag v x f of
        Inl e \<Rightarrow> FlagError ((if is_bool_flag v then ''invalid boolean value '' @ fmt_q x @ '' for -'' else ''invalid value '' @ fmt_q x @ '' for flag -'') @
                   name @ '': '' @ e)
      | Inr f' \<Rightarrow> Next f' rest)"

definition parse_flag :: "string \<Rightarrow> string option \<Rightarrow> flags \<Rightarrow> string list \<Rightarrow> parse_step" where
  "parse_flag name value f rest =
     (case lookup_flag name of
        None \<Rightarrow> if name = ''help'' \<or> name = ''h'' then FlagHelp else FlagError (''flag provided but not defined: -'' @ name)
      | Some v \<Rightarrow>
          (case value of
             Some x \<Rightarrow> set_value v name x f rest
           | None \<Rightarrow>
               if is_bool_flag v then set_value v name ''true'' f rest
               else (case rest of
                 [] \<Rightarrow> FlagError (''flag needs an argument: -'' @ name)
               | x # rest' \<Rightarrow> set_value v name x f rest')))"

definition flag_name :: "string \<Rightarrow> string" where
  "flag_name s = (if s ! 1 = CHR ''-'' then drop 2 s else tl s)"

fun parseOne :: "flags \<Rightarrow> string list \<Rightarrow> parse_step" where
  "parseOne f [] = Stop []"
| "parseOne f (s # rest) =
     (if length s < 2 \<or> hd s \<noteq> CHR ''-'' then Stop (s # rest)
      else if s = ''--'' then Stop rest
      else if flag_name s = [] \<or> hd (flag_name s) = CHR ''-'' \<or> hd (flag_name s) = CHR ''='' then FlagError (''bad flag syntax: '' @ s)
      else case strings_cut (flag_name s) (CHR ''='') of
          None \<Rightarrow> parse_flag (flag_name s) None f rest
        | Some (n, v) \<Rightarrow> parse_flag n (Some v) f rest)"

text \<open>The answer of the parser: help was asked for or the flags are wrong (with what it printed), or the flags and the rest.\<close>

datatype parse_result = ParseHelp string | ParseError string | Parsed flags "string list"

lemma set_value_Next: "set_value v name x f rest = Next f' rest' \<longleftrightarrow> set_flag v x f = Inr f' \<and> rest' = rest"
  by (auto simp: set_value_def split: sum.splits)

lemma parse_flag_Next:
  "parse_flag name value f rest = Next f' rest' \<longleftrightarrow>
     (\<exists>v. lookup_flag name = Some v \<and>
       (case value of
          Some x \<Rightarrow> set_flag v x f = Inr f' \<and> rest' = rest
        | None \<Rightarrow> is_bool_flag v \<and> set_flag v ''true'' f = Inr f' \<and> rest' = rest \<or>
            \<not> is_bool_flag v \<and> (\<exists>x. rest = x # rest' \<and> set_flag v x f = Inr f')))"
  by (auto simp: parse_flag_def set_value_Next split: option.splits list.splits)

lemma parseOne_shorter: "parseOne f args = Next f' args' \<Longrightarrow> length args' < length args"
  by (cases args) (auto simp: parse_flag_Next Let_def split: if_splits option.splits)

function parse_args :: "string \<Rightarrow> flags \<Rightarrow> string list \<Rightarrow> parse_result" where
  "parse_args usage f args =
     (case parseOne f args of
        Stop rest \<Rightarrow> Parsed f rest
      | FlagHelp \<Rightarrow> ParseHelp usage
      | FlagError msg \<Rightarrow> ParseError (msg @ [newline] @ usage)
      | Next f' args' \<Rightarrow> parse_args usage f' args')"
  by pat_completeness auto
termination
  by (relation "measure (\<lambda>(_, _, args). length args)") (auto dest: parseOne_shorter)

declare parse_args.simps [simp del]

section \<open>Help\<close>

text \<open>The dash of the first line is the three bytes E2 80 94.\<close>

definition usage :: string where
  "usage = join
     [''RCO '' @ [byte 0xE2, byte 0x80, byte 0x94] @ '' run commands, scripts and file uploads on many Linux hosts over SSH'',
      '''',
      ''Usage:'',
      ''  rco run      -i INVENTORY -j JOB [selectors] [options]              preview only'',
      ''  rco run      -i INVENTORY -j JOB [selectors] [options] --execute    apply changes'',
      ''  rco validate -j JOB [-i INVENTORY [selectors]]                      check without connecting'',
      ''  rco version'',
      ''  rco help'',
      '''',
      ''JOB is a job directory (containing job.yaml) or a job YAML file.'',
      ''Selectors are repeatable: AND across kinds, OR within a kind; none = all hosts.'',
      ''Every flag also works with a single dash (-execute).'',
      '''',
      ''Exit codes: 0 all hosts succeeded, 1 usage or validation error (nothing contacted),'',
      ''2 some hosts failed, were skipped or cancelled.'',
      '''',
      ''Options:'',
      ''''] [newline]"

definition flagOrder :: "string list" where
  "flagOrder =
     [''inventory'', ''job'', ''group'', ''tag'', ''host'', ''execute'', ''var'', ''var-env'',
      ''concurrency'', ''max-failures'', ''only-failed'', ''timeout'', ''connect-timeout'', ''handshake-timeout'',
      ''connect-retries'', ''retry-delay'', ''max-retry-delay'', ''max-output'',
      ''known-hosts'', ''accept-new-host-keys'', ''insecure-skip-host-key-check'',
      ''output'', ''report'', ''verbose'', ''quiet'']"

text \<open>\<open>flag.UnquoteUsage\<close>: the word in back quotes, or the name of the type; and the usage without the quotes.\<close>

fun type_name :: "flag_value \<Rightarrow> string" where
  "type_name (BoolFlag u) = ''''"
| "type_name (IntFlag u) = ''int''"
| "type_name (DurationFlag u) = ''duration''"
| "type_name (StringFlag u) = ''string''"
| "type_name (MultiFlag u) = ''value''"

definition UnquoteUsage :: "flag_def \<Rightarrow> string \<times> string" where
  "UnquoteUsage d =
     (case strings_cut (fd_Usage d) (CHR ''`'') of
        None \<Rightarrow> (type_name (fd_Value d), fd_Usage d)
      | Some (a, r) \<Rightarrow>
          (case strings_cut r (CHR ''`'') of
             None \<Rightarrow> (type_name (fd_Value d), fd_Usage d)
           | Some (name, b) \<Rightarrow> (name, a @ name @ b)))"

definition arg_names :: "(string \<times> string) list" where
  "arg_names = [(''int'', ''N''), (''duration'', ''DURATION''), (''value'', ''VALUE''), (''string'', ''VALUE'')]"

text \<open>One line of \<open>printFlags\<close>; a flag that is not defined would be a nil pointer.\<close>

definition flag_line :: "string \<Rightarrow> flag_def \<Rightarrow> string" where
  "flag_line name d =
     (let (arg0, usage0) = UnquoteUsage d;
          arg = (if is_bool_flag (fd_Value d) then ''''
                 else (case map_of arg_names arg0 of None \<Rightarrow> '''' | Some a \<Rightarrow> a) @ dropWhile (\<lambda>c. CHR ''a'' \<le> c \<and> c \<le> CHR ''z'') arg0);
          head0 = (case map_of aliases name of None \<Rightarrow> ''    --'' @ name | Some short \<Rightarrow> ''-'' @ short @ '', --'' @ name);
          head1 = (if arg \<noteq> '''' then head0 @ '' '' @ arg else head0);
          usage1 = (if fd_DefValue d \<noteq> '''' \<and> fd_DefValue d \<noteq> ''false'' \<and> fd_DefValue d \<noteq> ''0''
                    then usage0 @ '' (default '' @ fd_DefValue d @ '')'' else usage0)
      in ''  '' @ head1 @ [CHR 0x09] @ usage1 @ [newline])"

fun printFlags :: "string list \<Rightarrow> string option" where
  "printFlags [] = Some ''''"
| "printFlags (name # names) =
     (case map_of flag_defs name of
        None \<Rightarrow> None
      | Some d \<Rightarrow> map_option (\<lambda>ls. flag_line name d @ ls) (printFlags names))"

definition printHelp :: "(string \<Rightarrow> string \<times> string option) \<Rightarrow> string option" where
  "printHelp align = map_option (\<lambda>ls. usage @ fst (align ls)) (printFlags flagOrder)"

section \<open>Consistency of the definitions\<close>

lemma flag_defs_names: "map fst flag_defs = flagOrder"
  by (simp add: flag_defs_def flagOrder_def)

lemma flag_names:
  "distinct flagOrder" "distinct (map snd aliases)" "distinct (map fst aliases)" "set (map snd aliases) \<inter> set flagOrder = {}"
  "set (map fst aliases) \<subseteq> set flagOrder"
  by code_simp+

lemma fst_flag_defs: "fst ` set flag_defs = set flagOrder"
  by (metis flag_defs_names set_map)

text \<open>Printing the default of a flag and parsing it gives the default again.\<close>



lemma default_durations:
  "in_int64 (5 * Minute)" "in_int64 (10 * Second)" "in_int64 (15 * Second)" "in_int64 (2 * Second)" "in_int64 (30 * Second)"
  by (simp_all add: in_int64_def duration_defs)

lemma uint_digits_decimal:
  "list_all dec_digit ds \<Longrightarrow> 0 \<le> x \<Longrightarrow> digits_value x ds < 2 ^ 64 \<Longrightarrow> uint_digits 10 x ds = Inr (digits_value x ds)"
proof (induction ds arbitrary: x)
  case (Cons c ds)
  have c: "dec_digit c" "0 \<le> digit_value c" "digit_value c \<le> 9" "c \<noteq> CHR ''_''"
    using Cons.prems(1) digit_value_range [of c] by (auto simp: dec_digit_def less_eq_char_def)
  then have "x * 10 + digit_value c \<le> digits_value x (c # ds)"
    using Cons.prems digits_value_mono [of ds] by simp
  then show ?case
    using c Cons.IH [of "x * 10 + digit_value c"] Cons.prems by simp
qed simp

lemma nat_string_no_zero: "0 < n \<Longrightarrow> hd (nat_string n) \<noteq> CHR ''0''"
proof (induction n rule: nat_string.induct)
  case (1 n)
  show ?case
  proof (cases "n < 10")
    case True
    then have "of_char (digit_char n) = (48 + n :: nat)"
      by (simp add: digit_char_def byte_def)
    then show ?thesis
      using True 1(2) by (subst nat_string.simps) auto
  next
    case False
    then have "hd (nat_string n) = hd (nat_string (n div 10))"
      using nat_string_hd [of "n div 10"] by (subst nat_string.simps) auto
    then show ?thesis
      using 1(1) False by simp
  qed
qed

lemma ParseInt_itoa:
  assumes "0 < n" and "n < 2 ^ 63"
  shows "ParseInt (itoa n) = Inr n"
proof -
  let ?s = "nat_string (nat n)"
  obtain m t where hd: "?s = digit_char m # t"
    using nat_string_hd by blast
  have no: "digit_char m \<noteq> CHR ''+''" "digit_char m \<noteq> CHR ''-''"
    using digit_chars(1) [of m] by (auto simp: dec_digit_def less_eq_char_def)
  have "CHR ''_'' \<notin> set ?s"
    using nat_string_all_digits [of "nat n"] by (auto simp: list_all_iff dec_digit_def less_eq_char_def)
  moreover have "base_prefix ?s = (10, ?s)"
    using nat_string_no_zero [of "nat n"] assms by (simp add: base_prefix_def)
  moreover have "uint_digits 10 0 ?s = Inr n"
    using uint_digits_decimal [OF nat_string_all_digits, of 0] assms by (simp add: nat_string_value)
  ultimately have "ParseUint ?s = Inr n"
    using hd by (auto simp: ParseUint_def)
  then show ?thesis
    using assms hd no by (auto simp: ParseInt_def itoa_def)
qed

lemma default_ints: "ParseInt (itoa 100) = Inr 100" "ParseInt (itoa 2) = Inr 2" "ParseInt (itoa (2 ^ 20)) = Inr (2 ^ 20)"
  by (rule ParseInt_itoa; simp)+

lemmas flag_def_simps = multi_flag_def string_flag_def bool_flag_def int_flag_def duration_flag_def

definition default_ok :: "flag_def \<Rightarrow> bool" where
  "default_ok d = (case fd_Value d of MultiFlag u \<Rightarrow> fd_DefValue d = '''' | v \<Rightarrow> set_flag v (fd_DefValue d) newFlags = Inr newFlags)"

lemma default_ok_kinds:
  "default_ok (multi_flag um s)"
  "us def newFlags = newFlags \<Longrightarrow> default_ok (string_flag us def s)"
  "ub False newFlags = newFlags \<Longrightarrow> default_ok (bool_flag ub s)"
  "ui n (f_o newFlags) = f_o newFlags \<Longrightarrow> ParseInt (itoa n) = Inr n \<Longrightarrow> default_ok (int_flag ui n s)"
  "ui d (f_o newFlags) = f_o newFlags \<Longrightarrow> in_int64 d \<Longrightarrow> default_ok (duration_flag ui d s)"
  by (simp_all add: default_ok_def flag_def_simps multi_String_def ParseBool_def ParseDuration_String)

lemma defaults_ok: "list_all (\<lambda>(n, d). default_ok d) flag_defs"
  unfolding flag_defs_def list.pred_inject prod.case
  by (intro conjI default_ok_kinds default_durations default_ints) (simp_all add: newFlags_def)

lemma printFlags_total: "set names \<subseteq> set flagOrder \<Longrightarrow> \<exists>t. printFlags names = Some t"
proof (induction names)
  case (Cons n names)
  then obtain d where "map_of flag_defs n = Some d"
    using fst_flag_defs by (metis list.set_intros(1) map_of_eq_None_iff not_None_eq subsetD)
  then show ?case
    using Cons by auto
qed simp

text \<open>
  The help is complete and true: it never meets an undefined flag, it lists every flag exactly once, short names are
  unambiguous and belong to a flag, \<open>--execute\<close> has none, and the default it prints for a flag is the value the
  flag has when it is not given.
\<close>

theorem help_complete:
  "(\<exists>text. printHelp align = Some text) \<and> set flagOrder = fst ` set flag_defs \<and> distinct flagOrder \<and> distinct (map fst flag_defs) \<and>
   distinct (map snd aliases) \<and> snd ` set aliases \<inter> fst ` set flag_defs = {} \<and> fst ` set aliases \<subseteq> fst ` set flag_defs \<and>
   ''execute'' \<notin> fst ` set aliases \<and>
   list_all (\<lambda>(n, d). default_ok d) flag_defs"
proof -
  have "\<exists>t. printHelp align = Some t"
    using printFlags_total [of flagOrder] by (auto simp: printHelp_def)
  moreover have "''execute'' \<notin> fst ` set aliases"
    by (simp add: aliases_def)
  ultimately show ?thesis
    using flag_names fst_flag_defs flag_defs_names defaults_ok by simp
qed


section \<open>Switches that must be typed out\<close>

text \<open>An argument that switches the boolean flag \<open>n\<close> on.\<close>

definition switches_on :: "string \<Rightarrow> string \<Rightarrow> bool" where
  "switches_on n a \<longleftrightarrow>
     (\<exists>dashes \<in> {''-'', ''--''}. a = dashes @ n \<or> (\<exists>v. ParseBool v = Some True \<and> a = dashes @ n @ ''='' @ v))"

text \<open>A switch: one flag, without a short name, decides the field, and only with a true value.\<close>

locale switch =
  fixes n :: string and field :: "flags \<Rightarrow> bool"
  assumes others: "(m, d) \<in> set flag_defs \<Longrightarrow> m \<noteq> n \<Longrightarrow> set_flag (fd_Value d) x f = Inr f' \<Longrightarrow> field f' = field f"
    and own: "(n, d) \<in> set flag_defs \<Longrightarrow> set_flag (fd_Value d) x f = Inr f' \<Longrightarrow> ParseBool x = Some (field f')"
    and no_alias: "n \<notin> set (map fst aliases)"
begin

lemma lookup_switch:
  assumes "lookup_flag m = Some v" and "set_flag v x f = Inr f'" and "field f'" and "\<not> field f"
  shows "m = n \<and> ParseBool x = Some True"
proof (cases "map_of (map (\<lambda>(long, short). (short, long)) aliases) m")
  case (Some long)
  then have "long \<in> set (map fst aliases)"
    by (force dest!: map_of_SomeD)
  moreover obtain d where "(long, d) \<in> set flag_defs" "v = fd_Value d"
    using assms(1) Some by (auto simp: lookup_flag_def dest: map_of_SomeD)
  ultimately show ?thesis
    using others no_alias assms by metis
next
  case None
  then obtain d where d: "(m, d) \<in> set flag_defs" "v = fd_Value d"
    using assms(1) by (auto simp: lookup_flag_def dest: map_of_SomeD)
  then have "m = n"
    using others assms by metis
  then show ?thesis
    using own d assms by metis
qed

lemma parse_flag_switch:
  assumes "parse_flag m value f rest = Next f' rest'" and "field f'" and "\<not> field f"
  shows "m = n \<and> (case value of None \<Rightarrow> True | Some x \<Rightarrow> ParseBool x = Some True)"
  using assms lookup_switch by (auto simp: parse_flag_Next split: option.splits)

lemma parseOne_switch:
  assumes "parseOne f args = Next f' args'" and "field f'" and "\<not> field f"
  shows "\<exists>a \<in> set args. switches_on n a"
proof -
  obtain s rest where args: "args = s # rest" "length s \<ge> 2" "hd s = CHR ''-''" "s \<noteq> ''--''"
    using assms(1) by (cases args) (auto split: if_splits)
  define name where "name = flag_name s"
  obtain c d t where s: "s = c # d # t"
    using args(2) by (cases s; cases "tl s") auto
  obtain dashes where dashes: "dashes \<in> {''-'', ''--''}" "s = dashes @ name"
    using args(3) s by (cases "d = CHR ''-''") (auto simp: name_def flag_name_def)
  show ?thesis
  proof (cases "strings_cut name (CHR ''='')")
    case None
    then have "parse_flag name None f rest = Next f' args'"
      using assms(1) args by (auto simp: name_def [symmetric] split: if_splits)
    then have "name = n"
      using parse_flag_switch assms by blast
    then show ?thesis
      using dashes args(1) by (auto simp: switches_on_def)
  next
    case (Some p)
    obtain m v where p: "p = (m, v)"
      by (cases p)
    then have "parse_flag m (Some v) f rest = Next f' args'"
      using assms(1) args Some by (auto simp: name_def [symmetric] split: if_splits)
    then have "m = n" "ParseBool v = Some True"
      using parse_flag_switch [of m "Some v"] assms by auto
    moreover have "name = m @ CHR ''='' # v"
      using strings_cut_SomeD [of name] Some p by simp
    ultimately show ?thesis
      using dashes args(1) by (auto simp: switches_on_def)
  qed
qed

lemma parseOne_args: "parseOne f args = Next f' args' \<Longrightarrow> set args' \<subseteq> set args"
  by (cases args) (auto simp: parse_flag_Next Let_def split: if_splits option.splits)

lemma parse_switch: "parse_args h f args = Parsed f' rest \<Longrightarrow> field f' \<Longrightarrow> \<not> field f \<Longrightarrow> \<exists>a \<in> set args. switches_on n a"
proof (induction h f args rule: parse_args.induct)
  case (1 h f args)
  obtain f1 args1 where one: "parseOne f args = Next f1 args1" and rest: "parse_args h f1 args1 = Parsed f' rest"
    using 1(2-4) by (subst (asm) parse_args.simps) (auto split: parse_step.splits)
  show ?case
  proof (cases "field f1")
    case True
    then show ?thesis
      using parseOne_switch one 1(4) by blast
  next
    case False
    then show ?thesis
      using 1(1) [OF one rest] 1(3) parseOne_args [OF one] by blast
  qed
qed

end

text \<open>Which flags leave a field alone and which one decides it, by kind.\<close>

definition keeps :: "(flags \<Rightarrow> bool) \<Rightarrow> flag_def \<Rightarrow> bool" where
  "keeps field d \<longleftrightarrow> (\<forall>x f f'. set_flag (fd_Value d) x f = Inr f' \<longrightarrow> field f' = field f)"

definition decides :: "(flags \<Rightarrow> bool) \<Rightarrow> flag_def \<Rightarrow> bool" where
  "decides field d \<longleftrightarrow> (\<forall>x f f'. set_flag (fd_Value d) x f = Inr f' \<longrightarrow> ParseBool x = Some (field f'))"

lemma keeps_kinds:
  "\<forall>v f. field (um v f) = field f \<Longrightarrow> keeps field (multi_flag um s)"
  "\<forall>v f. field (us v f) = field f \<Longrightarrow> keeps field (string_flag us d s)"
  "\<forall>v f. field (ub v f) = field f \<Longrightarrow> keeps field (bool_flag ub s)"
  "\<forall>v f. field (f\<lparr>f_o := ui v (f_o f)\<rparr>) = field f \<Longrightarrow> keeps field (int_flag ui n s)"
  "\<forall>v f. field (f\<lparr>f_o := ui v (f_o f)\<rparr>) = field f \<Longrightarrow> keeps field (duration_flag ui n s)"
  by (auto simp: keeps_def flag_def_simps split: option.splits sum.splits num_error.splits)

lemma decides_bool: "\<forall>b f. field (ub b f) = b \<Longrightarrow> decides field (bool_flag ub s)"
  by (auto simp: decides_def bool_flag_def split: option.splits)

lemma switchI:
  assumes "list_all (\<lambda>(m, d). if m = n then decides field d else keeps field d) flag_defs" and "n \<notin> set (map fst aliases)"
  shows "switch n field"
proof
  fix m d x f f'
  assume "(m, d) \<in> set flag_defs" "m \<noteq> n" "set_flag (fd_Value d) x f = Inr f'"
  then show "field f' = field f"
    using assms(1) by (fastforce simp: list_all_iff keeps_def)
next
  fix d x f f'
  assume "(n, d) \<in> set flag_defs" "set_flag (fd_Value d) x f = Inr f'"
  then show "ParseBool x = Some (field f')"
    using assms(1) by (fastforce simp: list_all_iff decides_def)
qed (rule assms(2))

interpretation execute_switch: switch "''execute''" f_execute
  by (rule switchI) (simp_all add: flag_defs_def aliases_def keeps_kinds decides_bool)

interpretation insecure_switch: switch "''insecure-skip-host-key-check''" "\<lambda>f. o_Insecure (f_o f)"
  by (rule switchI) (simp_all add: flag_defs_def aliases_def keeps_kinds decides_bool)

interpretation accept_new_switch: switch "''accept-new-host-keys''" "\<lambda>f. o_AcceptNewHosts (f_o f)"
  by (rule switchI) (simp_all add: flag_defs_def aliases_def keeps_kinds decides_bool)

text \<open>
  C35: Dangerous switches are typed out in full: a command line is only taken as an order to execute, to skip host key
  checks or to accept new keys if one of its arguments is that very flag, with one or two dashes, alone or with
  a true value; no short name and no other flag can do it.
\<close>

theorem switches_typed_out:
  assumes "parse_args h newFlags args = Parsed f rest"
  shows "(f_execute f \<longrightarrow> (\<exists>a \<in> set args. switches_on ''execute'' a)) \<and>
     (o_Insecure (f_o f) \<longrightarrow> (\<exists>a \<in> set args. switches_on ''insecure-skip-host-key-check'' a)) \<and>
     (o_AcceptNewHosts (f_o f) \<longrightarrow> (\<exists>a \<in> set args. switches_on ''accept-new-host-keys'' a))"
  using execute_switch.parse_switch [OF assms] insecure_switch.parse_switch [OF assms] accept_new_switch.parse_switch [OF assms]
  by (auto simp: newFlags_def)


section \<open>Settings\<close>

text \<open>A command line made of settings, each written as \<open>--name value\<close> or \<open>--name=value\<close>; and the flags it means.\<close>

definition setting_args :: "string \<times> string \<times> bool \<Rightarrow> string list" where
  "setting_args s = (case s of (n, v, joined) \<Rightarrow> if joined then [''--'' @ n @ ''='' @ v] else [''--'' @ n, v])"

fun set_all :: "(string \<times> string \<times> bool) list \<Rightarrow> flags \<Rightarrow> string + flags" where
  "set_all [] f = Inr f"
| "set_all ((n, v, joined) # ss) f =
     (case lookup_flag n of
        None \<Rightarrow> Inl n
      | Some fv \<Rightarrow> if joined \<or> \<not> is_bool_flag fv then bind_result (set_flag fv v f) (set_all ss) else Inl n)"

definition plain_name :: "string \<Rightarrow> bool" where
  "plain_name n \<longleftrightarrow> n \<noteq> [] \<and> hd n \<noteq> CHR ''-'' \<and> CHR ''='' \<notin> set n"

lemma names_plain: "list_all plain_name flagOrder" "list_all plain_name (map snd aliases)"
  by code_simp+

lemma lookup_flag_plain: "lookup_flag n = Some v \<Longrightarrow> plain_name n"
proof -
  assume l: "lookup_flag n = Some v"
  have "n \<in> set flagOrder \<or> n \<in> set (map snd aliases)"
  proof (cases "map_of (map (\<lambda>(long, short). (short, long)) aliases) n")
    case None
    then have "map_of flag_defs n \<noteq> None"
      using l by (auto simp: lookup_flag_def)
    then show ?thesis
      using fst_flag_defs by (auto simp: map_of_eq_None_iff)
  qed (force dest!: map_of_SomeD)
  then show ?thesis
    using names_plain by (auto simp: list_all_iff)
qed

lemma parseOne_setting:
  assumes "lookup_flag n = Some fv" and "joined \<or> \<not> is_bool_flag fv" and "set_flag fv v f = Inr f'"
  shows "parseOne f (setting_args (n, v, joined) @ rest) = Next f' rest"
proof -
  have n: "n \<noteq> []" "hd n \<noteq> CHR ''-''" "CHR ''='' \<notin> set n" "hd n \<noteq> CHR ''=''"
    using lookup_flag_plain [OF assms(1)] by (cases n; auto simp: plain_name_def)+
  have "strings_cut n (CHR ''='') = None" "strings_cut (n @ CHR ''='' # v) (CHR ''='') = Some (n, v)"
    using n(3) strings_cut_append by (simp_all add: strings_cut_def)
  then show ?thesis
    using n assms by (auto simp: setting_args_def flag_name_def parse_flag_Next)
qed

lemma parse_args_settings:
  assumes "set_all ss f = Inr f'"
  shows "parse_args h f (concat (map setting_args ss)) = Parsed f' []"
  using assms
proof (induction ss arbitrary: f)
  case Nil
  then show ?case
    by (subst parse_args.simps) simp
next
  case (Cons s ss)
  obtain n v joined where s: "s = (n, v, joined)"
    by (cases s)
  obtain fv f1 where "lookup_flag n = Some fv" "joined \<or> \<not> is_bool_flag fv" "set_flag fv v f = Inr f1" "set_all ss f1 = Inr f'"
    using Cons.prems s by (auto simp: result_simps split: option.splits if_splits)
  then show ?case
    using parseOne_setting Cons.IH s by (subst parse_args.simps) simp
qed

text \<open>
  What is typed is what is set: for every sequence of settings of defined flags with valid values, in either
  spelling and with arbitrary text as values, parsing the command line gives exactly the flags with these
  settings applied in order, and nothing is left over.
\<close>

theorem parse_settings:
  assumes "set_all ss f = Inr f'"
  shows "parse_args h f (concat (map setting_args ss)) = Parsed f' []"
  by (rule parse_args_settings [OF assms])

section \<open>Example\<close>

definition cmd_settings :: "(string \<times> string \<times> bool) list" where
  "cmd_settings =
     [(''i'', ''common.yaml'', False), (''inventory'', ''site.yaml'', True), (''job'', ''jobs/ntp'', False), (''g'', ''web'', False),
      (''var'', ''server=ntp1'', False), (''var-env'', ''token=TOK'', True), (''execute'', ''true'', True)]"

definition cmd_flags :: flags where
  "cmd_flags = newFlags\<lparr>f_inv := [''common.yaml'', ''site.yaml''], f_job := ''jobs/ntp'', f_groups := [''web''],
     f_vars := [''server=ntp1''], f_varEnvs := [''token=TOK''], f_execute := True\<rparr>"

definition cmd_args :: "string list" where
  "cmd_args = [''--i'', ''common.yaml'', ''--inventory=site.yaml'', ''--job'', ''jobs/ntp'', ''--g'', ''web'', ''--var'', ''server=ntp1'',
     ''--var-env=token=TOK'', ''--execute=true'']"

lemma cmd_args_settings: "concat (map setting_args cmd_settings) = cmd_args"
  by (simp add: cmd_settings_def cmd_args_def setting_args_def)

lemma cmd_set_all: "set_all cmd_settings newFlags = Inr cmd_flags"
  by (simp add: cmd_settings_def cmd_flags_def newFlags_def lookup_flag_def aliases_def flag_defs_def flag_def_simps
      multi_Set_def ParseBool_def)

lemma cmd_parse: "parse_args h newFlags cmd_args = Parsed cmd_flags []"
  using parse_args_settings [OF cmd_set_all] by (simp add: cmd_args_settings)

theorem parse_settings_witness: "parse_args [] newFlags cmd_args = Parsed cmd_flags []"
  using parse_settings [OF cmd_set_all] by (simp add: cmd_args_settings)

theorem switches_typed_out_witness: "list_ex (switches_on ''execute'') cmd_args"
proof -
  have "parse_args [] newFlags cmd_args = Parsed cmd_flags []"
    by (rule cmd_parse)
  moreover have "f_execute cmd_flags"
    by (simp add: cmd_flags_def)
  ultimately show ?thesis
    using switches_typed_out by (auto simp: list_ex_iff)
qed


end
