(* ===== verification/Cli.thy ===== *)
theory Cli
  imports Prepare Inventory Flags
begin

text \<open>
  \<open>internal/cli\<close>: from a command line to an exit code. The encoders and the column alignment are library code and
  parameters, like the file system and the run itself (the report that \<open>Run\<close> returns and the order in which it
  hands over the results of the hosts). The outcome records the exit code, what was printed, the prepared run
  that was executed, if any, and the lines of a \<open>.jsonl\<close> report.
\<close>

section \<open>Exit codes and pairs\<close>

definition ExitOK :: int where "ExitOK = 0"
definition ExitError :: int where "ExitError = 1"
definition ExitHostsFailed :: int where "ExitHostsFailed = 2"

fun pairs_from :: "string \<Rightarrow> (string, string) gomap \<Rightarrow> string list \<Rightarrow> string + (string, string) gomap" where
  "pairs_from flagName out [] = Inr out"
| "pairs_from flagName out (kv # kvs) =
     (case strings_cut kv (CHR ''='') of
        None \<Rightarrow> Inl (flagName @ '' '' @ fmt_q kv @ '': expected NAME=VALUE'')
      | Some (k, v) \<Rightarrow>
          if k = '''' then Inl (flagName @ '' '' @ fmt_q kv @ '': expected NAME=VALUE'')
          else pairs_from flagName (AList.update k v out) kvs)"

definition pairs :: "string list \<Rightarrow> string \<Rightarrow> string + (string, string) gomap" where
  "pairs kvs flagName = pairs_from flagName [] kvs"

section \<open>Earlier reports\<close>

text \<open>\<open>filepath.Ext\<close>.\<close>

definition path_ext :: "string \<Rightarrow> string" where
  "path_ext p =
     (let base = takeWhile (\<lambda>c. c \<noteq> CHR ''/'') (rev p) in
      if CHR ''.'' \<in> set base then CHR ''.'' # rev (takeWhile (\<lambda>c. c \<noteq> CHR ''.'') base) else '''')"

record prevHost =
  ph_Host :: string
  ph_Status :: string

record prev_report =
  pv_Job :: string
  pv_Hosts :: "prevHost list"

record prev_line =
  ln_prevHost :: prevHost
  ln_Job :: string

fun add_lines :: "prev_report \<Rightarrow> prev_line list \<Rightarrow> prev_report" where
  "add_lines prev [] = prev"
| "add_lines prev (l # ls) =
     (let prev1 = (if ph_Host (ln_prevHost l) \<noteq> '''' then prev\<lparr>pv_Hosts := pv_Hosts prev @ [ln_prevHost l]\<rparr> else prev);
          prev2 = (if ln_Job l \<noteq> '''' then prev1\<lparr>pv_Job := ln_Job l\<rparr> else prev1)
      in add_lines prev2 ls)"

text \<open>The decoders of an earlier report, and the scanner that splits \<open>.jsonl\<close> text into lines.\<close>

record report_env =
  re_read :: "string \<Rightarrow> string + string"
  re_scan :: "string \<Rightarrow> string list \<times> string option"
  re_line :: "string \<Rightarrow> string + prev_line"
  re_yaml :: "string \<Rightarrow> string + prev_report"
  re_json :: "string \<Rightarrow> string + prev_report"

definition read_prev :: "report_env \<Rightarrow> string \<Rightarrow> string \<Rightarrow> string + prev_report" where
  "read_prev E path data =
     (let ext = map lower (path_ext path);
          r = (if ext = ''.jsonl'' then
                 bind_result (map_result (re_line E) (fst (re_scan E data))) (\<lambda>ls.
                   case snd (re_scan E data) of
                     Some e \<Rightarrow> Inl e
                   | None \<Rightarrow> Inr (add_lines \<lparr>pv_Job = '''', pv_Hosts = []\<rparr> ls))
               else if ext = ''.yaml'' \<or> ext = ''.yml'' then re_yaml E data
               else re_json E data)
      in case r of Inl e \<Rightarrow> Inl (path @ '': '' @ e) | Inr p \<Rightarrow> Inr p)"

definition retry_map :: "prevHost list \<Rightarrow> (string, bool) gomap" where
  "retry_map hs = put_all [] (map (\<lambda>h. (ph_Host h, ph_Status h \<noteq> status_string StatusSuccess)) hs)"

definition onlyFailed :: "report_env \<Rightarrow> string \<Rightarrow> Target list \<Rightarrow> string + Target list" where
  "onlyFailed E path targets =
     bind_result (re_read E path) (\<lambda>data.
     bind_result (read_prev E path data) (\<lambda>prev.
     Inr (filter (\<lambda>t. map_of (retry_map (pv_Hosts prev)) (ep_Name t) = Some True) targets)))"

section \<open>Printing\<close>

definition dash :: "string \<Rightarrow> string" where
  "dash s = (if s = '''' then ''-'' else s)"

definition tab :: char where "tab = CHR 0x09"

definition outputLines :: "string \<Rightarrow> string \<Rightarrow> string list" where
  "outputLines out err =
     concat (map (\<lambda>(pre, txt). if txt = '''' then []
                               else map (\<lambda>l. pre @ replace_all l [tab] ''    '') (split_str txt [newline]))
       [(''| '', out), (''! '', err)])"

definition row :: "string list \<Rightarrow> string" where
  "row cells = join cells [tab] @ [newline]"

definition step_lines :: "nat \<Rightarrow> StepResult \<Rightarrow> string list" where
  "step_lines i s =
     [row [''  '' @ nat_string (i + 1) @ ''. '' @ sr_Name s, status_string (sr_Status s), sr_Command s, dash (sr_Reason s), Report_Duration_String (sr_Duration s)]] @
     map (\<lambda>l. row [''     '' @ l, '''', '''', '''', '''']) (outputLines (sr_Stdout s) (sr_Stderr s)) @
     (if sr_Note s \<noteq> '''' then [row [''     ~ '' @ sr_Note s, '''', '''', '''', '''']] else [])"

definition report_rows :: "bool \<Rightarrow> Report \<Rightarrow> string list" where
  "report_rows verbose rep =
     row [''HOST'', ''STATUS'', ''FAILED STEP'', ''REASON'', ''DURATION''] #
     concat (map (\<lambda>h.
       row [hr_Host h, status_string (hr_Status h), dash (hr_FailedStep h), dash (hr_Reason h), Report_Duration_String (hr_Duration h)] #
       (if verbose then concat (map (\<lambda>(i, s). step_lines i s) (enumerate 0 (hr_Steps h))) else [])) (rep_Hosts rep))"

text \<open>The preview.\<close>

record dryStep =
  ds_Name :: string
  ds_Kind :: string
  ds_Command :: string
  ds_Sudo :: bool
  ds_Timeout :: string
  ds_Mode :: string

record dryHost =
  dh_Host :: string
  dh_Address :: string
  dh_User :: string
  dh_Bastion :: string
  dh_Steps :: "dryStep list"

definition stepMode :: "Action \<Rightarrow> string" where
  "stepMode a =
     (if act_FireAndForget a then ''fire and forget''
      else if act_Reboot a then ''reboot: wait for new boot ID, up to '' @ Duration_String (act_ReconnectTimeout a)
      else if act_Disconnect a then ''disconnect: reconnect, up to '' @ Duration_String (act_ReconnectTimeout a)
      else '''')"

definition dry_host :: "'k Plan \<Rightarrow> dryHost" where
  "dry_host p =
     \<lparr>dh_Host = ep_Name (pl_Target p), dh_Address = Addr (pl_Target p), dh_User = ep_Username (pl_Target p),
      dh_Bastion = (case tg_Bastion (pl_Target p) of None \<Rightarrow> '''' | Some b \<Rightarrow> ep_Name b),
      dh_Steps = map (\<lambda>a. \<lparr>ds_Name = act_Name a, ds_Kind = act_Kind a, ds_Command = act_Display a, ds_Sudo = act_Sudo a,
                          ds_Timeout = Duration_String (act_Timeout a), ds_Mode = stepMode a\<rparr>) (pl_Actions p)\<rparr>"

text \<open>\<open>%-20s\<close> pads to twenty characters.\<close>

definition pad20 :: "string \<Rightarrow> string" where
  "pad20 s = s @ replicate (20 - length s) (CHR '' '')"

definition preview_step :: "nat \<Rightarrow> dryStep \<Rightarrow> string" where
  "preview_step i s =
     ''  '' @ nat_string (i + 1) @ ''. '' @ pad20 (ds_Name s) @ '' '' @ (if ds_Sudo s then ''[sudo] '' else '''') @ ds_Command s @
     (if ds_Mode s \<noteq> '''' then ''   ['' @ ds_Mode s @ '']'' else '''') @ [newline]"

definition preview_host :: "dryHost \<Rightarrow> string" where
  "preview_host d =
     dh_Host d @ '' ('' @ dh_User d @ ''@'' @ dh_Address d @ (if dh_Bastion d \<noteq> '''' then '' via '' @ dh_Bastion d else '''') @ '')'' @
     [newline] @ concat (map (\<lambda>(i, s). preview_step i s) (enumerate 0 (dh_Steps d)))"

definition preview_text :: "dryHost list \<Rightarrow> int \<Rightarrow> string" where
  "preview_text out maxFailures =
     concat (map preview_host out) @ [newline] @ ''preview: '' @ nat_string (length out) @ '' hosts, stop after '' @ itoa maxFailures @
     '' failed hosts; nothing was executed. Add --execute to apply.'' @ [newline]"

section \<open>The stream of host results\<close>

text \<open>
  \<open>jsonlStream\<close>: the lines written so far and the first error. \<open>line\<close> is called from many goroutines; its mutex makes
  each call atomic. What encoding and writing the line answer is passed in.
\<close>

record jsonlStream =
  js_written :: "string list"
  js_err :: "string option"

definition stream_line :: "string + string \<Rightarrow> string option \<Rightarrow> jsonlStream \<Rightarrow> jsonlStream" where
  "stream_line data write_err s =
     (let (s1, err) = (case data of
            Inl e \<Rightarrow> (s, Some e)
          | Inr d \<Rightarrow> (case write_err of
                Some e \<Rightarrow> (s, Some e)
              | None \<Rightarrow> (s\<lparr>js_written := js_written s @ [d]\<rparr>, None)))
      in if js_err s = None then s1\<lparr>js_err := err\<rparr> else s1)"

definition stream_close :: "string + string \<Rightarrow> string option \<Rightarrow> string option \<Rightarrow> jsonlStream \<Rightarrow> string option \<times> jsonlStream" where
  "stream_close summary write_err close_err s =
     (let s1 = stream_line summary write_err s;
          s2 = (if js_err s1 = None then s1\<lparr>js_err := close_err\<rparr> else s1)
      in (js_err s2, s2))"

text \<open>\<open>strings.EqualFold\<close> with \<open>.jsonl\<close>; the long s (U+017F) is the only other character that folds to one of its letters.\<close>

definition is_jsonl :: "string \<Rightarrow> bool" where
  "is_jsonl path \<longleftrightarrow> map lower (replace_all (path_ext path) [byte 0xC5, byte 0xBF] ''s'') = ''.jsonl''"

definition report_format :: "string \<Rightarrow> string" where
  "report_format path = (let ext = map lower (path_ext path) in if ext = ''.yaml'' \<or> ext = ''.yml'' then ''yaml'' else ''json'')"

section \<open>A run\<close>

record 'k outcome =
  oc_exit :: int
  oc_stdout :: string
  oc_stderr :: string
  oc_ran :: "'k Runner option"
  oc_lines :: "string list"

datatype printed = VReport Report | VPreview "dryHost list"

datatype writer = Stdout | ReportFile

datatype stream_item = HostLine HostResult | SummaryLine Report

record 'k cli_env =
  cl_job :: job_env
  cl_inv :: inv_env
  cl_creds :: "'k cred_env"
  cl_env_first :: bool
  cl_reports :: report_env
  cl_open :: "string \<Rightarrow> string option"
  cl_run :: "'k Runner \<Rightarrow> Report \<times> HostResult list"
  cl_marshal :: "stream_item \<Rightarrow> string + string"
  cl_write :: "string list \<Rightarrow> string \<Rightarrow> string option"
  cl_close :: "string option"
  cl_yaml :: "writer \<Rightarrow> printed \<Rightarrow> string \<times> string option"
  cl_json :: "writer \<Rightarrow> printed \<Rightarrow> string \<times> string option"
  cl_align :: "string \<Rightarrow> string \<times> string option"
  cl_version :: string
  cl_build :: "string option"

text \<open>Encoding an item and writing it to the file; the answer of a write depends on what is in the file.\<close>

definition stream_item_line :: "'k cli_env \<Rightarrow> stream_item \<Rightarrow> jsonlStream \<Rightarrow> jsonlStream" where
  "stream_item_line E item s =
     (let data = cl_marshal E item in
      stream_line data (case data of Inl _ \<Rightarrow> None | Inr d \<Rightarrow> cl_write E (js_written s) d) s)"

text \<open>Opening a stream truncates the file; a report of another format has no stream.\<close>

definition new_stream :: jsonlStream where
  "new_stream = \<lparr>js_written = [], js_err = None\<rparr>"

definition openStream :: "'k cli_env \<Rightarrow> string \<Rightarrow> string + jsonlStream option" where
  "openStream E path =
     (if \<not> is_jsonl path then Inr None
      else case cl_open E path of Some e \<Rightarrow> Inl e | None \<Rightarrow> Inr (Some new_stream))"

text \<open>An open stream during a run: a line per finished host (\<open>OnHostDone\<close>), then the summary.\<close>

definition run_stream :: "'k cli_env \<Rightarrow> jsonlStream \<Rightarrow> HostResult list \<Rightarrow> Report \<Rightarrow> string option \<times> jsonlStream" where
  "run_stream E s0 hs rep =
     (let s = fold (stream_item_line E) (map HostLine hs) s0;
          data = cl_marshal E (SummaryLine rep)
      in stream_close data (case data of Inl _ \<Rightarrow> None | Inr d \<Rightarrow> cl_write E (js_written s) d) (cl_close E) s)"

text \<open>The encoders of the libraries answer the text that reached the writer and their error.\<close>

definition encode :: "'k cli_env \<Rightarrow> writer \<Rightarrow> string \<Rightarrow> printed \<Rightarrow> string \<times> string option" where
  "encode E w format v = (if format = ''yaml'' then cl_yaml E w v else cl_json E w v)"

definition writeReport :: "'k cli_env \<Rightarrow> string \<Rightarrow> Report \<Rightarrow> string option" where
  "writeReport E path rep =
     (case snd (encode E ReportFile (report_format path) (VReport rep)) of Some e \<Rightarrow> Some e | None \<Rightarrow> cl_close E)"

definition exits :: "int \<Rightarrow> string \<Rightarrow> string \<Rightarrow> 'k outcome" where
  "exits code out err = \<lparr>oc_exit = code, oc_stdout = out, oc_stderr = err, oc_ran = None, oc_lines = []\<rparr>"

text \<open>The help text; it is always there (\<open>help_complete\<close>).\<close>

definition help_text :: "'k cli_env \<Rightarrow> string" where
  "help_text E = (case printHelp (cl_align E) of Some h \<Rightarrow> h | None \<Rightarrow> '''')"

definition fail_with :: "string \<Rightarrow> 'k outcome" where
  "fail_with msg = exits ExitError '''' (''error: '' @ msg @ [newline])"

definition flag_error :: "bool \<Rightarrow> flags \<Rightarrow> string list \<Rightarrow> string option" where
  "flag_error validateOnly f args =
     (if args \<noteq> [] then Some (''unexpected argument '' @ fmt_q (hd args))
      else if f_job f = '''' then Some ''--job is required''
      else if f_inv f = [] \<and> \<not> validateOnly then Some ''--inventory is required''
      else if f_output f \<noteq> ''table'' \<and> f_output f \<noteq> ''json'' \<and> f_output f \<noteq> ''yaml''
        then Some ''--output must be table, json or yaml''
      else if o_Concurrency (f_o f) < 1 \<or> o_MaxOutput (f_o f) < 1024
        then Some ''--concurrency must be >= 1 and --max-output >= 1024''
      else None)"

definition load_error_text :: "load_error \<Rightarrow> string" where
  "load_error_text e = (case e of FileError m \<Rightarrow> m | Invalid iss \<Rightarrow> ValidationError_Error iss)"

text \<open>The hosts of the run: the selected ones, or those of them that did not succeed before.\<close>

definition run_targets :: "'k cli_env \<Rightarrow> flags \<Rightarrow> string + Target list" where
  "run_targets E f =
     bind_result (Inventory_Load (cl_inv E) (f_inv f)) (\<lambda>iv.
     bind_result (Select iv \<lparr>sel_Groups = f_groups f, sel_Tags = f_tags f, sel_Hosts = f_hosts f\<rparr>) (\<lambda>ts.
     bind_result (if f_onlyFailed f \<noteq> '''' then
                    (case onlyFailed (cl_reports E) (f_onlyFailed f) ts of
                       Inl e \<Rightarrow> Inl (''--only-failed: '' @ e) | Inr ts' \<Rightarrow> Inr ts')
                  else Inr ts) (\<lambda>ts'.
     if ts' = [] then Inl ''no hosts match the selectors'' else Inr ts')))"

definition run_options :: "flags \<Rightarrow> bool \<Rightarrow> int \<Rightarrow> Options" where
  "run_options f validateOnly limit =
     (f_o f)\<lparr>o_MaxFailures := limit, o_SkipCredentials := (\<not> f_execute f \<and> \<not> validateOnly), o_Progress := 10 * Second\<rparr>"

text \<open>Everything between the loaded job and the prepared run.\<close>

definition prepare_run :: "'k cli_env \<Rightarrow> flags \<Rightarrow> bool \<Rightarrow> Job \<Rightarrow> string + Target list \<times> 'k Runner" where
  "prepare_run E f validateOnly j =
     bind_result (run_targets E f) (\<lambda>ts.
     bind_result (case ParseMaxFailures (je_conv (cl_job E)) (if f_maxFailures f \<noteq> '''' then f_maxFailures f else job_MaxFailures j)
                         (int (length ts)) of
                    Inl e \<Rightarrow> Inl (''max failures '' @ e) | Inr n \<Rightarrow> Inr n) (\<lambda>limit.
     bind_result (pairs (f_vars f) ''--var'') (\<lambda>vs.
     bind_result (pairs (f_varEnvs f) ''--var-env'') (\<lambda>es.
     case Prepare (cl_env_first E) (cl_creds E) \<lparr>inp_Job = j, inp_Targets = ts, inp_Vars = vs, inp_VarEnv = es\<rparr>
            (run_options f validateOnly limit) of
       Inl e \<Rightarrow> Inl (''validation failed, no host was contacted:'' @ [newline] @ e)
     | Inr R \<Rightarrow> Inr (ts, R)))))"

definition printPreview :: "'k cli_env \<Rightarrow> string \<Rightarrow> 'k Runner \<Rightarrow> 'k outcome" where
  "printPreview E format R =
     (let out = map dry_host (rn_Plans R) in
      if format \<noteq> ''table'' then
        (case encode E Stdout format (VPreview out) of (txt, err) \<Rightarrow> exits (if err = None then ExitOK else ExitError) txt '''')
      else exits ExitOK (preview_text out (o_MaxFailures (rn_opts R))) '''')"

definition printReport :: "'k cli_env \<Rightarrow> string \<Rightarrow> bool \<Rightarrow> Report \<Rightarrow> string \<times> string option" where
  "printReport E format verbose rep =
     (if format \<noteq> ''table'' then encode E Stdout format (VReport rep)
      else case cl_align E (concat (report_rows verbose rep)) of
        (txt, Some e) \<Rightarrow> (txt, Some e)
      | (txt, None) \<Rightarrow>
          (txt @ [newline] @ Summary_String (rep_Summary rep) @ '' in '' @ Report_Duration_String (rep_Duration rep) @ '' (job '' @ rep_Job rep @
             '', sha256 '' @ take 12 (rep_Hash rep) @ '')'' @ [newline], None))"

text \<open>The part of \<open>run\<close> that contacts hosts.\<close>

definition execute :: "'k cli_env \<Rightarrow> flags \<Rightarrow> 'k Runner \<Rightarrow> 'k outcome" where
  "execute E f R =
     (case bind_result (openStream E (f_report f)) (\<lambda>stream.
             case (if stream = None \<and> f_report f \<noteq> '''' then cl_open E (f_report f) else None) of
               Some e \<Rightarrow> Inl e | None \<Rightarrow> Inr stream) of
        Inl e \<Rightarrow> fail_with (''--report: '' @ e)
      | Inr stream \<Rightarrow>
          (let (rep, hs) = cl_run E R;
               (stored, ls) = (case stream of
                   Some s0 \<Rightarrow> (case run_stream E s0 hs rep of (e, s) \<Rightarrow> (e, js_written s))
                 | None \<Rightarrow> if f_report f \<noteq> '''' then (writeReport E (f_report f) rep, []) else (None, []));
               warn = (case stored of None \<Rightarrow> '''' | Some e \<Rightarrow> ''error: writing report: '' @ e @ [newline]);
               (out, err) = printReport E (f_output f) (f_verbose f) rep
           in case err of
                Some e \<Rightarrow> \<lparr>oc_exit = ExitError, oc_stdout = out, oc_stderr = warn @ ''error: '' @ e @ [newline], oc_ran = Some R, oc_lines = ls\<rparr>
              | None \<Rightarrow> \<lparr>oc_exit = (if Report_OK rep then ExitOK else ExitHostsFailed), oc_stdout = out, oc_stderr = warn,
                         oc_ran = Some R, oc_lines = ls\<rparr>))"

definition cli_run :: "'k cli_env \<Rightarrow> string list \<Rightarrow> bool \<Rightarrow> 'k outcome" where
  "cli_run E args validateOnly =
     (case parse_args (help_text E) newFlags args of
        ParseHelp txt \<Rightarrow> exits ExitOK '''' txt
      | ParseError txt \<Rightarrow> exits ExitError '''' txt
      | Parsed f rest \<Rightarrow>
          (case flag_error validateOnly f rest of
             Some msg \<Rightarrow> fail_with msg
           | None \<Rightarrow>
               (case Load (cl_job E) (f_job f) of
                  Inl e \<Rightarrow> fail_with (load_error_text e)
                | Inr j \<Rightarrow>
                    if validateOnly \<and> f_inv f = [] then
                      exits ExitOK (''job '' @ fmt_q (job_Name j) @ '' is valid ('' @ nat_string (length (job_Steps j)) @ '' steps, sha256 '' @
                        take 12 (job_Hash j) @ '')'' @ [newline]) ''''
                    else
                      (case prepare_run E f validateOnly j of
                         Inl e \<Rightarrow> fail_with e
                       | Inr (ts, R) \<Rightarrow>
                           if validateOnly then
                             exits ExitOK (''job '' @ fmt_q (job_Name j) @ '' is valid for '' @ nat_string (length ts) @ '' hosts'' @
                               [newline]) ''''
                           else if \<not> f_execute f then printPreview E (f_output f) R
                           else execute E f R))))"

definition version :: "'k cli_env \<Rightarrow> string" where
  "version E =
     (if cl_version E \<noteq> ''dev'' then cl_version E
      else case cl_build E of
        Some v \<Rightarrow> if v \<noteq> '''' \<and> v \<noteq> ''(devel)'' then v else cl_version E
      | None \<Rightarrow> cl_version E)"

definition cli_Main :: "'k cli_env \<Rightarrow> string list \<Rightarrow> 'k outcome" where
  "cli_Main E args =
     (case args of
        [] \<Rightarrow> exits ExitError '''' (help_text E)
      | cmd # rest \<Rightarrow>
          if cmd = ''run'' then cli_run E rest False
          else if cmd = ''validate'' then cli_run E rest True
          else if cmd \<in> {''version'', ''--version''} then exits ExitOK (''rco '' @ version E @ [newline]) ''''
          else if cmd \<in> {''help'', ''-h'', ''--help''} then exits ExitOK (help_text E) ''''
          else exits ExitError '''' (''unknown command '' @ fmt_q cmd @ '' (see rco help)'' @ [newline]))"


text \<open>\<open>cmd/rco/main.go\<close>: the exit code for the arguments of the process, the program name first.\<close>

definition rco_main :: "'k cli_env \<Rightarrow> string list \<Rightarrow> int" where
  "rco_main E os_Args = oc_exit (cli_Main E (tl os_Args))"

end
