(* ===== verification/Cli_Props.thy ===== *)
theory Cli_Props
  imports Cli Inventory_Props
begin

text \<open>What the command line promises: when hosts are contacted, which ones, and what the exit code means.\<close>

section \<open>When hosts are contacted\<close>

lemma relabel_Inr_iff: "(case m of Inl e \<Rightarrow> Inl (g e) | Inr x \<Rightarrow> Inr (h x)) = Inr y \<longleftrightarrow> (\<exists>x. m = Inr x \<and> y = h x)"
  by (auto split: sum.splits)

lemma resolve_creds:
  assumes "resolve iv g gd h = Inr t" and "c \<in> set (target_creds t)"
  shows "\<exists>n. credential iv n = Inr c"
  using assms(1)
proof (cases rule: resolveE)
  case (1 cred bastion)
  have f: "ep_Credential t = cred" "tg_Bastion t = bastion"
    by (subst 1(9), simp)+
  show ?thesis
  proof (cases "c = cred")
    case True
    then show ?thesis
      using 1(6) by blast
  next
    case False
    then obtain b where b: "bastion = Some b" "c = ep_Credential b"
      using assms(2) f by (cases bastion) (simp_all add: target_creds_def)
    then show ?thesis
      using 1(8) by (auto simp: resolve_bastion_def Let_def split: if_splits option.splits sum.splits)
  qed
qed

text \<open>The targets of one inventory name their credentials consistently.\<close>

lemma Select_creds_by_name:
  assumes "Select iv sel = Inr all" and "set ts \<subseteq> set all"
  shows "creds_by_name ts"
proof -
  have known: "\<exists>n. credential iv n = Inr c" if t: "t \<in> set ts" and c: "c \<in> set (target_creds t)" for t c
  proof -
    have ok: "entries_ok iv (host_entries iv)" and "t \<in> set (targets iv)"
      using assms t by (auto simp: Select_Inr_iff)
    then obtain e where "e \<in> set (host_entries iv)" "t = entry_target iv e"
      by (auto simp: targets_def)
    then have "resolve iv (fst e) (fst (snd e)) (snd (snd e)) = Inr t"
      using ok entry_ok_resolve by (simp add: entries_ok_def)
    from resolve_creds [OF this c] show ?thesis .
  qed
  have same: "c = c'" if "credential iv n = Inr c" "credential iv n' = Inr c'" "cred_Name c = cred_Name c'" for n n' c c'
    using that by (auto simp: credential_Inr_iff)
  show ?thesis
    unfolding creds_by_name_def inj_on_def using known same by blast
qed

lemma onlyFailed_subset: "onlyFailed E path ts = Inr out \<Longrightarrow> set out \<subseteq> set ts"
  by (auto simp: onlyFailed_def result_simps)

lemma run_targets_Inr:
  assumes "run_targets E f = Inr ts"
  shows "\<exists>iv all. Inventory_Load (cl_inv E) (f_inv f) = Inr iv \<and>
     Select iv \<lparr>sel_Groups = f_groups f, sel_Tags = f_tags f, sel_Hosts = f_hosts f\<rparr> = Inr all \<and> set ts \<subseteq> set all \<and> ts \<noteq> [] \<and>
     (f_onlyFailed f = '''' \<longrightarrow> ts = all)"
  using assms onlyFailed_subset
  by (fastforce simp: run_targets_def result_simps split: if_splits sum.splits)

lemma prepare_run_Inr:
  assumes "prepare_run E f v j = Inr (ts, R)"
  shows "run_targets E f = Inr ts \<and> map pl_Target (rn_Plans R) = ts \<and> rn_job R = j \<and>
     o_SkipCredentials (rn_opts R) = (\<not> f_execute f \<and> \<not> v) \<and> o_Insecure (rn_opts R) = o_Insecure (f_o f) \<and> o_Concurrency (rn_opts R) = o_Concurrency (f_o f) \<and>
     (\<exists>vs es limit. Prepare (cl_env_first E) (cl_creds E) \<lparr>inp_Job = j, inp_Targets = ts, inp_Vars = vs, inp_VarEnv = es\<rparr>
        (run_options f v limit) = Inr R \<and>
        ParseMaxFailures (je_conv (cl_job E)) (if f_maxFailures f \<noteq> '''' then f_maxFailures f else job_MaxFailures j) (int (length ts)) = Inr limit \<and>
        pairs (f_vars f) ''--var'' = Inr vs \<and> pairs (f_varEnvs f) ''--var-env'' = Inr es)"
proof -
  obtain limit vs es where t: "run_targets E f = Inr ts"
    and l: "ParseMaxFailures (je_conv (cl_job E)) (if f_maxFailures f \<noteq> '''' then f_maxFailures f else job_MaxFailures j) (int (length ts)) = Inr limit"
    and v: "pairs (f_vars f) ''--var'' = Inr vs" "pairs (f_varEnvs f) ''--var-env'' = Inr es"
    and p: "Prepare (cl_env_first E) (cl_creds E) \<lparr>inp_Job = j, inp_Targets = ts, inp_Vars = vs, inp_VarEnv = es\<rparr> (run_options f v limit) = Inr R"
    using assms unfolding prepare_run_def result_simps relabel_Inr_iff by blast
  have c: "creds_by_name (inp_Targets \<lparr>inp_Job = j, inp_Targets = ts, inp_Vars = vs, inp_VarEnv = es\<rparr>)"
    using run_targets_Inr [OF t] Select_creds_by_name by auto
  from Prepare_Inr_iff [OF c, of "cl_env_first E" "cl_creds E" "run_options f v limit"] p
  have R: "rn_opts R = run_options f v limit" "rn_job R = j"
    "rn_Plans R = map (\<lambda>t. redact_display (rn_redact R) (the_plan \<lparr>inp_Job = j, inp_Targets = ts, inp_Vars = vs, inp_VarEnv = es\<rparr>
       (run_options f v limit) (cl_creds E) t)) ts"
    by auto
  have "map pl_Target (rn_Plans R) = ts"
    unfolding R(3) by (simp add: redact_display_def the_plan_def comp_def)
  then show ?thesis
    using t l v p R(1,2) by (auto simp: run_options_def)
qed

lemma oc_ran_none:
  "oc_ran (exits c out err) = None" "oc_ran (fail_with m) = None" "oc_ran (printPreview E fmt Q) = None"
  by (auto simp: exits_def fail_with_def printPreview_def Let_def split: prod.splits)

lemma cli_ran_cases:
  assumes "oc_ran (cli_Main E args) = Some R"
  obtains rest f j ts where "args = ''run'' # rest" "parse_args (help_text E) newFlags rest = Parsed f []" "flag_error False f [] = None"
    "Load (cl_job E) (f_job f) = Inr j" "prepare_run E f False j = Inr (ts, R)" "f_execute f"
proof -
  obtain rest where a: "args = ''run'' # rest \<and> oc_ran (cli_run E rest False) = Some R \<or> oc_ran (cli_run E rest True) = Some R"
    using assms by (auto simp: cli_Main_def oc_ran_none split: list.splits if_splits)
  have "oc_ran (cli_run E rest True) = None"
    by (auto simp: cli_run_def oc_ran_none split: parse_result.splits option.splits sum.splits)
  with a have args: "args = ''run'' # rest" and r: "oc_ran (cli_run E rest False) = Some R"
    by auto
  obtain f left j ts R' where f: "parse_args (help_text E) newFlags rest = Parsed f left" "flag_error False f left = None"
    and j: "Load (cl_job E) (f_job f) = Inr j" and p: "prepare_run E f False j = Inr (ts, R')" and x: "f_execute f"
    and e: "oc_ran (execute E f R') = Some R"
    using r by (auto simp: cli_run_def oc_ran_none split: parse_result.splits option.splits sum.splits if_splits)
  have "R' = R"
    using e by (auto simp: execute_def oc_ran_none Let_def split: option.splits prod.splits sum.splits)
  moreover have "left = []"
    using f(2) by (auto simp: flag_error_def split: if_splits)
  ultimately show thesis
    using that args f j p x by blast
qed

text \<open>
  C11: Nothing is contacted by accident: a run is executed only for \<open>rco run\<close> with \<open>--execute\<close>, after the job was loaded
  and is valid, the inventory was loaded and the hosts selected, and every host was prepared with its
  credentials. It runs exactly the selected hosts, and at least one.
\<close>

theorem cli_contacts:
  assumes "oc_ran (cli_Main E args) = Some R"
  shows "\<exists>rest f j iv all ts. args = ''run'' # rest \<and> parse_args (help_text E) newFlags rest = Parsed f [] \<and>
     (\<exists>a \<in> set rest. switches_on ''execute'' a) \<and>
     Load (cl_job E) (f_job f) = Inr j \<and> Validate (je_recompile (cl_job E)) (je_conv (cl_job E)) j = Inr () \<and>
     Inventory_Load (cl_inv E) (f_inv f) = Inr iv \<and>
     Select iv \<lparr>sel_Groups = f_groups f, sel_Tags = f_tags f, sel_Hosts = f_hosts f\<rparr> = Inr all \<and>
     set ts \<subseteq> set all \<and> ts \<noteq> [] \<and> (f_onlyFailed f = '''' \<longrightarrow> ts = all) \<and>
     map pl_Target (rn_Plans R) = ts \<and> rn_job R = j \<and> \<not> o_SkipCredentials (rn_opts R) \<and> 1 \<le> o_Concurrency (rn_opts R)"
proof -
  obtain rest f j ts where args: "args = ''run'' # rest" and f: "parse_args (help_text E) newFlags rest = Parsed f []" "flag_error False f [] = None"
    and j: "Load (cl_job E) (f_job f) = Inr j" and p: "prepare_run E f False j = Inr (ts, R)" and x: "f_execute f"
    by (rule cli_ran_cases [OF assms])
  have fe: "1 \<le> o_Concurrency (f_o f)"
    using f(2) by (auto simp: flag_error_def split: if_splits)
  have typed: "\<exists>a \<in> set rest. switches_on ''execute'' a"
    using execute_switch.parse_switch [OF f(1)] x by (simp add: newFlags_def)
  note prep = prepare_run_Inr [OF p]
  obtain iv all where "Inventory_Load (cl_inv E) (f_inv f) = Inr iv"
    "Select iv \<lparr>sel_Groups = f_groups f, sel_Tags = f_tags f, sel_Hosts = f_hosts f\<rparr> = Inr all"
    "set ts \<subseteq> set all" "ts \<noteq> []" "f_onlyFailed f = '''' \<longrightarrow> ts = all"
    using run_targets_Inr prep by blast
  then show ?thesis
    using args f(1) fe x typed j Load_valid [OF j] prep by auto
qed

section \<open>Exit codes\<close>

lemma exits_simps [simp]:
  "oc_exit (exits c out err) = c" "oc_ran (exits c out err) = None" "oc_exit (fail_with m) = ExitError" "oc_ran (fail_with m) = None"
  by (simp_all add: exits_def fail_with_def)

lemma printPreview_exit: "oc_exit (printPreview E fmt R) \<in> {ExitOK, ExitError}" "oc_ran (printPreview E fmt R) = None"
  by (auto simp: printPreview_def Let_def split: prod.splits)

text \<open>What the exit code of an outcome may be.\<close>

definition exit_ok :: "'k cli_env \<Rightarrow> 'k outcome \<Rightarrow> bool" where
  "exit_ok E oc \<longleftrightarrow>
     (case oc_ran oc of
        None \<Rightarrow> oc_exit oc \<in> {ExitOK, ExitError}
      | Some R \<Rightarrow>
          (oc_exit oc = ExitOK \<longrightarrow> Report_OK (fst (cl_run E R))) \<and> (oc_exit oc = ExitHostsFailed \<longrightarrow> \<not> Report_OK (fst (cl_run E R))) \<and>
          (oc_exit oc = ExitError \<longrightarrow> (\<exists>fmt verbose. snd (printReport E fmt verbose (fst (cl_run E R))) \<noteq> None)) \<and>
          oc_exit oc \<in> {ExitOK, ExitError, ExitHostsFailed})"

lemma exit_ok_done [simp]: "c \<in> {ExitOK, ExitError} \<Longrightarrow> exit_ok E (exits c out err)" "exit_ok E (fail_with m)" "exit_ok E (printPreview E fmt R)"
  using printPreview_exit [of E fmt R] by (simp_all add: exit_ok_def)

lemma execute_exit: "exit_ok E (execute E f R)"
proof (cases "bind_result (openStream E (f_report f)) (\<lambda>stream.
    case (if stream = None \<and> f_report f \<noteq> '''' then cl_open E (f_report f) else None) of Some e \<Rightarrow> Inl e | None \<Rightarrow> Inr stream)")
  case (Inl e)
  then show ?thesis
    unfolding execute_def by simp
next
  case (Inr stream)
  obtain rep hs where r: "cl_run E R = (rep, hs)"
    by fastforce
  obtain stored ls where st: "(case stream of Some s0 \<Rightarrow> (case run_stream E s0 hs rep of (e, s) \<Rightarrow> (e, js_written s))
      | None \<Rightarrow> if f_report f \<noteq> '''' then (writeReport E (f_report f) rep, []) else (None, [])) = (stored, ls)"
    by (rule prod.exhaust)
  obtain out err where p: "printReport E (f_output f) (f_verbose f) rep = (out, err)"
    by fastforce
  have codes: "ExitOK \<noteq> ExitError" "ExitOK \<noteq> ExitHostsFailed" "ExitError \<noteq> ExitHostsFailed"
    by (simp_all add: ExitOK_def ExitError_def ExitHostsFailed_def)
  have e: "\<exists>fmt verbose. snd (printReport E fmt verbose (fst (cl_run E R))) \<noteq> None" if "err \<noteq> None"
    using p r that by (metis fst_conv snd_conv)
  show ?thesis
    unfolding execute_def Inr sum.case Let_def r prod.case st p using r codes e by (cases err) (auto simp: exit_ok_def)
qed

lemma cli_run_exit: "exit_ok E (cli_run E args v)"
  by (simp add: cli_run_def execute_exit split: parse_result.splits option.splits sum.splits prod.splits)

text \<open>
  C36: Exit codes: 2 only after a run in which a host did not succeed, 0 after a run only when every host succeeded;
  without a run the code is 0 or 1. The only way to end with 1 after hosts were contacted is an error while
  printing the report.
\<close>

theorem cli_exit_codes:
  "case oc_ran (cli_Main E args) of
     None \<Rightarrow> oc_exit (cli_Main E args) = ExitOK \<or> oc_exit (cli_Main E args) = ExitError
   | Some R \<Rightarrow>
       oc_exit (cli_Main E args) = ExitOK \<and> Report_OK (fst (cl_run E R)) \<or>
       oc_exit (cli_Main E args) = ExitHostsFailed \<and> \<not> Report_OK (fst (cl_run E R)) \<or>
       oc_exit (cli_Main E args) = ExitError \<and> (\<exists>fmt verbose. snd (printReport E fmt verbose (fst (cl_run E R))) \<noteq> None)"
proof -
  have "exit_ok E (cli_Main E args)"
    by (auto simp: cli_Main_def cli_run_exit split: list.splits)
  then show ?thesis
    unfolding exit_ok_def by (auto split: option.splits)
qed

section \<open>Flags of the form \<open>NAME=VALUE\<close>\<close>

definition name_value :: "string \<Rightarrow> string \<times> string" where
  "name_value kv = (case strings_cut kv (CHR ''='') of None \<Rightarrow> ('''', '''') | Some p \<Rightarrow> p)"

lemma pairs_from_Inr:
  "pairs_from fl out kvs = Inr m \<longleftrightarrow>
     (\<forall>kv \<in> set kvs. \<exists>k v. kv = k @ CHR ''='' # v \<and> CHR ''='' \<notin> set k \<and> k \<noteq> '''') \<and> m = put_all out (map name_value kvs)"
proof (induction kvs arbitrary: out)
  case (Cons kv kvs)
  show ?case
  proof (cases "strings_cut kv (CHR ''='')")
    case None
    then have no: "\<nexists>k v. kv = k @ CHR ''='' # v \<and> CHR ''='' \<notin> set k"
      using strings_cut_append by fastforce
    show ?thesis
      unfolding list.set ball_simps using None no by auto
  next
    case (Some p)
    obtain k v where p: "p = (k, v)"
      by (cases p)
    have kv: "kv = k @ CHR ''='' # v" "CHR ''='' \<notin> set k"
      using strings_cut_SomeD [of kv] Some p by simp_all
    have "k' = k" if "kv = k' @ CHR ''='' # v'" "CHR ''='' \<notin> set k'" for k' v'
      using strings_cut_append [OF that(2), of v'] that(1) Some p by simp
    then have "(\<exists>k' v'. kv = k' @ CHR ''='' # v' \<and> CHR ''='' \<notin> set k' \<and> k' \<noteq> '''') \<longleftrightarrow> k \<noteq> ''''"
      using kv by blast
    then show ?thesis
      using Some p Cons.IH by (auto simp: name_value_def)
  qed
qed auto

lemma map_of_put_all_list: "map_of (put_all dst src) k = (case map_of (rev src) k of None \<Rightarrow> map_of dst k | Some v \<Rightarrow> Some v)"
proof (induction src arbitrary: dst)
  case (Cons kv src)
  obtain a b where "kv = (a, b)"
    by (cases kv)
  then show ?case
    using Cons.IH [of "AList.update a b dst"] by (auto simp: update_conv' map_add_def split: option.splits)
qed simp

text \<open>
  \<open>--var\<close> and \<open>--var-env\<close>: the flags are accepted exactly when each has a name, an equals sign and a value (which may
  be empty or contain further equals signs); the last flag for a name wins.
\<close>

theorem pairs_last_wins:
  "(is_ok (pairs kvs fl) \<longleftrightarrow> (\<forall>kv \<in> set kvs. \<exists>k v. kv = k @ ''='' @ v \<and> CHR ''='' \<notin> set k \<and> k \<noteq> '''')) \<and>
   (\<forall>m k. pairs kvs fl = Inr m \<longrightarrow> map_of m k = map_of (rev (map name_value kvs)) k)"
proof -
  have "map_of m k = map_of (rev (map name_value kvs)) k" if "pairs kvs fl = Inr m" for m k
    using that by (simp add: pairs_def pairs_from_Inr map_of_put_all_list split: option.splits)
  then show ?thesis
    by (simp add: pairs_def is_ok_iff pairs_from_Inr)
qed

theorem pairs_last_wins_witness: "map_of (projr (pairs [''a=1'', ''b=x=y'', ''a='' ] ''--var'')) ''a'' = Some ''''"
proof -
  have "is_ok (pairs [''a=1'', ''b=x=y'', ''a='' ] ''--var'')"
    by code_simp
  then have p: "pairs [''a=1'', ''b=x=y'', ''a='' ] ''--var'' = Inr (projr (pairs [''a=1'', ''b=x=y'', ''a='' ] ''--var''))"
    by (auto simp: is_ok_iff)
  have "map_of (rev (map name_value [''a=1'', ''b=x=y'', ''a='' ])) ''a'' = Some ''''"
    by code_simp
  then show ?thesis
    using pairs_last_wins [of "[''a=1'', ''b=x=y'', ''a='' ]" "''--var''"] p by metis
qed

section \<open>Running the failed hosts again\<close>

lemma retry_map_lookup:
  "map_of (retry_map hs) n = map_option (\<lambda>st. st \<noteq> ''SUCCESS'') (map_of (rev (map (\<lambda>h. (ph_Host h, ph_Status h)) hs)) n)"
proof -
  have "map_of (map (\<lambda>h. (ph_Host h, ph_Status h \<noteq> ''SUCCESS'')) xs) n = map_option (\<lambda>st. st \<noteq> ''SUCCESS'') (map_of (map (\<lambda>h. (ph_Host h, ph_Status h)) xs) n)" for xs
    by (induction xs) auto
  from this [of "rev hs"] show ?thesis
    by (simp add: retry_map_def map_of_put_all_list rev_map split: option.splits)
qed

text \<open>
  \<open>--only-failed\<close> keeps exactly the selected hosts that the earlier report has with another status than success.
\<close>

lemma onlyFailed_hosts:
  assumes "re_read E path = Inr data" and "read_prev E path data = Inr prev"
    and "pv_Hosts prev = map (\<lambda>h. \<lparr>ph_Host = hr_Host h, ph_Status = status_string (hr_Status h)\<rparr>) hs"
    and "distinct (map hr_Host hs)"
  shows "onlyFailed E path ts = Inr (filter (\<lambda>t. \<exists>h \<in> set hs. hr_Host h = ep_Name t \<and> hr_Status h \<noteq> StatusSuccess) ts)"
proof -
  have st: "status_string s = ''SUCCESS'' \<longleftrightarrow> s = StatusSuccess" for s
    by (cases s) simp_all
  let ?al = "map (\<lambda>h. (ph_Host h, ph_Status h)) (pv_Hosts prev)"
  have "gomap_ok ?al" "gomap_ok (rev ?al)"
    using assms(3,4) by (simp_all add: gomap_ok_def comp_def rev_map [symmetric])
  then have "map_of (rev ?al) n = Some v \<longleftrightarrow> (n, v) \<in> set ?al" for n v
    by (simp add: gomap_lookup_iff)
  then have "map_of (retry_map (pv_Hosts prev)) n = Some True \<longleftrightarrow>
      (\<exists>h \<in> set hs. hr_Host h = n \<and> hr_Status h \<noteq> StatusSuccess)" for n
    unfolding retry_map_lookup map_option_eq_Some by (auto simp: assms(3) st)
  then show ?thesis
    using assms(1,2) by (simp add: onlyFailed_def)
qed


section \<open>An example\<close>

text \<open>A concrete environment: every host succeeds, except \<open>web2\<close>; the encoder writes the fields that are read back.\<close>

definition cli_creds :: "unit cred_env" where
  "cli_creds = (prep_env full_env)\<lparr>ce_read := (\<lambda>p. Inr ''KEY''), ce_parse := (\<lambda>k. Inr ())\<rparr>"

definition plan_result :: "unit Plan \<Rightarrow> HostResult" where
  "plan_result p = Report.example_host (ep_Name (pl_Target p)) (if ep_Name (pl_Target p) = ''web2'' then StatusFailed else StatusSuccess)"

definition cli_report :: "unit Runner \<Rightarrow> Report" where
  "cli_report R = Report_finish ((newReport (rn_job R) 0)\<lparr>rep_Hosts := map plan_result (rn_Plans R)\<rparr>) Second"

definition encode_item :: "stream_item \<Rightarrow> string" where
  "encode_item i = (case i of
       HostLine h \<Rightarrow> hr_Host h @ '','' @ status_string (hr_Status h) | SummaryLine rep \<Rightarrow> '','' @ rep_Job rep)"

definition decode_item :: "string \<Rightarrow> string + prev_line" where
  "decode_item l = (case strings_cut l (CHR '','') of
       None \<Rightarrow> Inl ''syntax'' | Some (a, b) \<Rightarrow>
         Inr (if a = '''' then \<lparr>ln_prevHost = \<lparr>ph_Host = '''', ph_Status = ''''\<rparr>, ln_Job = b\<rparr>
              else \<lparr>ln_prevHost = \<lparr>ph_Host = a, ph_Status = b\<rparr>, ln_Job = ''''\<rparr>))"

fun scan_lines :: "string \<Rightarrow> string \<Rightarrow> string list" where
  "scan_lines acc [] = (if acc = '''' then [] else [rev acc])"
| "scan_lines acc (c # s) = (if c = newline then rev acc # scan_lines '''' s else scan_lines (c # acc) s)"

definition example_reports :: report_env where
  "example_reports = \<lparr>re_read = (\<lambda>p. Inl ''no such file''), re_scan = (\<lambda>d. (scan_lines '''' d, None)), re_line = decode_item,
     re_yaml = (\<lambda>d. Inl ''syntax''), re_json = (\<lambda>d. Inl ''syntax'')\<rparr>"

definition example_cli :: "unit cli_env" where
  "example_cli = \<lparr>cl_job = example_job_env, cl_inv = example_inv_env, cl_creds = cli_creds, cl_env_first = False,
     cl_reports = example_reports, cl_open = (\<lambda>p. None), cl_run = (\<lambda>R. (cli_report R, rev (map plan_result (rn_Plans R)))),
     cl_marshal = (\<lambda>i. Inr (encode_item i)), cl_write = (\<lambda>ls d. None), cl_close = None,
     cl_yaml = (\<lambda>w v. ('''', None)), cl_json = (\<lambda>w v. ('''', None)), cl_align = (\<lambda>t. (t, None)), cl_version = ''dev'', cl_build = None\<rparr>"

definition web_targets :: "Target list" where
  "web_targets = projr (Select example_inventory example_web)"

definition cli_input :: Input where
  "cli_input = \<lparr>inp_Job = loaded_job, inp_Targets = web_targets, inp_Vars = [(''server'', ''ntp1'')], inp_VarEnv = [(''token'', ''TOK'')]\<rparr>"

lemma cli_run_targets: "run_targets example_cli cmd_flags = Inr web_targets"
proof -
  have "example_web = \<lparr>sel_Groups = f_groups cmd_flags, sel_Tags = f_tags cmd_flags, sel_Hosts = f_hosts cmd_flags\<rparr>"
    by (simp add: example_web_def Selector_all_def cmd_flags_def newFlags_def)
  then have "Select example_inventory \<lparr>sel_Groups = f_groups cmd_flags, sel_Tags = f_tags cmd_flags, sel_Hosts = f_hosts cmd_flags\<rparr> = Inr web_targets"
    using example_web_ok by (simp add: web_targets_def)
  moreover have "web_targets \<noteq> []"
    using example_select(2) by (auto simp: web_targets_def)
  ultimately show ?thesis
    using example_inventory_load by (simp add: run_targets_def example_cli_def cmd_flags_def newFlags_def)
qed

lemma cli_evaluated:
  "is_ok (Prepare False cli_creds cli_input (run_options cmd_flags False 1))"
  "ParseMaxFailures (\<lambda>_. 0) (if f_maxFailures cmd_flags \<noteq> '''' then f_maxFailures cmd_flags else job_MaxFailures loaded_job)
     (int (length web_targets)) = Inr 1"
  "pairs (f_vars cmd_flags) ''--var'' = Inr [(''server'', ''ntp1'')]" "pairs (f_varEnvs cmd_flags) ''--var-env'' = Inr [(''token'', ''TOK'')]"
  "flag_error False cmd_flags [] = None"
  by code_simp+

definition cli_runner :: "unit Runner" where
  "cli_runner = projr (Prepare False cli_creds cli_input (run_options cmd_flags False 1))"

lemma cli_prepared: "Prepare False cli_creds cli_input (run_options cmd_flags False 1) = Inr cli_runner"
  using cli_evaluated(1) by (auto simp: is_ok_iff cli_runner_def)

lemma cli_prepare_run: "prepare_run example_cli cmd_flags False loaded_job = Inr (web_targets, cli_runner)"
  unfolding prepare_run_def cli_run_targets
  using cli_evaluated(2-4) cli_prepared by (simp add: example_cli_def example_job_env_def cli_input_def)

lemma cli_ran: "oc_ran (cli_Main example_cli (''run'' # cmd_args)) = Some cli_runner"
proof -
  have "Load (cl_job example_cli) (f_job cmd_flags) = Inr loaded_job"
    using example_load by (simp add: example_cli_def cmd_flags_def newFlags_def)
  moreover have "f_execute cmd_flags" "f_report cmd_flags = ''''" "f_output cmd_flags = ''table''"
    by (simp_all add: cmd_flags_def newFlags_def)
  ultimately show ?thesis
    using cmd_parse cli_evaluated(5) cli_prepare_run
    by (simp add: cli_Main_def cli_run_def execute_def example_cli_def openStream_def is_jsonl_def path_ext_def printReport_def split_beta Let_def)
qed

theorem cli_contacts_witness: "map ep_Name (map pl_Target (rn_Plans cli_runner)) = [''web1'', ''web2'']"
proof -
  obtain f iv all where f: "parse_args (help_text example_cli) newFlags cmd_args = Parsed f []"
    and iv: "Inventory_Load (cl_inv example_cli) (f_inv f) = Inr iv"
    and all: "Select iv \<lparr>sel_Groups = f_groups f, sel_Tags = f_tags f, sel_Hosts = f_hosts f\<rparr> = Inr all"
    and p: "f_onlyFailed f = '''' \<longrightarrow> map pl_Target (rn_Plans cli_runner) = all"
    using cli_contacts [OF cli_ran] by auto
  have "f = cmd_flags"
    using f cmd_parse by simp
  then have "iv = example_inventory"
    using iv example_inventory_load by (simp add: example_cli_def cmd_flags_def newFlags_def)
  moreover have "example_web = \<lparr>sel_Groups = f_groups f, sel_Tags = f_tags f, sel_Hosts = f_hosts f\<rparr>" "f_onlyFailed f = ''''"
    by (simp_all add: \<open>f = cmd_flags\<close> example_web_def Selector_all_def cmd_flags_def newFlags_def)
  ultimately show ?thesis
    using all p example_web_ok example_select(2) by simp
qed


end
