(* ===== verification/Stream_Props.thy ===== *)
theory Stream_Props
  imports Cli_Props
begin

text \<open>
  The \<open>.jsonl\<close> report: what is on disk while a run goes on and at its end, and running the failed hosts again from it.
\<close>

definition items :: "HostResult list \<Rightarrow> Report \<Rightarrow> stream_item list" where
  "items hs rep = map HostLine hs @ [SummaryLine rep]"

text \<open>One line: nothing is ever removed, at most the encoded item is added, and no error means that it was added.\<close>

lemma item_line_cases:
  obtains (written) d where "cl_marshal E i = Inr d" "js_written (stream_item_line E i s) = js_written s @ [d]"
      "js_err (stream_item_line E i s) = js_err s"
  | (failed) "js_written (stream_item_line E i s) = js_written s" "js_err (stream_item_line E i s) \<noteq> None"
  by (cases "cl_marshal E i"; cases "js_err s"; cases "cl_write E (js_written s) (projr (cl_marshal E i))")
    (auto simp: stream_item_line_def stream_line_def)

lemma fold_lines:
  "prefix (js_written s) (js_written (fold (stream_item_line E) is s)) \<and>
   (\<exists>ds. js_written (fold (stream_item_line E) is s) = js_written s @ ds \<and> subseq (map Inr ds) (map (cl_marshal E) is) \<and>
     (js_err (fold (stream_item_line E) is s) = None \<longrightarrow> js_err s = None \<and> map Inr ds = map (cl_marshal E) is))"
proof (induction "is" arbitrary: s)
  case (Cons i "is")
  obtain ds where ds: "js_written (fold (stream_item_line E) is (stream_item_line E i s)) = js_written (stream_item_line E i s) @ ds"
    "subseq (map Inr ds) (map (cl_marshal E) is)"
    "js_err (fold (stream_item_line E) is (stream_item_line E i s)) = None \<longrightarrow>
       js_err (stream_item_line E i s) = None \<and> map Inr ds = map (cl_marshal E) is"
    using Cons.IH [of "stream_item_line E i s"] by (elim conjE exE) (rule that)
  show ?case
  proof (cases rule: item_line_cases [of E i s])
    case (written d)
    then show ?thesis
      using ds by (auto intro!: exI [of _ "d # ds"])
  next
    case failed
    then show ?thesis
      using ds by (auto intro!: exI [of _ ds] simp: subseq_Cons')
  qed
qed simp

lemma run_stream_fold:
  "run_stream E s0 hs rep =
     (let s = fold (stream_item_line E) (items hs rep) s0; s' = (if js_err s = None then s\<lparr>js_err := cl_close E\<rparr> else s)
      in (js_err s', s'))"
  by (simp add: run_stream_def stream_close_def items_def stream_item_line_def Let_def)

text \<open>
  The stream of results is reliable: if closing it reports no error, the file holds the line of every finished host, in
  the order the hosts finished, and then the summary; in any case it holds nothing else and no line twice, and
  what was on disk when some hosts had finished is still there at the end.
\<close>

theorem stream_complete:
  assumes "run_stream E new_stream hs rep = (err, s)"
  shows "(err = None \<longrightarrow> map Inr (js_written s) = map (cl_marshal E) (items hs rep)) \<and>
     subseq (map Inr (js_written s)) (map (cl_marshal E) (items hs rep)) \<and>
     (\<forall>as bs. hs = as @ bs \<longrightarrow> prefix (js_written (fold (stream_item_line E) (map HostLine as) new_stream)) (js_written s))"
proof -
  let ?s = "fold (stream_item_line E) (items hs rep) new_stream"
  have s: "js_written s = js_written ?s" "err = None \<Longrightarrow> js_err ?s = None"
    using assms by (auto simp: run_stream_fold Let_def split: if_splits)
  have "prefix (js_written (fold (stream_item_line E) (map HostLine as) new_stream)) (js_written ?s)" if "hs = as @ bs" for as bs
    using fold_lines [of "fold (stream_item_line E) (map HostLine as) new_stream" E "items bs rep"] that
    by (simp add: items_def)
  then show ?thesis
    using fold_lines [of new_stream E "items hs rep"] s by (auto simp: new_stream_def)
qed

lemma stream_all_lines: "run_stream E new_stream hs rep = (None, s) \<Longrightarrow> map Inr (js_written s) = map (cl_marshal E) (items hs rep)"
  using fold_lines [of new_stream E "items hs rep"] by (auto simp: run_stream_fold Let_def new_stream_def split: if_splits)

section \<open>Running the failed hosts again from the stream\<close>

definition file_text :: "string list \<Rightarrow> string" where
  "file_text ls = concat (map (\<lambda>l. l @ [newline]) ls)"

lemma add_lines_hosts:
  "pv_Hosts (add_lines prev ls) = pv_Hosts prev @ filter (\<lambda>h. ph_Host h \<noteq> '''') (map ln_prevHost ls)"
  by (induction ls arbitrary: prev) (simp_all add: Let_def)

text \<open>The part of a host result that is read back.\<close>

definition saved_host :: "HostResult \<Rightarrow> prevHost" where
  "saved_host h = \<lparr>ph_Host = hr_Host h, ph_Status = status_string (hr_Status h)\<rparr>"

lemma map_result_lines:
  assumes "map Inr ls = map (cl_marshal E) (items hs rep)"
    and "\<And>h d. h \<in> set hs \<Longrightarrow> cl_marshal E (HostLine h) = Inr d \<Longrightarrow> re_line R d = Inr \<lparr>ln_prevHost = saved_host h, ln_Job = ''''\<rparr>"
    and "\<And>d. cl_marshal E (SummaryLine rep) = Inr d \<Longrightarrow>
           re_line R d = Inr \<lparr>ln_prevHost = \<lparr>ph_Host = '''', ph_Status = ''''\<rparr>, ln_Job = rep_Job rep\<rparr>"
  shows "map_result (re_line R) ls =
     Inr (map (\<lambda>h. \<lparr>ln_prevHost = saved_host h, ln_Job = ''''\<rparr>) hs @
          [\<lparr>ln_prevHost = \<lparr>ph_Host = '''', ph_Status = ''''\<rparr>, ln_Job = rep_Job rep\<rparr>])"
  using assms(1,2)
proof (induction hs arbitrary: ls)
  case Nil
  then show ?case
    using assms(3) by (cases ls) (auto simp: items_def)
next
  case (Cons h hs)
  then obtain d ls' where ls: "ls = d # ls'" "Inr d = cl_marshal E (HostLine h)" "map Inr ls' = map (cl_marshal E) (items hs rep)"
    by (cases ls) (auto simp: items_def)
  have "re_line R d = Inr \<lparr>ln_prevHost = saved_host h, ln_Job = ''''\<rparr>"
    by (rule Cons.prems(2)) (simp_all add: ls(2))
  then show ?case
    using Cons.IH [OF ls(3)] Cons.prems(2) ls(1) by simp
qed

text \<open>
  \<open>--only-failed\<close> with the stream of a run keeps exactly the selected hosts that finished with another status than
  success, provided the decoder reads the fields the encoder wrote.
\<close>

lemma stream_onlyFailed:
  assumes "run_stream E new_stream hs rep = (None, s)" and "map lower (path_ext path) = ''.jsonl''"
    and "re_read R path = Inr (file_text (js_written s))" and "re_scan R (file_text (js_written s)) = (js_written s, None)"
    and "\<And>h d. h \<in> set hs \<Longrightarrow> cl_marshal E (HostLine h) = Inr d \<Longrightarrow> re_line R d = Inr \<lparr>ln_prevHost = saved_host h, ln_Job = ''''\<rparr>"
    and "\<And>d. cl_marshal E (SummaryLine rep) = Inr d \<Longrightarrow>
           re_line R d = Inr \<lparr>ln_prevHost = \<lparr>ph_Host = '''', ph_Status = ''''\<rparr>, ln_Job = rep_Job rep\<rparr>"
    and "distinct (map hr_Host hs)" and "'''' \<notin> set (map hr_Host hs)"
  shows "onlyFailed R path ts = Inr (filter (\<lambda>t. \<exists>h \<in> set hs. hr_Host h = ep_Name t \<and> hr_Status h \<noteq> StatusSuccess) ts)"
proof -
  have ls: "map Inr (js_written s) = map (cl_marshal E) (items hs rep)"
    using stream_all_lines [OF assms(1)] .
  define prev where "prev = add_lines \<lparr>pv_Job = '''', pv_Hosts = []\<rparr> (map (\<lambda>h. \<lparr>ln_prevHost = saved_host h, ln_Job = ''''\<rparr>) hs @
          [\<lparr>ln_prevHost = \<lparr>ph_Host = '''', ph_Status = ''''\<rparr>, ln_Job = rep_Job rep\<rparr>])"
  have "read_prev R path (file_text (js_written s)) = Inr prev"
    using map_result_lines [OF ls assms(5,6)] assms(2,4) by (simp add: read_prev_def prev_def)
  moreover have "filter (\<lambda>h. hr_Host h \<noteq> '''') hs = hs"
    using assms(8) by (force simp: filter_id_conv)
  then have "pv_Hosts prev = map (\<lambda>h. \<lparr>ph_Host = hr_Host h, ph_Status = status_string (hr_Status h)\<rparr>) hs"
    by (simp add: prev_def add_lines_hosts filter_map comp_def saved_host_def)
  ultimately show ?thesis
    using onlyFailed_hosts [OF assms(3) _ _ assms(7)] by blast
qed

section \<open>An example\<close>

definition finished_hosts :: "HostResult list" where
  "finished_hosts = [Report.example_host ''web2'' StatusFailed, Report.example_host ''web1'' StatusSuccess]"

definition finished_report :: Report where
  "finished_report = Report_finish ((newReport loaded_job 0)\<lparr>rep_Hosts := rev finished_hosts\<rparr>) Second"

definition finished_lines :: "string list" where
  "finished_lines = [''web2,FAILED'', ''web1,SUCCESS'', '',ntp'']"

lemma finished_encoded: "map encode_item (items finished_hosts finished_report) = finished_lines"
  by code_simp

lemma example_stream: "\<exists>s. run_stream example_cli new_stream finished_hosts finished_report = (None, s)"
  by (simp add: run_stream_fold Let_def items_def finished_hosts_def new_stream_def stream_item_line_def stream_line_def example_cli_def)

lemma example_marshal: "map (cl_marshal example_cli) is = map Inr (map encode_item is)"
  by (simp add: example_cli_def)

theorem stream_complete_witness: "\<exists>s. run_stream example_cli new_stream finished_hosts finished_report = (None, s) \<and> js_written s = finished_lines"
proof -
  obtain s where s: "run_stream example_cli new_stream finished_hosts finished_report = (None, s)"
    using example_stream by blast
  then have "(map Inr (js_written s) :: (string + string) list) = map Inr (map encode_item (items finished_hosts finished_report))"
    using stream_complete [OF s] by (auto simp only: example_marshal)
  then show ?thesis
    using s finished_encoded by (metis inj_Inr inj_map_eq_map)
qed

end
