(* ===== verification/Run_Reports.thy ===== *)
theory Run_Reports
  imports Stream_Props Scheduler
begin

text \<open>
  A whole run and the files it leaves: the scheduler of \<open>runner.go\<close>, whose goroutines call \<open>runHost\<close>, together with
  the \<open>.jsonl\<close> stream of \<open>reports.go\<close> that \<open>OnHostDone\<close> feeds, and the next run that reads it back.
\<close>

text \<open>What \<open>runHost\<close> may return for a plan, in any state the network and the clock are in by then.\<close>

definition host_outcome :: "'k Runner \<Rightarrow> ('k, 'w) transport \<Rightarrow> nat \<Rightarrow> HostResult \<Rightarrow> bool" where
  "host_outcome R T i h \<longleftrightarrow> (\<exists>st st'. runHost R T (rn_Plans R ! i) st = Some (h, st'))"

abbreviation run_reaches :: "'k Runner \<Rightarrow> ('k, 'w) transport \<Rightarrow> sched \<Rightarrow> bool" where
  "run_reaches R T \<equiv> reachable (run_init R) (run_step R (host_outcome R T))"

definition plan_name :: "'k Plan \<Rightarrow> string" where
  "plan_name p = ep_Name (pl_Target p)"

lemma runHost_name:
  assumes "runHost R T p st = Some (h, st')"
  shows "hr_Host h = plan_name p"
  using assms
proof (cases rule: runHost_cases)
  case (unreachable e n d)
  then show ?thesis
    by (simp add: skip_steps_fields fail_host_def new_host_def plan_name_def)
next
  case (connected c n st1 pw st2 h' client st3 d)
  have "hr_Host h' = plan_name p"
    by (rule run_actions_invariant [OF connected(3)]) (simp_all add: new_host_def plan_name_def add_step_def)
  then show ?thesis
    using connected(5) by simp
qed

lemma not_started_name: "not_started R s j h \<Longrightarrow> hr_Host h = plan_name (rn_Plans R ! j)"
  by (auto simp: not_started_def cancelled_host_def skipped_host_def notStarted_def new_host_def plan_name_def
      skip_steps_fields Let_def)

lemma report_names:
  assumes "run_reaches R T s" and "sc_report s = Some rep"
  shows "map hr_Host (rep_Hosts rep) = map plan_name (rn_Plans R)"
proof (rule nth_equalityI)
  show n: "length (map hr_Host (rep_Hosts rep)) = length (map plan_name (rn_Plans R))"
    using run_inv [OF assms(1)] report_over [OF assms] by (simp add: inv_order_def)
  fix j assume "j < length (map hr_Host (rep_Hosts rep))"
  then show "map hr_Host (rep_Hosts rep) ! j = map plan_name (rn_Plans R) ! j"
    using report_results [OF assms, of j] n not_started_name by (auto simp: host_outcome_def runHost_name)
qed

text \<open>The results in the order the hosts finished are those of the report.\<close>

lemma report_finished:
  assumes "reachable (run_init R) (run_step R outcome) s" and "sc_report s = Some rep"
  shows "mset (map snd (sc_calls s)) = mset (rep_Hosts rep)"
proof -
  have "distinct (sc_calls s)" "distinct (enumerate 0 (rep_Hosts rep))"
    using report_calls(1) [OF assms] by (auto simp: distinct_map intro: inj_onI)
  then have "mset (sc_calls s) = mset (enumerate 0 (rep_Hosts rep))"
    using report_calls(2) [OF assms] by (simp add: set_eq_iff_mset_eq_distinct)
  then have "image_mset snd (mset (sc_calls s)) = image_mset snd (mset (enumerate 0 (rep_Hosts rep)))"
    by (rule arg_cong)
  then show ?thesis
    by (simp only: mset_map [symmetric] map_snd_enumerate)
qed

text \<open>
  C29: The stream of a run is the report: if closing the stream gave no error, the file holds one line for every host
  of the job, whatever the interleaving, with the result the final report has for it, and the summary as its last line.
\<close>

theorem Run_stream_report:
  assumes "run_reaches R T s" and "sc_report s = Some rep"
    and "run_stream E new_stream (map snd (sc_calls s)) rep = (None, st)"
  shows "\<exists>ls l. js_written st = ls @ [l] \<and> cl_marshal E (SummaryLine rep) = Inr l \<and> length ls = length (rn_Plans R) \<and>
           mset (map Inr ls) = mset (map (\<lambda>h. cl_marshal E (HostLine h)) (rep_Hosts rep))"
proof -
  let ?hs = "map snd (sc_calls s)"
  have all: "map Inr (js_written st) = map (\<lambda>h. cl_marshal E (HostLine h)) ?hs @ [cl_marshal E (SummaryLine rep)]"
    using stream_all_lines [OF assms(3)] by (simp add: items_def comp_def)
  obtain ls l where w: "js_written st = ls @ [l]" "map Inr ls = map (\<lambda>h. cl_marshal E (HostLine h)) ?hs" "Inr l = cl_marshal E (SummaryLine rep)"
    using all by (auto simp: map_eq_append_conv)
  have "mset (map Inr ls) = image_mset (\<lambda>h. cl_marshal E (HostLine h)) (mset ?hs)"
    by (simp only: w(2) mset_map)
  then have m: "mset (map Inr ls) = mset (map (\<lambda>h. cl_marshal E (HostLine h)) (rep_Hosts rep))"
    using report_finished [OF assms(1,2)] by (simp only: mset_map)
  have "length ls = length (rn_Plans R)"
    using arg_cong [OF m, of size] arg_cong [OF report_names [OF assms(1,2)], of length] by simp
  then show ?thesis
    using w(1,3) m by (intro exI conjI) (assumption | rule sym)+
qed

text \<open>
  C12: A fleet is finished by a second run: after a run of \<open>runHost\<close> on every plan, in any interleaving, whose report was
  written to a \<open>.jsonl\<close> file without an error, \<open>--only-failed\<close> with that file keeps, of any selection of hosts, exactly
  those whose result in the final report is not a success (failed, cancelled or never started), in their order. The
  decoder has to read the fields the encoder wrote, and host names are distinct and not empty, as in every inventory.
\<close>

theorem Run_reruns_failed:
  assumes run: "run_reaches R T s" "sc_report s = Some rep"
    and stream: "run_stream E new_stream (map snd (sc_calls s)) rep = (None, st)" "map lower (path_ext path) = ''.jsonl''"
    and readable: "re_read V path = Inr (file_text (js_written st))" "re_scan V (file_text (js_written st)) = (js_written st, None)"
    and host_line: "\<And>h d. h \<in> set (rep_Hosts rep) \<Longrightarrow> cl_marshal E (HostLine h) = Inr d \<Longrightarrow>
          re_line V d = Inr \<lparr>ln_prevHost = saved_host h, ln_Job = ''''\<rparr>"
    and last_line: "\<And>d. cl_marshal E (SummaryLine rep) = Inr d \<Longrightarrow>
          re_line V d = Inr \<lparr>ln_prevHost = \<lparr>ph_Host = '''', ph_Status = ''''\<rparr>, ln_Job = rep_Job rep\<rparr>"
    and names: "distinct (map plan_name (rn_Plans R))" "'''' \<notin> set (map plan_name (rn_Plans R))"
  shows "onlyFailed V path ts =
     Inr (filter (\<lambda>t. \<exists>i < length (rn_Plans R). plan_name (rn_Plans R ! i) = ep_Name t \<and> hr_Status (rep_Hosts rep ! i) \<noteq> StatusSuccess) ts)"
proof -
  let ?hs = "map snd (sc_calls s)"
  note m = report_finished [OF run] and n = report_names [OF run]
  have same: "set ?hs = set (rep_Hosts rep)"
    using m by (rule mset_eq_setD)
  have "mset (map hr_Host ?hs) = mset (map plan_name (rn_Plans R))"
    using arg_cong [OF m, of "image_mset hr_Host"] n by (simp only: mset_map [symmetric])
  then have d: "distinct (map hr_Host ?hs)" and e: "'''' \<notin> set (map hr_Host ?hs)"
    using names mset_eq_imp_distinct_iff mset_eq_setD by blast+
  have "onlyFailed V path ts = Inr (filter (\<lambda>t. \<exists>h \<in> set ?hs. hr_Host h = ep_Name t \<and> hr_Status h \<noteq> StatusSuccess) ts)"
    using stream_onlyFailed [OF stream readable _ last_line d e] host_line same by blast
  moreover have "(\<exists>h \<in> set (rep_Hosts rep). hr_Host h = x \<and> hr_Status h \<noteq> StatusSuccess) \<longleftrightarrow>
      (\<exists>i < length (rn_Plans R). plan_name (rn_Plans R ! i) = x \<and> hr_Status (rep_Hosts rep ! i) \<noteq> StatusSuccess)" for x
    using n by (metis in_set_conv_nth length_map nth_map)
  ultimately show ?thesis
    by (simp only: same)
qed

section \<open>An example\<close>

text \<open>The run of the host of \<^term>\<open>example_world\<close>, which refuses the first connections.\<close>

lemma example_run:
  obtains s rep where "run_reaches example_runner example_world s" "sc_report s = Some rep"
proof -
  have "run_reaches example_runner example_world fresh_run"
    by (rule reach_init) (simp add: run_init_def fresh_run_def example_runner_def)
  moreover have "\<exists>h. host_outcome example_runner example_world i h" if "i < length (rn_Plans example_runner)" for i
  proof -
    have "rn_Plans example_runner ! i = example_plan"
      using that by (simp add: example_runner_def)
    then show ?thesis
      using example_runHost by (simp add: host_outcome_def) blast
  qed
  ultimately show thesis
    using run_completes that by metis
qed

lemma example_stream_ok: "fst (run_stream example_cli new_stream hs rep) = None"
proof -
  have "js_err (fold (stream_item_line example_cli) is s) = js_err s" for "is" s
    by (induction "is" arbitrary: s) (simp_all add: stream_item_line_def stream_line_def example_cli_def Let_def)
  then show ?thesis
    by (simp add: run_stream_fold new_stream_def Let_def example_cli_def)
qed

lemma example_names: "map plan_name (rn_Plans example_runner) = [''web1'']"
  by (simp add: example_runner_def example_plan_def example_target_def plan_name_def)

theorem Run_stream_report_witness:
  "\<exists>rep st ls l. run_reaches example_runner example_world st \<and> sc_report st = Some rep \<and>
     js_written (snd (run_stream example_cli new_stream (map snd (sc_calls st)) rep)) = ls @ [l] \<and> length ls = 1"
proof -
  obtain s rep where s: "run_reaches example_runner example_world s" "sc_report s = Some rep"
    by (rule example_run)
  moreover have "run_stream example_cli new_stream (map snd (sc_calls s)) rep =
      (None, snd (run_stream example_cli new_stream (map snd (sc_calls s)) rep))"
    by (metis example_stream_ok prod.collapse)
  ultimately show ?thesis
    using Run_stream_report [OF s] by (fastforce simp: example_runner_def)
qed

lemma scan_file: "\<forall>l \<in> set ls. newline \<notin> set l \<Longrightarrow> scan_lines '''' (file_text ls) = ls"
proof (induction ls)
  case (Cons l ls)
  have "scan_lines acc (l @ newline # t) = (rev acc @ l) # scan_lines '''' t" if "newline \<notin> set l" for acc t
    using that by (induction l arbitrary: acc) auto
  from this [of "[]" "file_text ls"] show ?case
    using Cons by (simp add: file_text_def)
qed (simp add: file_text_def)

lemma example_decode:
  "hr_Host h = ''web1'' \<Longrightarrow> decode_item (encode_item (HostLine h)) = Inr \<lparr>ln_prevHost = saved_host h, ln_Job = ''''\<rparr>"
  "decode_item (encode_item (SummaryLine rep)) = Inr \<lparr>ln_prevHost = \<lparr>ph_Host = '''', ph_Status = ''''\<rparr>, ln_Job = rep_Job rep\<rparr>"
  by (simp_all add: decode_item_def encode_item_def saved_host_def strings_cut_def)

lemma example_no_newline:
  "hr_Host h = ''web1'' \<Longrightarrow> newline \<notin> set (encode_item (HostLine h))"
  "rep_Job rep = ''ntp'' \<Longrightarrow> newline \<notin> set (encode_item (SummaryLine rep))"
  by (cases "hr_Status h") (simp_all add: encode_item_def newline_def byte_def)

theorem Run_reruns_failed_witness:
  "\<exists>s rep V again. run_reaches example_runner example_world s \<and> sc_report s = Some rep \<and>
     onlyFailed V ''out.jsonl'' [example_target] = Inr again \<and>
     (again = []) = (hr_Status (rep_Hosts rep ! 0) = StatusSuccess)"
proof -
  obtain s rep where s: "run_reaches example_runner example_world s" "sc_report s = Some rep"
    by (rule example_run)
  define hs where "hs = map snd (sc_calls s)"
  define st where "st = snd (run_stream example_cli new_stream hs rep)"
  have stream: "run_stream example_cli new_stream hs rep = (None, st)"
    unfolding st_def by (metis example_stream_ok prod.collapse)
  have web1: "hr_Host h = ''web1''" if "h \<in> set (rep_Hosts rep)" for h
    using report_names [OF s] example_names that by (metis empty_iff empty_set image_eqI list.set_map set_ConsD)
  have fin: "set hs = set (rep_Hosts rep)"
    unfolding hs_def by (rule mset_eq_setD [OF report_finished [OF s]])
  have job: "rep_Job rep = ''ntp''"
    using run_inv [OF s(1)] s(2) by (auto simp: inv_report_def Report_finish_def newReport_def example_runner_def example_job_def)
  have "(map Inr (js_written st) :: (string + string) list) = map Inr (map encode_item (items hs rep))"
    using stream_all_lines [OF stream] by (simp only: example_marshal)
  then have w: "js_written st = map encode_item (items hs rep)"
    by (metis inj_Inr inj_map_eq_map)
  then have "\<forall>l \<in> set (js_written st). newline \<notin> set l"
    using example_no_newline web1 fin job by (auto simp: items_def)
  note scan = scan_file [OF this]
  define V where "V = example_reports\<lparr>re_read := (\<lambda>p. Inr (file_text (js_written st)))\<rparr>"
  have ext: "map lower (path_ext ''out.jsonl'') = ''.jsonl''"
    by code_simp
  have "onlyFailed V ''out.jsonl'' [example_target] =
      Inr (filter (\<lambda>t. \<exists>i < length (rn_Plans example_runner). plan_name (rn_Plans example_runner ! i) = ep_Name t \<and>
        hr_Status (rep_Hosts rep ! i) \<noteq> StatusSuccess) [example_target])"
    by (rule Run_reruns_failed [OF s stream [unfolded hs_def] ext])
      (auto simp: V_def example_reports_def example_cli_def scan web1 example_decode example_names)
  then show ?thesis
    using s by (intro exI [of _ s] exI [of _ rep] exI [of _ V]) (auto simp: example_runner_def example_plan_def plan_name_def)
qed

end
