(* ===== verification/Dial_Run.thy ===== *)
theory Dial_Run
  imports Dial Cli_Props
begin

text \<open>
  How a run dials: the dialer and the host key settings that \<open>Prepare\<close> of \<open>runner.go\<close> makes from the options, \<open>Runner.dial\<close>,
  which hands a plan to \<open>Dialer.Dial\<close>, and what a command line therefore promises about every connection.
\<close>

definition new_host_keys :: "string option \<Rightarrow> Options \<Rightarrow> HostKeys" where
  "new_host_keys home opts =
     \<lparr>hk_Path = ExpandHome home (o_KnownHosts opts), hk_Insecure = o_Insecure opts, hk_AcceptNew = o_AcceptNewHosts opts,
      hk_modTime = 0, hk_cb = None\<rparr>"

definition new_dialer :: "Options \<Rightarrow> Dialer" where
  "new_dialer opts = \<lparr>dl_ConnectTimeout = o_ConnectTimeout opts, dl_HandshakeTimeout = o_HandshakeTimeout opts, dl_pooled = True\<rparr>"

definition hop_of :: "'a Endpoint_scheme \<Rightarrow> 'k Auth \<Rightarrow> 'k Hop" where
  "hop_of ep a = \<lparr>hop_Addr = Addr ep, hop_User = ep_Username ep, hop_Methods = auth_Methods a\<rparr>"

text \<open>\<open>Runner.dial\<close>; \<open>None\<close> is the panic of reading the methods of credentials that were not resolved (a nil pointer).\<close>

definition runner_dial :: "('k, 'w) dial_env \<Rightarrow> 'k Runner \<Rightarrow> 'k Plan \<Rightarrow> 'w nstate \<Rightarrow> ((Failure + Client) \<times> 'w nstate) option" where
  "runner_dial E R p st =
     (case pl_auth p of
        None \<Rightarrow> None
      | Some a \<Rightarrow>
          (let target = hop_of (pl_Target p) a in
           case tg_Bastion (pl_Target p) of
             None \<Rightarrow> Some (Dial E (new_dialer (rn_opts R)) target None st)
           | Some b \<Rightarrow>
               (case pl_bastion p of
                  None \<Rightarrow> None
                | Some ba \<Rightarrow> Some (Dial E (new_dialer (rn_opts R)) target (Some (hop_of b ba)) st))))"

section \<open>Every plan has its credentials\<close>

lemma prepared_auths:
  assumes "Prepare ef C inp opts = Inr R" and "creds_by_name (inp_Targets inp)" and "\<not> o_SkipCredentials opts" and "p \<in> set (rn_Plans R)"
  shows "(\<exists>a. pl_auth p = Some a \<and> Resolve_auth C (ep_Credential (pl_Target p)) = Inr a) \<and>
     (\<forall>b. tg_Bastion (pl_Target p) = Some b \<longrightarrow> (\<exists>a. pl_bastion p = Some a \<and> Resolve_auth C (ep_Credential b) = Inr a))"
proof -
  note iff = Prepare_Inr_iff [OF assms(2), of ef C opts]
  obtain t where t: "t \<in> set (inp_Targets inp)" and p: "p = redact_display (rn_redact R) (the_plan inp opts C t)"
    using iff assms(1,4) by auto
  have "list_all (target_ready inp opts C) (inp_Targets inp)"
    using iff assms(1) by simp
  then have ready: "list_all (auth_ready opts C) (target_creds t)"
    using t by (simp add: list_all_iff target_ready_def)
  have auth: "\<exists>a. the_auth opts C c = Some a \<and> Resolve_auth C c = Inr a" if "auth_ready opts C c" for c
    using that assms(3) by (auto simp: auth_ready_def the_auth_def is_ok_iff)
  show ?thesis
    using ready auth by (auto simp: p redact_display_def the_plan_def target_creds_def)
qed

lemma runner_dial_returns:
  assumes "pl_auth p = Some a" and "\<And>b. tg_Bastion (pl_Target p) = Some b \<Longrightarrow> \<exists>ba. pl_bastion p = Some ba"
  obtains bastion where "runner_dial E R p st = Some (Dial E (new_dialer (rn_opts R)) (hop_of (pl_Target p) a) bastion st)"
  using assms by (cases "tg_Bastion (pl_Target p)") (auto simp: runner_dial_def)

section \<open>From the command line to the key of the host\<close>

text \<open>The settings of the host keys stay those of \<open>Prepare\<close>, whatever the run does to the file and its cache.\<close>

definition keys_from :: "Options \<Rightarrow> ('k, 'w) dial_env \<Rightarrow> ('w \<Rightarrow> bool) \<Rightarrow> bool" where
  "keys_from opts E H \<longleftrightarrow>
     (\<forall>w. H w \<longrightarrow> hk_Insecure (fst (de_keys E w)) = hk_Insecure (new_host_keys None opts) \<and>
        hk_AcceptNew (fst (de_keys E w)) = hk_AcceptNew (new_host_keys None opts) \<and>
        fresh (de_lib E) (fst (de_keys E w)) (snd (de_keys E w)))"

lemma cli_ran_secure:
  assumes "oc_ran (cli_Main E args) = Some R" and "\<not> list_ex (switches_on ''insecure-skip-host-key-check'') args"
  shows "\<not> o_Insecure (rn_opts R)"
proof -
  obtain rest f j ts where args: "args = ''run'' # rest" and f: "parse_args (help_text E) newFlags rest = Parsed f []"
    and p: "prepare_run E f False j = Inr (ts, R)"
    by (rule cli_ran_cases [OF assms(1)])
  have "\<not> o_Insecure (f_o f)"
    using insecure_switch.parse_switch [OF f] assms(2) args by (auto simp: list_ex_iff newFlags_def)
  then show ?thesis
    using prepare_run_Inr [OF p] by simp
qed


section \<open>An example\<close>

text \<open>The first host of the run of \<open>cli_ran\<close>, behind a bastion whose shared connection is number 100.\<close>

definition cli_plan :: "unit Plan" where
  "cli_plan = hd (rn_Plans cli_runner)"

definition cli_network :: "(unit, nat) dial_env" where
  "cli_network = (example_dial_env (new_host_keys None (rn_opts cli_runner))
     (write_file (Addr (pl_Target cli_plan) @ '' AAAA'') example_kh_world))\<lparr>de_pool_get := (\<lambda>k h w. (Inr 100, w))\<rparr>"

lemma cli_dial_evaluated:
  "(case runner_dial cli_network cli_runner cli_plan \<lparr>ns_world = 0, ns_trace = []\<rparr> of
     None \<Rightarrow> None | Some (r, st) \<Rightarrow> (case r of Inl _ \<Rightarrow> None | Inr c \<Rightarrow> Some (cl_Client c))) = Some 0"
  by code_simp

lemma cli_typed: "\<not> list_ex (switches_on ''insecure-skip-host-key-check'') (''run'' # cmd_args)"
  by (simp add: cmd_args_def cmd_settings_def setting_args_def switches_on_def)

lemma cli_settings: "rn_Plans cli_runner \<noteq> []" "\<not> o_AcceptNewHosts (rn_opts cli_runner)"
  by code_simp+

lemma cli_network_checked:
  "history cli_network (\<lambda>w. True)" "library_checks cli_network (\<lambda>w. True) (\<lambda>c key. key = example_pubkey)"
  "keys_from (rn_opts cli_runner) cli_network (\<lambda>w. True)"
proof -
  show "history cli_network (\<lambda>w. True)"
    by (simp add: history_def)
  show "library_checks cli_network (\<lambda>w. True) (\<lambda>c key. key = example_pubkey)"
    by (auto simp: library_checks_def cli_network_def example_dial_env_def split: prod.splits option.splits if_splits)
  show "keys_from (rn_opts cli_runner) cli_network (\<lambda>w. True)"
    by (simp add: keys_from_def cli_network_def example_dial_env_def new_host_keys_def fresh_def write_file_def example_kh_world_def)
qed


end
