(* ===== verification/Guarded.thy ===== *)
theory Guarded
  imports Host_Outcome
begin

text \<open>
  Which connections \<open>runHost\<close> uses: every command of a host is sent over a connection that a dial of its plan returned, and
  nothing else. The interface is a locale: a transport whose dials only return connections with a property, in all
  moments of the world that its own operations lead to.
\<close>

definition exec_on :: "(conn \<Rightarrow> bool) \<Rightarrow> event \<Rightarrow> bool" where
  "exec_on P e \<longleftrightarrow> (case e of EvExec c req res f \<Rightarrow> P c | _ \<Rightarrow> True)"

definition guards :: "('w \<Rightarrow> bool) \<Rightarrow> (conn \<Rightarrow> bool) \<Rightarrow> 'w rstate \<Rightarrow> bool" where
  "guards H P st \<longleftrightarrow> H (rs_world st) \<and> list_all (exec_on P) (rs_trace st)"

lemma exec_on_simps [simp]:
  "exec_on P (EvExec c req res f) = P c" "exec_on P (EvDial b)" "exec_on P (EvKeepAlive c on)" "exec_on P (EvClose c)" "exec_on P (EvSleep d)"
  by (simp_all add: exec_on_def)

lemma guards_emit [simp]: "guards H P (emit e w st) \<longleftrightarrow> H w \<and> list_all (exec_on P) (rs_trace st) \<and> exec_on P e"
  by (auto simp: guards_def emit_def)

text \<open>What the operations of a transport keep true of the world.\<close>

definition stays :: "('k, 'w) transport \<Rightarrow> ('w \<Rightarrow> bool) \<Rightarrow> bool" where
  "stays T H \<longleftrightarrow>
     (\<forall>w. H w \<longrightarrow> (\<forall>c req. H (snd (tp_session T c req w))) \<and> (\<forall>c. H (snd (tp_alive T c w))) \<and> (\<forall>c. H (tp_close T c w)) \<and>
        (\<forall>d. H (snd (tp_wait T d w))) \<and> (\<forall>n. H (snd (tp_rand T n w))))"

locale guarded_transport =
  fixes T :: "('k, 'w) transport" and p :: "'k Plan" and H :: "'w \<Rightarrow> bool" and P :: "conn \<Rightarrow> bool"
  assumes dials: "H w \<Longrightarrow> tp_dial T p dl w = (r, w') \<Longrightarrow> H w' \<and> (\<forall>c. r = Inr c \<longrightarrow> P c)"
    and stays: "stays T H"
begin

lemma world:
  assumes "H w"
  shows "H (snd (tp_session T c req w))" "H (snd (tp_alive T c w))" "H (tp_close T c w)" "H (snd (tp_wait T d w))" "H (snd (tp_rand T n w))"
  using stays assms unfolding stays_def by simp_all

lemma dial: "guards H P st \<Longrightarrow> do_dial T p dl st = (r, st') \<Longrightarrow> guards H P st' \<and> (\<forall>c. r = Inr c \<longrightarrow> P c)"
  using dials [of "rs_world st" dl] by (auto simp: do_dial_def guards_def emit_def split: prod.splits)

lemma exec: "guards H P st \<Longrightarrow> P c \<Longrightarrow> do_exec T c req st = (r, st') \<Longrightarrow> guards H P st'"
  using world(1) [of "rs_world st" c req] by (auto simp: do_exec_def guards_def emit_def Let_def split: prod.splits)

lemma close: "guards H P st \<Longrightarrow> guards H P (do_close T c st)"
  using world(3) by (simp add: do_close_def guards_def emit_def)

lemma keepalive: "guards H P (do_keepalive c on st) = guards H P st"
  by (auto simp: do_keepalive_def guards_def emit_def)

lemma alive: "guards H P st \<Longrightarrow> do_alive T c st = (b, st') \<Longrightarrow> guards H P st'"
  using world(2) [of "rs_world st" c] by (auto simp: do_alive_def guards_def split: prod.splits)

lemma sleeps: "guards H P st \<Longrightarrow> sleep T d st = (b, st') \<Longrightarrow> guards H P st'"
  using world(4) [of "rs_world st" d] by (auto simp: sleep_def guards_def emit_def Let_def split: prod.splits if_splits)

lemma attempts:
  assumes "guards H P st" and "P c" and "attempt R T c p a pw st = (r, st')"
  shows "guards H P st'"
proof -
  have run: "guards H P t'" if "guards H P t" "attempt_run R T c p a pw tmp t = (x, t')" for t t' tmp x
    using that exec [OF that(1) assms(2)] by (auto simp: attempt_run_def split: prod.splits option.splits)
  show ?thesis
    using assms(1,3) run exec [OF assms(1,2)]
    by (auto simp: attempt_def Let_def split: option.splits prod.splits if_splits) (metis run)+
qed

lemma step_loops:
  "guards H P st \<Longrightarrow> P c \<Longrightarrow> step_loop R T c p a pw n i sr f st = (r, st') \<Longrightarrow> guards H P st'"
proof (induction n arbitrary: i sr f st)
  case (Suc n)
  obtain b st1 where s: "(if 0 < i then sleep T (act_RetryDelay a) st else (False, st)) = (b, st1)"
    by fastforce
  have g1: "guards H P st1"
    using s Suc.prems(1) sleeps by (auto split: if_splits)
  obtain res f1 st2 where a: "attempt R T c p a pw st1 = ((res, f1), st2)"
    by (metis prod.collapse)
  have "guards H P st2"
    using attempts [OF g1 Suc.prems(2) a] .
  then show ?case
    using Suc.IH [of st2] Suc.prems(2,3) g1 by (auto simp: step_loop.simps s a Let_def split: if_splits)
qed simp

lemma steps: "guards H P st \<Longrightarrow> P c \<Longrightarrow> runStep R T c p a pw st = (r, st') \<Longrightarrow> guards H P st'"
  using step_loops by (auto simp: runStep_def Let_def split: prod.splits)

lemma boot_ids: "guards H P st \<Longrightarrow> P c \<Longrightarrow> bootID T c st = (r, st') \<Longrightarrow> guards H P st'"
  using exec by (fastforce simp: bootID_def Let_def split: prod.splits option.splits if_splits)

lemma wait_iters:
  assumes "guards H P st" and "wait_iter T p timeout oldBoot deadline lst saw st = (r, st')"
  shows "guards H P st' \<and> (\<forall>c. r = Inl (Inr c) \<longrightarrow> P c)"
proof -
  obtain b st1 where s: "sleep T reconnectDelay st = (b, st1)"
    by fastforce
  note g1 = sleeps [OF assms(1) s]
  obtain d st2 where d: "do_dial T p (Some deadline) st1 = (d, st2)"
    by fastforce
  note g2 = dial [OF g1 d]
  note eq = assms(2) [unfolded wait_iter_def s d Let_def prod.case]
  show ?thesis
  proof (cases d)
    case (Inl e)
    then show ?thesis
      using eq g1 g2 by (auto split: if_splits)
  next
    case (Inr c)
    obtain i st3 where i: "bootID T c st2 = (i, st3)"
      by fastforce
    have "guards H P st3"
      using boot_ids [OF _ _ i] g2 Inr by blast
    then show ?thesis
      using eq g1 g2 Inr i close by (auto split: if_splits sum.splits)
  qed
qed

lemma wait_loops:
  assumes "wait_loop T p timeout oldBoot deadline lst saw st = Some (r, st')" and "guards H P st"
  shows "guards H P st' \<and> (\<forall>c. r = Inr c \<longrightarrow> P c)"
proof -
  have "guards H P u' \<and> (\<forall>c. x = Inr c \<longrightarrow> P c)"
    if "wait_loop S q timeout oldBoot deadline lst saw u = Some (x, u')" "S = T" "q = p" "guards H P u"
    for S q timeout oldBoot deadline lst saw u x u'
    using that
  proof (induction S q timeout oldBoot deadline lst saw u "(x, u')" rule: wait_loop.raw_induct [rotated, consumes 1])
    case (1 wl S q timeout oldBoot deadline lst saw u)
    obtain y u1 where i: "wait_iter T p timeout oldBoot deadline lst saw u = (y, u1)"
      by fastforce
    note g = wait_iters [OF 1(5) i]
    show ?case
    proof (cases y)
      case (Inl z)
      then show ?thesis
        using 1(2-4) i g by auto
    next
      case (Inr z)
      then show ?thesis
        using 1 i g by (cases z) auto
    qed
  qed
  then show ?thesis
    using assms by blast
qed

lemma reconnects:
  assumes "guards H P st" and "reconnect R T c p a oldBoot sr st = Some ((sr', f, client), st')"
  shows "guards H P st' \<and> (\<forall>c. client = Some c \<longrightarrow> P c)"
  using assms(2) close [OF assms(1), of c] wait_loops
  by (fastforce simp: reconnect_def waitForHost_def Let_def split: option.splits sum.splits)

lemma disconnecting:
  assumes "guards H P st" and "P c" and "runDisconnecting R T c p a pw st = Some ((sr, f, client), st')"
  shows "guards H P st' \<and> (\<forall>c. client = Some c \<longrightarrow> P c)"
proof -
  obtain b st1 where b: "(if act_Reboot a then bootID T c st else (Inr '''', st)) = (b, st1)"
    by fastforce
  have g1: "guards H P st1"
    using b boot_ids assms(1,2) by (auto split: if_splits)
  obtain sr1 f1 st3 where s: "runStep R T c p a pw (do_keepalive c True st1) = ((sr1, f1), st3)"
    by (metis prod.collapse)
  have g3: "guards H P (do_keepalive c False st3)"
    using steps [OF _ assms(2) s] g1 by (simp add: keepalive)
  obtain al st5 where l: "do_alive T c (do_keepalive c False st3) = (al, st5)"
    by fastforce
  note g5 = alive [OF g3 l]
  note eq = assms(3) [unfolded runDisconnecting_def b s l Let_def prod.case]
  show ?thesis
  proof (cases b)
    case (Inl g)
    then show ?thesis
      using eq g1 assms(2) by auto
  next
    case b: (Inr oldBoot)
    show ?thesis
    proof (cases f1)
      case (Some g)
      then show ?thesis
        using eq b g3 assms(2) reconnects [OF g3] by (cases "lost_connection sr1 g") auto
    next
      case None
      then show ?thesis
        using eq b g5 assms(2) reconnects [OF g3] reconnects [OF g5] by (cases "act_Reboot a"; cases al) auto
    qed
  qed
qed

lemma actions:
  assumes "guards H P st" and "P c" and "run_action R T c p a pw st = Some ((sr, f, client), st')"
  shows "guards H P st' \<and> (\<forall>c. client = Some c \<longrightarrow> P c)"
proof (cases "act_Disconnect a")
  case True
  then have "runDisconnecting R T c p a pw st = Some ((sr, f, client), st')"
    using assms(3) by (simp add: run_action_def)
  then show ?thesis
    by (rule disconnecting [OF assms(1,2)])
next
  case False
  obtain sr1 f1 st1 where s: "runStep R T c p a pw st = ((sr1, f1), st1)"
    by (metis prod.collapse)
  have "snd (runForget R T c p a pw st) = st1"
    by (cases f1) (simp_all add: runForget_def s)
  then have "st' = st1 \<and> client = Some c"
    using assms(3) by (auto simp: run_action_def False s split_beta split: if_splits)
  then show ?thesis
    using steps [OF assms(1,2) s] assms(2) by simp
qed

lemma all_actions:
  "guards H P st \<Longrightarrow> P c \<Longrightarrow> run_actions R T p pw as c h st = Some ((h', client), st') \<Longrightarrow> guards H P st'"
proof (induction as arbitrary: c h st)
  case (Cons a as)
  from Cons.prems(3) show ?case
  proof (cases rule: run_actions_cases)
    case (stop sr f)
    then show ?thesis
      using actions [OF Cons.prems(1,2)] by blast
  next
    case (go_on sr f c1 st1)
    then show ?thesis
      using actions [OF Cons.prems(1,2) go_on(1)] Cons.IH by blast
  qed
qed simp

lemma connects:
  "guards H P st \<Longrightarrow> connect_loop R T p n st = Some ((r, m), st') \<Longrightarrow> guards H P st' \<and> (\<forall>c. r = Inr c \<longrightarrow> P c)"
proof (induction "nat (o_ConnectRetries (rn_opts R) + 1 - int n)" arbitrary: n st rule: less_induct)
  case less
  obtain d st1 where d: "do_dial T p None st = (d, st1)"
    by fastforce
  note g1 = dial [OF less.prems(1) d]
  note eq = less.prems(2) [unfolded connect_loop.simps [of R T p n st] d Let_def prod.case]
  show ?case
  proof (cases "\<exists>e. d = Inl e \<and> \<not> (\<not> Retryable (Category (AsFailure e)) \<or> int n > o_ConnectRetries (rn_opts R) \<or> ctx_err T st1)")
    case False
    then show ?thesis
      using eq g1 by (cases d) auto
  next
    case True
    then obtain e where e: "d = Inl e" "Retryable (Category (AsFailure e))" "int n \<le> o_ConnectRetries (rn_opts R)" "\<not> ctx_err T st1"
      by auto
    obtain y w where b: "backoff (tp_rand T) (o_RetryDelay (rn_opts R)) (o_MaxRetryDelay (rn_opts R)) n (rs_world st1) = Some (y, w)"
      using eq e by (auto split: option.splits)
    have "H w"
      using b g1 world(5) [of "rs_world st1"] by (auto simp: backoff_def guards_def Let_def split_beta split: if_splits)
    then have g2: "guards H P (st1\<lparr>rs_world := w\<rparr>)"
      using g1 by (simp add: guards_def)
    obtain cc st2 where s: "sleep T y (st1\<lparr>rs_world := w\<rparr>) = (cc, st2)"
      by fastforce
    show ?thesis
      using eq e b s sleeps [OF g2 s] less.hyps [of "n + 1" st2] by (auto split: if_splits)
  qed
qed

lemma sudo_probe: "guards H P st \<Longrightarrow> P c \<Longrightarrow> needsSudoPassword T c p st = (pw, st') \<Longrightarrow> guards H P st'"
  using exec by (fastforce simp: needsSudoPassword_def Let_def split: prod.splits if_splits)

lemma hosts:
  assumes "guards H P st" and "runHost R T p st = Some (h, st')"
  shows "guards H P st'"
  using assms(2)
proof (cases rule: runHost_cases)
  case (unreachable e n d)
  then show ?thesis
    using connects [OF assms(1)] by (auto simp: connect_def)
next
  case (connected c n st1 pw st2 h' client st3 d)
  have c: "guards H P st1" "P c"
    using connects [OF assms(1)] connected(1) by (auto simp: connect_def)
  have "guards H P st3"
    using all_actions [OF sudo_probe [OF c connected(2)] c(2) connected(3)] .
  then show ?thesis
    using connected(4) close by (auto simp: close_client_def split: option.splits)
qed

end

text \<open>On every transport: the commands of a host only go over connections that dials of its plan return.\<close>

interpretation dialed: guarded_transport T p "\<lambda>w. True" "\<lambda>c. \<exists>dl w. fst (tp_dial T p dl w) = Inr c"
  for T :: "('k, 'w) transport" and p
  by unfold_locales (auto simp: stays_def, metis fst_conv)

lemma runHost_own_connections:
  assumes "runHost R T p st = Some (h, st')" and "rs_trace st = []" and "EvExec c req res f \<in> set (rs_trace st')"
  shows "\<exists>dl w. fst (tp_dial T p dl w) = Inr c"
  using dialed.hosts [OF _ assms(1)] assms(2,3) by (auto simp: guards_def list_all_iff dest!: bspec)

end
