(* ===== verification/Verified_Run.thy ===== *)
theory Verified_Run
  imports Dial_Run Guarded
begin

text \<open>
  The parts of a run put together: \<open>runHost\<close> on the connections that \<open>Runner.dial\<close> makes, in a run started from the command
  line. \<open>Guarded\<close> says that a host's commands are sent over dialed connections only, \<open>Dial\<close> who is at their other end.
\<close>

text \<open>
  The transport of a run: its dials are those of \<open>Runner.dial\<close>, with the deadline of the caller's context; sessions, the clock
  and waiting are those of \<open>T\<close>. The panic of \<open>Runner.dial\<close>, which \<open>cli_connections_verified\<close> excludes, is an error here.
\<close>

definition run_transport :: "(int option \<Rightarrow> ('k, 'w) dial_env) \<Rightarrow> 'k Runner \<Rightarrow> ('k, 'w) transport \<Rightarrow> ('k, 'w) transport" where
  "run_transport D R T = T\<lparr>tp_dial := (\<lambda>p dl w.
     case runner_dial (D dl) R p \<lparr>ns_world = w, ns_trace = []\<rparr> of
       None \<Rightarrow> (Inl (EMsg ''nil pointer dereference''), w)
     | Some (Inl f, st) \<Rightarrow> (Inl (EFailure f), ns_world st)
     | Some (Inr c, st) \<Rightarrow> (Inr (cl_Client c), ns_world st))\<rparr>"

lemma runner_dial_Some:
  assumes "runner_dial E R p st = Some (r, st')"
  obtains a bastion where "Dial E (new_dialer (rn_opts R)) (hop_of (pl_Target p) a) bastion st = (r, st')"
  using assms by (auto simp: runner_dial_def Let_def split: option.splits)

text \<open>A run on a network whose handshakes are checked.\<close>

locale verified_network =
  fixes D :: "int option \<Rightarrow> ('k, 'w) dial_env" and R :: "'k Runner" and T :: "('k, 'w) transport" and p :: "'k Plan"
    and H :: "'w \<Rightarrow> bool" and proves :: "nat \<Rightarrow> pubkey \<Rightarrow> bool"
  assumes network_checked: "checked (D dl) H proves (o_AcceptNewHosts (rn_opts R))"
    and transport_stays: "stays T H"

sublocale verified_network \<subseteq> guarded_transport "run_transport D R T" p H
  "\<lambda>c. \<exists>dl. verified (D dl) H proves (o_AcceptNewHosts (rn_opts R)) c (Addr (pl_Target p))"
proof
  show "stays (run_transport D R T) H"
    using transport_stays by (simp add: stays_def run_transport_def)
next
  fix w dl r w'
  assume w: "H w" and d: "tp_dial (run_transport D R T) p dl w = (r, w')"
  show "H w' \<and> (\<forall>c. r = Inr c \<longrightarrow> (\<exists>dl. verified (D dl) H proves (o_AcceptNewHosts (rn_opts R)) c (Addr (pl_Target p))))"
  proof (cases "runner_dial (D dl) R p \<lparr>ns_world = w, ns_trace = []\<rparr>")
    case None
    then show ?thesis
      using d w by (auto simp: run_transport_def)
  next
    case (Some x)
    obtain y st where x: "x = (y, st)"
      by fastforce
    obtain a bastion where dial: "Dial (D dl) (new_dialer (rn_opts R)) (hop_of (pl_Target p) a) bastion \<lparr>ns_world = w, ns_trace = []\<rparr> = (y, st)"
      by (rule runner_dial_Some [OF Some [unfolded x]])
    have w0: "H (ns_world \<lparr>ns_world = w, ns_trace = []\<rparr>)"
      using w by simp
    have m: "H (ns_world st)"
      using Dial_moment [OF network_checked w0 dial] .
    show ?thesis
    proof (cases y)
      case (Inl f)
      then show ?thesis
        using d m Some x by (auto simp: run_transport_def)
    next
      case (Inr c)
      have "verified (D dl) H proves (o_AcceptNewHosts (rn_opts R)) (cl_Client c) (Addr (pl_Target p))"
        using Dial_verified [OF network_checked w0 dial [unfolded Inr]] by (simp add: hop_of_def)
      then show ?thesis
        using d m Some x Inr by (auto simp: run_transport_def)
    qed
  qed
qed

context verified_network
begin

lemma verified_commands:
  assumes "H (rs_world st)" and "rs_trace st = []" and "runHost R (run_transport D R T) p st = Some (h, st')"
    and "EvExec c req res f \<in> set (rs_trace st')"
  shows "\<exists>dl. verified (D dl) H proves (o_AcceptNewHosts (rn_opts R)) c (Addr (pl_Target p))"
proof -
  have "guards H (\<lambda>c. \<exists>dl. verified (D dl) H proves (o_AcceptNewHosts (rn_opts R)) c (Addr (pl_Target p))) st'"
    by (rule hosts [OF _ assms(3)]) (simp add: guards_def assms(1,2))
  then have "exec_on (\<lambda>c. \<exists>dl. verified (D dl) H proves (o_AcceptNewHosts (rn_opts R)) c (Addr (pl_Target p))) (EvExec c req res f)"
    using assms(4) by (simp only: guards_def list_all_iff)
  then show ?thesis
    by (simp only: exec_on_simps)
qed

end


section \<open>An example\<close>

text \<open>The sessions of \<^term>\<open>example_world\<close>, with the network of \<^term>\<open>cli_network\<close>; the world is the clock.\<close>

definition cli_sessions :: "(unit, nat) transport" where
  "cli_sessions =
     \<lparr>tp_dial = (\<lambda>p dl w. (Inl (EMsg ''''), w)), tp_session = (\<lambda>c req w. (example_session_of req (int w), w + 1)),
      tp_alive = (\<lambda>c w. (Reply, w)), tp_close = (\<lambda>c w. w + 1), tp_wait = (\<lambda>d w. (False, w + nat d)),
      tp_now = int, tp_cancelled = (\<lambda>w. False), tp_rand = (\<lambda>n w. (0, w)), tp_rematch = (\<lambda>re s. True)\<rparr>"

interpretation cli_net: verified_network "\<lambda>dl. cli_network" cli_runner cli_sessions p "\<lambda>w. True" "\<lambda>c key. key = example_pubkey"
  for p
proof
  show "checked cli_network (\<lambda>w. True) (\<lambda>c key. key = example_pubkey) (o_AcceptNewHosts (rn_opts cli_runner))"
    using cli_network_checked cli_ran_secure [OF cli_ran cli_typed]
    by (auto simp: checked_def strict_keys_def keys_from_def new_host_keys_def)
  show "stays cli_sessions (\<lambda>w. True)"
    by (simp add: stays_def)
qed

text \<open>The network never turns the clock back, so the run of the host returns.\<close>

lemma cli_network_later: "checked cli_network (\<lambda>x. n \<le> x) (\<lambda>c key. key = example_pubkey) (o_AcceptNewHosts (rn_opts cli_runner))"
proof -
  have "strict_keys cli_network (\<lambda>x. n \<le> x) (o_AcceptNewHosts (rn_opts cli_runner))"
    using cli_net.network_checked by (simp add: checked_def strict_keys_def)
  moreover have "history cli_network (\<lambda>x. n \<le> x)"
    by (simp add: history_def cli_network_def example_dial_env_def)
  moreover have "library_checks cli_network (\<lambda>x. n \<le> x) (\<lambda>c key. key = example_pubkey)"
    by (auto simp: library_checks_def cli_network_def example_dial_env_def split: prod.splits option.splits if_splits)
  ultimately show ?thesis
    by (simp add: checked_def)
qed

lemma cli_clock: "clock_runs (run_transport (\<lambda>dl. cli_network) cli_runner cli_sessions)"
proof -
  have "w \<le> snd (tp_dial (run_transport (\<lambda>dl. cli_network) cli_runner cli_sessions) p dl w)" for p dl w
  proof (cases "runner_dial cli_network cli_runner p \<lparr>ns_world = w, ns_trace = []\<rparr>")
    case (Some x)
    then obtain r st where x: "x = (r, st)" and d: "runner_dial cli_network cli_runner p \<lparr>ns_world = w, ns_trace = []\<rparr> = Some (r, st)"
      by (cases x) auto
    obtain a bastion where D: "Dial cli_network (new_dialer (rn_opts cli_runner)) (hop_of (pl_Target p) a) bastion \<lparr>ns_world = w, ns_trace = []\<rparr> = (r, st)"
      by (rule runner_dial_Some [OF d])
    have "w \<le> ns_world st"
      by (rule Dial_moment [OF cli_network_later [of w] _ D]) simp
    then show ?thesis
      by (simp add: run_transport_def d split: sum.splits)
  qed (simp add: run_transport_def)
  then show ?thesis
    by (auto simp: clock_runs_def run_transport_def cli_sessions_def)
qed

lemma cli_commands_sent:
  "list_ex (\<lambda>e. exec_event e \<noteq> None) (rs_trace (snd (the (runHost cli_runner (run_transport (\<lambda>dl. cli_network) cli_runner cli_sessions) cli_plan
     \<lparr>rs_world = 0, rs_trace = []\<rparr>))))"
  by code_simp


end
