(* ===== verification/Cli_Run.thy ===== *)
theory Cli_Run
  imports Run_Reports Verified_Run
begin

text \<open>
  The command line on top of the scheduler: \<open>run\<close> of \<open>cli.go\<close> calls \<open>Runner.Run\<close>, which is the step relation of \<open>Scheduler\<close>,
  whose goroutines call \<open>runHost\<close>. What an exit code says about the hosts.
\<close>

text \<open>What \<open>Runner.Run\<close> may return: the report, and the results in the order \<open>OnHostDone\<close> was called with them.\<close>

definition ran_by :: "'k Runner \<Rightarrow> ('k, 'w) transport \<Rightarrow> Report \<times> HostResult list \<Rightarrow> bool" where
  "ran_by R T out \<longleftrightarrow> (\<exists>s. run_reaches R T s \<and> sc_report s = Some (fst out) \<and> snd out = map snd (sc_calls s))"

lemma report_OK:
  assumes "reachable (run_init R) (run_step R outcome) s" and "sc_report s = Some rep"
  shows "Report_OK rep \<longleftrightarrow> (\<forall>h \<in> set (rep_Hosts rep). hr_Status h = StatusSuccess)"
proof -
  obtain t0 t1 where rep: "rep = Report_finish ((newReport (rn_job R) t0)\<lparr>rep_Hosts := map the (sc_hosts s)\<rparr>) t1"
    using run_inv [OF assms(1)] assms(2) by (auto simp: inv_report_def)
  show ?thesis
    unfolding rep using Report_finish_summary [of "(newReport (rn_job R) t0)\<lparr>rep_Hosts := map the (sc_hosts s)\<rparr>" t1]
    by (simp add: Let_def)
qed

lemma not_started_unsuccessful: "not_started R s j h \<Longrightarrow> hr_Status h \<noteq> StatusSuccess"
  by (auto simp: not_started_def cancelled_host_def skipped_host_def notStarted_def new_host_def skip_steps_fields Let_def)

text \<open>A plan whose host was run to the end, with every step of the job a success.\<close>

definition plan_done :: "'k Runner \<Rightarrow> ('k, 'w) transport \<Rightarrow> 'k Plan \<Rightarrow> HostResult \<Rightarrow> bool" where
  "plan_done R T p h \<longleftrightarrow>
     (\<exists>st st'. runHost R T p st = Some (h, st')) \<and> hr_Host h = plan_name p \<and> list_all2 step_of (pl_Actions p) (hr_Steps h) \<and>
     (\<forall>s \<in> set (hr_Steps h). sr_Status s = StatusSuccess)"

lemma successful_plan:
  assumes "run_reaches R T s" and "sc_report s = Some rep" and "j < length (rn_Plans R)" and "hr_Status (rep_Hosts rep ! j) = StatusSuccess"
  shows "plan_done R T (rn_Plans R ! j) (rep_Hosts rep ! j)"
proof -
  obtain st st' where r: "runHost R T (rn_Plans R ! j) st = Some (rep_Hosts rep ! j, st')"
    using report_results [OF assms(1-3)] assms(4) by (auto simp: host_outcome_def dest: not_started_unsuccessful)
  then show ?thesis
    using runHost_steps [OF r] runHost_success [OF r assms(4)] runHost_name [OF r] by (auto simp: plan_done_def)
qed

text \<open>A run that nothing interrupts and in which every host is a success is a success for every host.\<close>

lemma report_all_success:
  assumes run: "reachable (run_init R) (run_step R outcome) s" "sc_report s = Some rep" "\<not> sc_cancelled s"
    and good: "\<And>i h. outcome i h \<Longrightarrow> hr_Status h = StatusSuccess"
  shows "Report_OK rep"
proof -
  have n: "length (rep_Hosts rep) = length (rn_Plans R)"
    using run_inv [OF run(1)] report_over [OF run(1,2)] by (simp add: inv_order_def)
  have "failure_of h = 0" if h: "h \<in> set (rep_Hosts rep)" for h
  proof -
    obtain j where "j < length (rn_Plans R)" "h = rep_Hosts rep ! j"
      using h n by (auto simp: in_set_conv_nth)
    then show ?thesis
      using report_results [OF run(1,2), of j] good not_started_status [of R s j h] by (auto simp: failure_of_def split: if_splits)
  qed
  then have "sc_failed s = 0"
    using run_inv [OF run(1)] report_over [OF run(1,2)]
    by (simp add: inv_counts_def total_def comp_def sum_list_eq_0_iff)
  then have "\<not> not_started R s j h" for j h
    using run(3) by (simp add: not_started_def over_limit_def)
  then have "hr_Status h = StatusSuccess" if "h \<in> set (rep_Hosts rep)" for h
    using that report_results [OF run(1,2)] good n by (metis in_set_conv_nth)
  then show ?thesis
    using report_OK [OF run(1,2)] by blast
qed

lemma exit_ok_Main: "exit_ok E (cli_Main E args)"
  by (auto simp: cli_Main_def cli_run_exit split: list.splits)

text \<open>
  C5: Exit code 0 after a run is the truth: when \<open>rco run --execute\<close> returns 0, every one of the selected hosts (at least one)
  was run, in the order of the inventory's names, and every action of the job has a result on it which is a success;
  nothing was skipped, cancelled or left out. When it returns 2, some host is not successful in the report.
\<close>

theorem cli_exit_truth:
  assumes "oc_ran (cli_Main E args) = Some R" and "ran_by R T (cl_run E R)"
  shows "(oc_exit (cli_Main E args) = ExitOK \<longrightarrow>
       rn_Plans R \<noteq> [] \<and> list_all2 (plan_done R T) (rn_Plans R) (rep_Hosts (fst (cl_run E R)))) \<and>
     (oc_exit (cli_Main E args) = ExitHostsFailed \<longrightarrow>
       (\<exists>h \<in> set (rep_Hosts (fst (cl_run E R))). hr_Status h \<noteq> StatusSuccess))"
proof -
  let ?rep = "fst (cl_run E R)"
  obtain s where s: "run_reaches R T s" "sc_report s = Some ?rep"
    using assms(2) by (auto simp: ran_by_def)
  have n: "length (rep_Hosts ?rep) = length (rn_Plans R)"
    using arg_cong [OF report_names [OF s], of length] by simp
  have plans: "rn_Plans R \<noteq> []"
  proof -
    obtain f j ts where "prepare_run E f False j = Inr (ts, R)"
      by (rule cli_ran_cases [OF assms(1)])
    then have "run_targets E f = Inr ts" "map pl_Target (rn_Plans R) = ts"
      using prepare_run_Inr by blast+
    then show ?thesis
      using run_targets_Inr by fastforce
  qed
  have codes: "ExitOK \<noteq> ExitHostsFailed" "ExitError \<noteq> ExitHostsFailed" "ExitOK \<noteq> ExitError"
    by (simp_all add: ExitOK_def ExitError_def ExitHostsFailed_def)
  have ok: "oc_exit (cli_Main E args) = ExitOK \<Longrightarrow> Report_OK ?rep" "oc_exit (cli_Main E args) = ExitHostsFailed \<Longrightarrow> \<not> Report_OK ?rep"
    using exit_ok_Main [of E args] assms(1) by (simp_all add: exit_ok_def)
  have "list_all2 (plan_done R T) (rn_Plans R) (rep_Hosts ?rep)" if "Report_OK ?rep"
    using that report_OK [OF s] n successful_plan [OF s] by (simp add: list_all2_conv_all_nth)
  then show ?thesis
    using ok plans report_OK [OF s] by blast
qed

section \<open>An example\<close>

text \<open>Both hosts of the run of \<^term>\<open>cli_runner\<close> in a world where every dial succeeds.\<close>

definition easy_world :: "(unit, nat) transport" where
  "easy_world = cli_sessions\<lparr>tp_dial := (\<lambda>p dl w. (Inr 0, w + 1))\<rparr>"

definition easy_run :: "nat \<Rightarrow> (HostResult \<times> nat rstate) option" where
  "easy_run i = runHost cli_runner easy_world (rn_Plans cli_runner ! i) \<lparr>rs_world = 0, rs_trace = []\<rparr>"

lemma easy_success: "length (rn_Plans cli_runner) = 2" "map (\<lambda>i. map_option (hr_Status \<circ> fst) (easy_run i)) [0, 1] = [Some StatusSuccess, Some StatusSuccess]"
  by code_simp+

lemma easy_names: "map plan_name (rn_Plans cli_runner) = [''web1'', ''web2'']"
  by code_simp

definition easy_outcome :: "nat \<Rightarrow> HostResult \<Rightarrow> bool" where
  "easy_outcome i h \<longleftrightarrow> i < 2 \<and> map_option fst (easy_run i) = Some h"

lemma easy_outcome:
  "i < 2 \<Longrightarrow> \<exists>h. easy_outcome i h" "easy_outcome i h \<Longrightarrow> hr_Status h = StatusSuccess"
  "easy_outcome i h \<Longrightarrow> host_outcome cli_runner easy_world i h"
  using easy_success(2) by (auto simp: easy_outcome_def less_2_cases_iff host_outcome_def easy_run_def)

definition two_waiting :: sched where
  "two_waiting = \<lparr>sc_stages = [Waiting, Waiting], sc_next = 0, sc_sem = 0, sc_hosts = [None, None], sc_failed = 0, sc_done = 0,
     sc_running = 0, sc_calls = [], sc_cancelled = False, sc_report = None\<rparr>"

text \<open>The run exists: it can reach its end with every host a success.\<close>

lemma easy_completes:
  obtains s rep where "run_reaches cli_runner easy_world s" "sc_report s = Some rep" "Report_OK rep"
proof -
  have "reachable (run_init cli_runner) (run_step cli_runner easy_outcome) two_waiting"
    using easy_success(1) by (intro reach_init) (simp add: run_init_def two_waiting_def map_replicate_const numeral_2_eq_2)
  then obtain t rep where t: "reachable (run_init cli_runner) (run_step cli_runner easy_outcome) t" "sc_report t = Some rep"
      "sc_cancelled t = sc_cancelled two_waiting"
    using easy_outcome(1) easy_success(1) by (auto elim: run_completes)
  then have "Report_OK rep"
    using easy_outcome(2) by (intro report_all_success [OF t(1,2)]) (auto simp: two_waiting_def)
  then show thesis
    using that run_reach_mono [OF t(1)] t(2) easy_outcome(3) by blast
qed

text \<open>The command line of \<open>cli_ran\<close>, with whatever \<open>Runner.Run\<close> returns.\<close>

lemma cli_returns:
  fixes E :: "unit cli_env" and run :: "unit Runner \<Rightarrow> Report \<times> HostResult list"
  defines "E \<equiv> example_cli\<lparr>cl_run := run\<rparr>"
  shows "oc_ran (cli_Main E (''run'' # cmd_args)) = Some cli_runner"
    and "Report_OK (fst (run cli_runner)) \<Longrightarrow> oc_exit (cli_Main E (''run'' # cmd_args)) = ExitOK"
proof -
  have "Load (cl_job E) (f_job cmd_flags) = Inr loaded_job"
    using example_load by (simp add: E_def example_cli_def cmd_flags_def newFlags_def)
  moreover have sel: "cl_inv E = cl_inv example_cli" "cl_reports E = cl_reports example_cli" "cl_job E = cl_job example_cli"
      "cl_env_first E = cl_env_first example_cli" "cl_creds E = cl_creds example_cli"
    by (simp_all add: E_def)
  have "prepare_run E f v j = prepare_run example_cli f v j" for f v j
    unfolding prepare_run_def run_targets_def sel ..
  then have "prepare_run E cmd_flags False loaded_job = Inr (web_targets, cli_runner)"
    using cli_prepare_run by simp
  moreover have "parse_args (help_text E) newFlags cmd_args = Parsed cmd_flags []"
    using cmd_parse by (simp add: E_def help_text_def version_def)
  moreover have "f_execute cmd_flags" "f_report cmd_flags = ''''" "f_output cmd_flags = ''table''"
    by (simp_all add: cmd_flags_def newFlags_def)
  ultimately show "oc_ran (cli_Main E (''run'' # cmd_args)) = Some cli_runner"
    and "Report_OK (fst (run cli_runner)) \<Longrightarrow> oc_exit (cli_Main E (''run'' # cmd_args)) = ExitOK"
    using cli_evaluated(5)
    by (simp_all add: cli_Main_def cli_run_def execute_def E_def example_cli_def openStream_def is_jsonl_def path_ext_def
        printReport_def split_beta Let_def)
qed

theorem cli_exit_truth_witness:
  "\<exists>(E :: unit cli_env) hs. oc_exit (cli_Main E (''run'' # cmd_args)) = ExitOK \<and> rn_Plans cli_runner \<noteq> [] \<and>
     list_all2 (plan_done cli_runner easy_world) (rn_Plans cli_runner) hs \<and> map hr_Host hs = [''web1'', ''web2'']"
proof -
  obtain s rep where s: "run_reaches cli_runner easy_world s" "sc_report s = Some rep" "Report_OK rep"
    by (rule easy_completes)
  define E where "E = example_cli\<lparr>cl_run := (\<lambda>R. (rep, map snd (sc_calls s)))\<rparr>"
  note ran = cli_returns [of "\<lambda>R. (rep, map snd (sc_calls s))", folded E_def, simplified]
  have "ran_by cli_runner easy_world (cl_run E cli_runner)"
    using s by (auto simp: ran_by_def E_def)
  then have "rn_Plans cli_runner \<noteq> [] \<and> list_all2 (plan_done cli_runner easy_world) (rn_Plans cli_runner) (rep_Hosts rep)"
    using cli_exit_truth [OF ran(1), of easy_world] ran(2) [OF s(3)] by (simp add: E_def)
  moreover have "map hr_Host (rep_Hosts rep) = [''web1'', ''web2'']"
    using report_names [OF s(1,2)] easy_names by simp
  ultimately show ?thesis
    using ran(2) [OF s(3)] by (intro exI [of _ E] exI [of _ "rep_Hosts rep"]) simp
qed

end
