(* ===== verification/Test_Server.thy ===== *)
theory Test_Server
  imports Host_Keys Go_Duration Exec "HOL-Library.Word"
begin

text \<open>
  \<open>internal/sshtest/server.go\<close>: the SSH server the tests of the program connect to. Its accept loop, authentication,
  channels, port forwarding, sessions with their magic commands, the run of a command, and the stand-in for \<open>sudo\<close> it
  puts on the command path. The SSH library, the network, the shell and the random source are parameters. The counter of
  concurrent commands, which sessions share, is in \<open>Server_Peak\<close>; here \<open>run\<close> has its effect on a quiet server.
\<close>

definition RefusedAddr :: string where
  "RefusedAddr = ''127.0.0.1:1''"

record server_options =
  so_User :: string
  so_Password :: string
  so_AuthorizedKey :: "pubkey option"
  so_SudoPassword :: string
  so_AllowForward :: bool
  so_RejectExec :: bool
  so_HangExec :: bool

text \<open>The server; \<open>sv_boot_id\<close> is the content of the file \<open>Dir/boot_id\<close>, whose writes and reads succeed.\<close>

record server =
  sv_Addr :: string
  sv_Dir :: string
  sv_HostKey :: pubkey
  sv_ECDSAKey :: pubkey
  sv_opts :: server_options
  sv_binDir :: string
  sv_Conns :: nat
  sv_Sessions :: nat
  sv_commands :: "string list"
  sv_running :: int
  sv_downUntil :: int
  sv_peak :: int
  sv_boot_id :: string

section \<open>Starting and accepting\<close>

definition default_user :: "server_options \<Rightarrow> server_options" where
  "default_user opts = (if so_User opts = '''' then opts\<lparr>so_User := ''deploy''\<rparr> else opts)"

definition hex_bytes :: "nat list \<Rightarrow> string" where
  "hex_bytes bs = concat (map (\<lambda>b. [hex_char (b div 16), hex_char (b mod 16)]) bs)"

definition newBootID :: "nat list \<Rightarrow> server \<Rightarrow> server" where
  "newBootID rnd s = s\<lparr>sv_boot_id := hex_bytes rnd @ [newline]\<rparr>"

definition BootID :: "server \<Rightarrow> string" where
  "BootID s = sv_boot_id s"

text \<open>What the calls of \<open>Start\<close> return: an error of any of them ends the test.\<close>

record start_env =
  se_signer :: "string + pubkey"
  se_listen :: "string + string"
  se_ecSigner :: "string + pubkey"
  se_Dir :: string
  se_binDir :: string
  se_write_sudo :: "string option"
  se_random :: "nat list"

definition Start :: "start_env \<Rightarrow> server_options \<Rightarrow> string + server" where
  "Start E opts =
     bind_result (se_signer E) (\<lambda>signer.
     bind_result (se_listen E) (\<lambda>addr.
     bind_result (se_ecSigner E) (\<lambda>ecSigner.
     case se_write_sudo E of
       Some e \<Rightarrow> Inl e
     | None \<Rightarrow> Inr (newBootID (se_random E)
         \<lparr>sv_Addr = addr, sv_Dir = se_Dir E, sv_HostKey = signer, sv_ECDSAKey = ecSigner, sv_opts = default_user opts,
          sv_binDir = se_binDir E, sv_Conns = 0, sv_Sessions = 0, sv_commands = [], sv_running = 0, sv_downUntil = 0,
          sv_peak = 0, sv_boot_id = ''''\<rparr>))))"

text \<open>The callbacks of the \<open>ServerConfig\<close>, which exist only where the options ask for them.\<close>

definition PasswordCallback :: "server_options \<Rightarrow> (string \<Rightarrow> string \<Rightarrow> string + unit) option" where
  "PasswordCallback opts =
     (if so_Password opts \<noteq> '''' then
        Some (\<lambda>user pw. if user = so_User opts \<and> pw = so_Password opts then Inr () else Inl ''denied'')
      else None)"

definition PublicKeyCallback :: "(pubkey \<Rightarrow> string) \<Rightarrow> server_options \<Rightarrow> (string \<Rightarrow> pubkey \<Rightarrow> string + unit) option" where
  "PublicKeyCallback marshal opts =
     map_option (\<lambda>key user k. if user = so_User opts \<and> marshal k = marshal key then Inr () else Inl ''denied'')
       (so_AuthorizedKey opts)"

text \<open>The accept loop serves a connection, or closes it at once while the server is down.\<close>

definition accepts :: "int \<Rightarrow> server \<Rightarrow> bool" where
  "accepts now s \<longleftrightarrow> \<not> now < sv_downUntil s"

definition Commands :: "server \<Rightarrow> string list" where
  "Commands s = sv_commands s"

definition PeakConcurrent :: "server \<Rightarrow> int" where
  "PeakConcurrent s = sv_peak s"

text \<open>\<open>ssh.MarshalAuthorizedKey\<close> is a parameter.\<close>

definition KnownHostsLineFor :: "(pubkey \<Rightarrow> string) \<Rightarrow> server \<Rightarrow> pubkey \<Rightarrow> string" where
  "KnownHostsLineFor authorized s k = ''[127.0.0.1]:'' @ snd (SplitHostPort (sv_Addr s)) @ '' '' @ authorized k"

definition KnownHostsLine :: "(pubkey \<Rightarrow> string) \<Rightarrow> server \<Rightarrow> string" where
  "KnownHostsLine authorized s = KnownHostsLineFor authorized s (sv_HostKey s)"

definition WriteKnownHosts :: "(pubkey \<Rightarrow> string) \<Rightarrow> server list \<Rightarrow> string" where
  "WriteKnownHosts authorized servers = fold (\<lambda>s data. data @ KnownHostsLine authorized s) servers ''''"

section \<open>Connections and channels\<close>

datatype reject_reason = Prohibited | ConnectionFailed | UnknownChannelType

record new_channel =
  nc_Type :: string
  nc_ExtraData :: string
  nc_Accept :: bool

text \<open>A forwarded connection: refused, or dialed and then closed or copied in both directions.\<close>

datatype forward_end = FwRejected reject_reason string | FwClosed nat | FwCopying nat

record forward_env =
  fe_unmarshal :: "string \<Rightarrow> (string \<times> 32 word) option"
  fe_dial :: "string \<Rightarrow> string + nat"

definition forward :: "forward_env \<Rightarrow> server_options \<Rightarrow> new_channel \<Rightarrow> forward_end" where
  "forward E opts nc =
     (case (if so_AllowForward opts then fe_unmarshal E (nc_ExtraData nc) else None) of
        None \<Rightarrow> FwRejected Prohibited ''forwarding disabled''
      | Some (host, port) \<Rightarrow>
          (case fe_dial E (JoinHostPort host (itoa (uint port))) of
             Inl e \<Rightarrow> FwRejected ConnectionFailed e
           | Inr target \<Rightarrow> if nc_Accept nc then FwCopying target else FwClosed target))"

datatype channel_end = SessionStarted | SessionLost | Forwarded forward_end | Rejected reject_reason string

definition serve_channel :: "forward_env \<Rightarrow> server \<Rightarrow> new_channel \<Rightarrow> channel_end \<times> server" where
  "serve_channel E s nc =
     (if nc_Type nc = ''session'' then
        (if nc_Accept nc then (SessionStarted, s\<lparr>sv_Sessions := sv_Sessions s + 1\<rparr>) else (SessionLost, s))
      else if nc_Type nc = ''direct-tcpip'' then (Forwarded (forward E (sv_opts s) nc), s)
      else (Rejected UnknownChannelType ''unsupported'', s))"

fun serve_channels :: "forward_env \<Rightarrow> server \<Rightarrow> new_channel list \<Rightarrow> channel_end list \<times> server" where
  "serve_channels E s [] = ([], s)"
| "serve_channels E s (nc # ncs) =
     (let (e, s1) = serve_channel E s nc; (es, s2) = serve_channels E s1 ncs in (e # es, s2))"

text \<open>\<open>serve\<close>, given whether the handshake of \<open>ssh.NewServerConn\<close> succeeds and the channels the client opens.\<close>

definition serve :: "forward_env \<Rightarrow> bool \<Rightarrow> new_channel list \<Rightarrow> server \<Rightarrow> channel_end list \<times> server" where
  "serve E handshake_ok ncs s =
     (if handshake_ok then serve_channels E (s\<lparr>sv_Conns := sv_Conns s + 1\<rparr>) ncs else ([], s))"

text \<open>A global request (a keepalive): the reply, if there is one.\<close>

definition global_reply :: "bool \<Rightarrow> bool \<Rightarrow> bool option" where
  "global_reply frozen wantReply = (if wantReply \<and> \<not> frozen then Some False else None)"

section \<open>Sessions\<close>

record request =
  req_Type :: string
  req_Payload :: string

text \<open>What \<open>cmd.Run\<close> returns: no error, an \<open>ExitError\<close> with its exit code (negative after a signal), or another error.\<close>

datatype run_error = ExitErr int | OtherErr

record sh_command =
  sh_Args :: "string list"
  sh_Dir :: string
  sh_Env :: "string list"

text \<open>
  Parameters of a session: the command in the payload of a request after \<open>ssh.Unmarshal\<close>, the clock, the random source,
  and the shell, whose run also depends on the requests that follow (they kill the command).
\<close>

record session_env =
  sn_Command :: "string \<Rightarrow> string"
  sn_now :: int
  sn_random :: "nat list"
  sn_shell :: "sh_command \<Rightarrow> request list \<Rightarrow> run_error option"

definition sh_call :: "server \<Rightarrow> string \<Rightarrow> sh_command" where
  "sh_call s command =
     \<lparr>sh_Args = [''/bin/sh'', ''-c'', command], sh_Dir = sv_Dir s,
      sh_Env = [''PATH='' @ sv_binDir s @ '':/usr/bin:/bin:/usr/sbin:/sbin'', ''HOME='' @ sv_Dir s,
                ''SUDO_TEST_PASSWORD='' @ so_SudoPassword (sv_opts s)]\<rparr>"

definition run_code :: "run_error option \<Rightarrow> int" where
  "run_code err =
     (case err of
        Some (ExitErr code) \<Rightarrow> if code \<ge> 0 then code else 137
      | Some OtherErr \<Rightarrow> 127
      | None \<Rightarrow> 0)"

text \<open>\<open>run\<close> on a server on which no other command starts or ends meanwhile.\<close>

definition server_run :: "session_env \<Rightarrow> server \<Rightarrow> request list \<Rightarrow> string \<Rightarrow> int \<times> server" where
  "server_run E s reqs command =
     (let n = sv_running s + 1 in
      (run_code (sn_shell E (sh_call s command) reqs), s\<lparr>sv_peak := (if n \<le> sv_peak s then sv_peak s else n)\<rparr>))"

definition cut_prefix :: "string \<Rightarrow> string \<Rightarrow> string option" where
  "cut_prefix s p = (if has_prefix s p then Some (drop (length p) s) else None)"

text \<open>
  How a session ends: the client's requests end, the connection goes silent, it is closed (mid-command, or to reboot), or
  the exit status is sent.
\<close>

datatype session_end = RequestsEnded | Frozen | Dropped | Rebooting | ExitStatus "32 word"

definition exec_command :: "session_env \<Rightarrow> server \<Rightarrow> request list \<Rightarrow> string \<Rightarrow> session_end \<times> server" where
  "exec_command E s0 reqs command =
     (let s = s0\<lparr>sv_commands := sv_commands s0 @ [command]\<rparr> in
      if command = ''rco-test-freeze'' then (Frozen, s)
      else if command = ''rco-test-drop'' then (Dropped, s)
      else case cut_prefix command ''rco-test-reboot '' of
        Some d \<Rightarrow>
          (let down = (case ParseDuration d of Inl _ \<Rightarrow> 0 | Inr x \<Rightarrow> x) in
           (Rebooting, (newBootID (sn_random E) s)\<lparr>sv_downUntil := signed_take_bit 63 (sn_now E + down)\<rparr>))
      | None \<Rightarrow> (let (code, s') = server_run E s reqs command in (ExitStatus (word_of_int code), s')))"

text \<open>The loop over the requests of a channel, with the answer to each request it takes; however it ends, the channel is closed.\<close>

fun server_session :: "session_env \<Rightarrow> server \<Rightarrow> request list \<Rightarrow> bool option list \<times> session_end \<times> server" where
  "server_session E s [] = ([], RequestsEnded, s)"
| "server_session E s (req # reqs) =
     (if req_Type req = ''exec'' \<and> so_HangExec (sv_opts s) then
        (let (rs, e) = server_session E s reqs in (None # rs, e))
      else if req_Type req \<noteq> ''exec'' \<or> so_RejectExec (sv_opts s) then
        (let (rs, e) = server_session E s reqs in (Some False # rs, e))
      else ([Some True], exec_command E s reqs (sn_Command E (req_Payload req))))"

section \<open>The stand-in for sudo\<close>

text \<open>
  The option loop of the script \<open>fakeSudo\<close>: the mode it ends with and the words left. POSIX leaves open what
  \<open>shift 2\<close> does with one word left (None).
\<close>

fun sudo_flags :: "string \<Rightarrow> string list \<Rightarrow> (string \<times> string list) option" where
  "sudo_flags mode [] = Some (mode, [])"
| "sudo_flags mode (w # ws) =
     (if w = ''-S'' then sudo_flags ''S'' ws
      else if w = ''-n'' then sudo_flags ''n'' ws
      else if w = ''-k'' then sudo_flags mode ws
      else if w = ''-p'' then (case ws of [] \<Rightarrow> None | _ # ws' \<Rightarrow> sudo_flags mode ws')
      else if w = ''--'' then Some (mode, ws)
      else Some (mode, w # ws))"

text \<open>\<open>IFS= read -r pw\<close>: the first line, without its newline, and what is left on the standard input.\<close>

definition read_line :: "string \<Rightarrow> string \<times> string" where
  "read_line input = (takeWhile (\<lambda>c. c \<noteq> newline) input, tl (dropWhile (\<lambda>c. c \<noteq> newline) input))"

text \<open>It runs a command with the rest of the input, or exits with 1 and a message.\<close>

datatype sudo_end = SudoExec "string list" string | SudoExit1 string

definition fakeSudo :: "string \<Rightarrow> string list \<Rightarrow> string \<Rightarrow> sudo_end option" where
  "fakeSudo password args input =
     (case sudo_flags '''' args of
        None \<Rightarrow> None
      | Some (mode, argv) \<Rightarrow>
          Some (if password = '''' then SudoExec argv input
                else if mode = ''S'' then
                  (case read_line input of (pw, rest) \<Rightarrow>
                     if pw \<noteq> password then SudoExit1 ''sudo: incorrect password attempt'' else SudoExec argv rest)
                else SudoExit1 ''sudo: a password is required''))"

section \<open>Properties\<close>

lemma hex_char_inj: "a < 16 \<Longrightarrow> b < 16 \<Longrightarrow> hex_char a = hex_char b \<longleftrightarrow> a = b"
proof -
  have "\<forall>a \<in> set [0..<16]. \<forall>b \<in> set [0..<16]. hex_char a = hex_char b \<longrightarrow> a = b"
    by code_simp
  then show "a < 16 \<Longrightarrow> b < 16 \<Longrightarrow> hex_char a = hex_char b \<longleftrightarrow> a = b"
    by auto
qed

lemma hex_byte_inj:
  assumes "a < 256" and "b < 256" and "hex_char (a div 16) = hex_char (b div 16)" and "hex_char (a mod 16) = hex_char (b mod 16)"
  shows "a = b"
proof -
  have "a div 16 = b div 16" "a mod 16 = b mod 16"
    using assms by (simp_all add: hex_char_inj)
  then show ?thesis
    by (metis mult_div_mod_eq)
qed

definition random_id :: "nat list \<Rightarrow> bool" where
  "random_id bs \<longleftrightarrow> length bs = 8 \<and> list_all (\<lambda>b. b < 256) bs"

lemma hex_bytes_inj:
  "list_all (\<lambda>b. b < 256) xs \<Longrightarrow> list_all (\<lambda>b. b < 256) ys \<Longrightarrow> length xs = length ys \<Longrightarrow> hex_bytes xs = hex_bytes ys \<Longrightarrow> xs = ys"
proof (induction xs ys rule: list_induct2')
  case (4 x xs y ys)
  then show ?case
    using hex_byte_inj [of x y] by (simp add: hex_bytes_def)
qed simp_all

text \<open>A session in closed form: only the first \<open>exec\<close> request counts, and a server that hangs or refuses takes none.\<close>

lemma server_session_conv:
  "server_session E s reqs =
     (if so_HangExec (sv_opts s) \<or> so_RejectExec (sv_opts s) \<or> list_all (\<lambda>r. req_Type r \<noteq> ''exec'') reqs then
        (map (\<lambda>r. if req_Type r = ''exec'' \<and> so_HangExec (sv_opts s) then None else Some False) reqs, RequestsEnded, s)
      else
        (let pre = takeWhile (\<lambda>r. req_Type r \<noteq> ''exec'') reqs; rest = dropWhile (\<lambda>r. req_Type r \<noteq> ''exec'') reqs in
         (map (\<lambda>_. Some False) pre @ [Some True], exec_command E s (tl rest) (sn_Command E (req_Payload (hd rest))))))"
  by (induction reqs) (auto simp: Let_def)

text \<open>
  C33: A simulated reboot looks like one to the program: after \<open>rco-test-reboot D\<close>, with \<open>D\<close> any duration as Go prints it,
  the connection is gone, the server closes new connections for exactly \<open>D\<close> and serves them again from then on, and
  the boot ID is another one unless the random source repeats itself. The command is recorded.
\<close>

theorem reboot_window:
  assumes "req_Type req = ''exec''" and "\<not> so_HangExec (sv_opts s)" and "\<not> so_RejectExec (sv_opts s)"
    and "sn_Command E (req_Payload req) = ''rco-test-reboot '' @ Duration_String d"
    and "in_int64 d" and "in_int64 (sn_now E + d)"
    and "random_id old" and "random_id (sn_random E)" and "old \<noteq> sn_random E"
  shows "\<exists>s'. server_session E (newBootID old s) (req # reqs) = ([Some True], Rebooting, s') \<and>
           (\<forall>t. accepts t s' \<longleftrightarrow> sn_now E + d \<le> t) \<and> BootID s' \<noteq> BootID (newBootID old s) \<and>
           Commands s' = Commands s @ [''rco-test-reboot '' @ Duration_String d]"
proof -
  have "hex_bytes old \<noteq> hex_bytes (sn_random E)"
    using assms(7-9) hex_bytes_inj [of old "sn_random E"] by (auto simp: random_id_def)
  moreover have "signed_take_bit 63 (sn_now E + d) = sn_now E + d"
    using assms(6) by (intro signed_take_bit_int_eq_self) (simp_all add: in_int64_def)
  ultimately show ?thesis
    using assms(1-4) ParseDuration_String [OF assms(5)]
    by (auto simp: exec_command_def cut_prefix_def has_prefix_def newBootID_def BootID_def Commands_def accepts_def Let_def)
qed

definition example_server :: server where
  "example_server =
     \<lparr>sv_Addr = ''127.0.0.1:4022'', sv_Dir = ''/tmp/d'', sv_HostKey = \<lparr>pk_Type = ''ssh-ed25519'', pk_Data = ''k1''\<rparr>,
      sv_ECDSAKey = \<lparr>pk_Type = ''ecdsa-sha2-nistp256'', pk_Data = ''k2''\<rparr>,
      sv_opts = \<lparr>so_User = ''deploy'', so_Password = ''pw'', so_AuthorizedKey = None, so_SudoPassword = ''root1'',
        so_AllowForward = False, so_RejectExec = False, so_HangExec = False\<rparr>,
      sv_binDir = ''/tmp/b'', sv_Conns = 1, sv_Sessions = 1, sv_commands = [], sv_running = 0, sv_downUntil = 0,
      sv_peak = 0, sv_boot_id = ''''\<rparr>"

definition example_session_env :: session_env where
  "example_session_env =
     \<lparr>sn_Command = (\<lambda>d. d), sn_now = 1700000000000000000, sn_random = replicate 8 171, sn_shell = (\<lambda>c rs. None)\<rparr>"

theorem reboot_window_witness:
  "\<exists>s'. server_session example_session_env (newBootID (replicate 8 0) example_server)
          [\<lparr>req_Type = ''exec'', req_Payload = ''rco-test-reboot '' @ Duration_String (2 * Second)\<rparr>] = ([Some True], Rebooting, s') \<and>
        \<not> accepts 1700000001000000000 s' \<and> accepts 1700000002000000000 s' \<and>
        BootID s' \<noteq> BootID (newBootID (replicate 8 0) example_server)"
proof -
  have "in_int64 (2 * Second)" "in_int64 (sn_now example_session_env + 2 * Second)"
    "random_id (replicate 8 0)" "random_id (sn_random example_session_env)" "replicate 8 0 \<noteq> sn_random example_session_env"
    by (simp_all add: in_int64_def Second_def example_session_env_def random_id_def numeral_eq_Suc)
  from reboot_window [where req = "\<lparr>req_Type = ''exec'', req_Payload = ''rco-test-reboot '' @ Duration_String (2 * Second)\<rparr>"
      and s = example_server and reqs = "[]", OF _ _ _ _ this]
  obtain s' where "server_session example_session_env (newBootID (replicate 8 0) example_server)
        [\<lparr>req_Type = ''exec'', req_Payload = ''rco-test-reboot '' @ Duration_String (2 * Second)\<rparr>] = ([Some True], Rebooting, s')"
      "\<forall>t. accepts t s' \<longleftrightarrow> sn_now example_session_env + 2 * Second \<le> t"
      "BootID s' \<noteq> BootID (newBootID (replicate 8 0) example_server)"
    by (auto simp: example_server_def example_session_env_def)
  then show ?thesis
    by (intro exI [of _ s']) (simp add: example_session_env_def Second_def)
qed

text \<open>What a keepalive of the client gets from the server, before and after the connection was frozen.\<close>

definition probe_of :: "bool \<Rightarrow> probe" where
  "probe_of frozen = (case global_reply frozen True of Some _ \<Rightarrow> Reply | None \<Rightarrow> NoReply)"

lemma probe_of_simps [simp]: "probe_of False = Reply" "probe_of True = NoReply"
  by (simp_all add: probe_of_def global_reply_def)

lemma keepalive_silent: "f < m \<Longrightarrow> keepalive_loop m f (replicate n NoReply) = (if m \<le> f + n then Some (m - f) else None)"
proof (induction n arbitrary: f)
  case (Suc n)
  show ?case
    using Suc.IH [of "f + 1"] Suc.prems by (cases "m \<le> f + 1") auto
qed simp

text \<open>
  The keepalive and a silent link: on a connection that answers \<open>k\<close> probes and is then frozen by \<open>rco-test-freeze\<close> for
  \<open>n\<close> probes, the program closes the connection after exactly \<open>misses\<close> unanswered ones, and not when there were fewer.
  A refusal of the request by the server counts as an answer.
\<close>

theorem frozen_detected:
  assumes "0 < misses"
  shows "KeepAlive misses (map probe_of (replicate k False @ replicate n True)) = (if misses \<le> n then Some (k + misses) else None)"
proof -
  have "keepalive_loop misses 0 (replicate k Reply @ replicate n NoReply) = (if misses \<le> n then Some (k + misses) else None)"
    using assms by (induction k) (simp_all add: keepalive_silent)
  then show ?thesis
    by (simp add: KeepAlive_def)
qed

theorem frozen_detected_witness: "KeepAlive 3 (map probe_of [False, False, True, True, True, True]) = Some 5"
  using frozen_detected [of 3 2 4] by (simp add: numeral_eq_Suc)

end
