(* ===== verification/Server_Peak.thy ===== *)
theory Server_Peak
  imports Test_Server
begin

text \<open>
  The counter of concurrent commands of \<open>internal/sshtest/server.go\<close>: sessions run in goroutines of their own, and
  \<open>run\<close> counts the commands that run with \<open>running.Add\<close> and raises \<open>peak\<close> in a compare-and-swap loop. Each atomic
  operation is a step; any interleaving of the sessions is possible.
\<close>

text \<open>Where a session is in \<open>run\<close>: with the number \<open>n\<close> it got from \<open>Add\<close>, and the peak \<open>p\<close> it loaded.\<close>

datatype run_phase = Idle | Counted int | Looked int int | Executing | Left

text \<open>\<open>pk_most\<close> is not in the program: the largest number of sessions that were inside \<open>run\<close> at the same time.\<close>

record peak_state =
  pk_running :: int
  pk_peak :: int
  pk_phases :: "run_phase list"
  pk_most :: int

fun inside :: "run_phase \<Rightarrow> int" where
  "inside Idle = 0" | "inside (Counted n) = 1" | "inside (Looked n p) = 1" | "inside Executing = 1" | "inside Left = 0"

definition insiders :: "run_phase list \<Rightarrow> int" where
  "insiders gs = sum_list (map inside gs)"

definition at_phase :: "nat \<Rightarrow> run_phase \<Rightarrow> peak_state \<Rightarrow> peak_state" where
  "at_phase i g s = s\<lparr>pk_phases := (pk_phases s)[i := g]\<rparr>"

lemma at_phase_simps [simp]:
  "pk_running (at_phase i g s) = pk_running s" "pk_peak (at_phase i g s) = pk_peak s" "pk_most (at_phase i g s) = pk_most s"
  "pk_phases (at_phase i g s) = (pk_phases s)[i := g]"
  by (simp_all add: at_phase_def)

definition entered :: "nat \<Rightarrow> peak_state \<Rightarrow> peak_state" where
  "entered i s =
     (let n = pk_running s + 1; t = at_phase i (Counted n) s in
      t\<lparr>pk_running := n, pk_most := max (pk_most s) (insiders (pk_phases t))\<rparr>)"

inductive peak_step :: "peak_state \<Rightarrow> peak_state \<Rightarrow> bool" where
  enter: "i < length (pk_phases s) \<Longrightarrow> pk_phases s ! i = Idle \<Longrightarrow> peak_step s (entered i s)"
| look: "i < length (pk_phases s) \<Longrightarrow> pk_phases s ! i = Counted n \<Longrightarrow> peak_step s (at_phase i (Looked n (pk_peak s)) s)"
| enough: "i < length (pk_phases s) \<Longrightarrow> pk_phases s ! i = Looked n p \<Longrightarrow> n \<le> p \<Longrightarrow> peak_step s (at_phase i Executing s)"
| swap: "i < length (pk_phases s) \<Longrightarrow> pk_phases s ! i = Looked n p \<Longrightarrow> \<not> n \<le> p \<Longrightarrow> pk_peak s = p \<Longrightarrow>
    peak_step s (at_phase i Executing (s\<lparr>pk_peak := n\<rparr>))"
| again: "i < length (pk_phases s) \<Longrightarrow> pk_phases s ! i = Looked n p \<Longrightarrow> \<not> n \<le> p \<Longrightarrow> pk_peak s \<noteq> p \<Longrightarrow>
    peak_step s (at_phase i (Counted n) s)"
| leave: "i < length (pk_phases s) \<Longrightarrow> pk_phases s ! i = Executing \<Longrightarrow>
    peak_step s (at_phase i Left (s\<lparr>pk_running := pk_running s - 1\<rparr>))"

text \<open>Before the first command: any number of sessions that will run one.\<close>

definition peak_init :: "peak_state \<Rightarrow> bool" where
  "peak_init s \<longleftrightarrow> pk_running s = 0 \<and> pk_peak s = 0 \<and> pk_most s = 0 \<and> list_all (\<lambda>g. g = Idle) (pk_phases s)"

section \<open>The invariant\<close>

text \<open>The number a session still has to publish.\<close>

fun unpublished :: "run_phase \<Rightarrow> int option" where
  "unpublished (Counted n) = Some n"
| "unpublished (Looked n p) = Some n"
| "unpublished _ = None"

fun phase_ok :: "int \<Rightarrow> int \<Rightarrow> run_phase \<Rightarrow> bool" where
  "phase_ok peak most (Counted n) = (n \<le> most)"
| "phase_ok peak most (Looked n p) = (n \<le> most \<and> 0 \<le> p \<and> p \<le> peak)"
| "phase_ok peak most _ = True"

definition peak_inv :: "peak_state \<Rightarrow> bool" where
  "peak_inv s \<longleftrightarrow>
     pk_running s = insiders (pk_phases s) \<and> 0 \<le> pk_peak s \<and> pk_peak s \<le> pk_most s \<and> pk_most s \<le> int (length (pk_phases s)) \<and>
     (\<forall>i < length (pk_phases s). phase_ok (pk_peak s) (pk_most s) (pk_phases s ! i)) \<and>
     (pk_most s = pk_peak s \<or> (\<exists>i < length (pk_phases s). unpublished (pk_phases s ! i) = Some (pk_most s)))"

lemma inside_range: "0 \<le> inside g" "inside g \<le> 1"
  by (cases g; simp)+

lemma insiders_update: "i < length gs \<Longrightarrow> insiders (gs[i := g]) = insiders gs + inside g - inside (gs ! i)"
  unfolding insiders_def by (induction gs arbitrary: i) (auto simp: nth_Cons' list_update_code split: nat.split)

lemma insiders_bound: "insiders gs \<le> int (length gs)"
  unfolding insiders_def by (induction gs) (use inside_range in \<open>auto simp: add_mono\<close>)

lemma phase_ok_mono: "phase_ok a b g \<Longrightarrow> a \<le> a' \<Longrightarrow> b \<le> b' \<Longrightarrow> phase_ok a' b' g"
  by (cases g) auto

text \<open>One session moves; the others keep what they have to publish, and the peak and the maximum only grow.\<close>

lemma peak_inv_move:
  assumes "peak_inv s" and "i < length (pk_phases s)" and "pk_phases t = (pk_phases s)[i := g]"
    and "pk_running t = pk_running s + inside g - inside (pk_phases s ! i)"
    and "pk_peak s \<le> pk_peak t" and "pk_peak t \<le> pk_most t" and "pk_most s \<le> pk_most t" and "pk_most t \<le> int (length (pk_phases s))"
    and "phase_ok (pk_peak t) (pk_most t) g"
    and "pk_most t = pk_peak t \<or> unpublished g = Some (pk_most t) \<or>
         (pk_most t = pk_most s \<and> pk_most s \<noteq> pk_peak s \<and> unpublished (pk_phases s ! i) \<noteq> Some (pk_most s))"
  shows "peak_inv t"
proof -
  have "phase_ok (pk_peak t) (pk_most t) (pk_phases t ! j)" if "j < length (pk_phases t)" for j
    using that assms(1,2,3,5,7,9) phase_ok_mono by (auto simp: peak_inv_def nth_list_update)
  moreover have "pk_most t = pk_peak t \<or> (\<exists>j < length (pk_phases t). unpublished (pk_phases t ! j) = Some (pk_most t))"
    using assms(10)
  proof (elim disjE conjE)
    assume m: "pk_most t = pk_most s" "pk_most s \<noteq> pk_peak s" "unpublished (pk_phases s ! i) \<noteq> Some (pk_most s)"
    then obtain j where "j < length (pk_phases s)" "unpublished (pk_phases s ! j) = Some (pk_most s)" "j \<noteq> i"
      using assms(1) by (auto simp: peak_inv_def)
    then show ?thesis
      using m(1) assms(3) by auto
  next
    assume "unpublished g = Some (pk_most t)"
    then show ?thesis
      using assms(2,3) by (intro disjI2 exI [of _ i]) simp
  qed simp
  ultimately show ?thesis
    using assms(1-8) by (auto simp: peak_inv_def insiders_update)
qed

lemma peak_inv_step:
  assumes "peak_inv s" and "peak_step s t"
  shows "peak_inv t"
  using assms(2)
proof (cases rule: peak_step.cases)
  case (enter i)
  show ?thesis
    using assms(1) enter insiders_bound [of "(pk_phases s)[i := Counted (pk_running s + 1)]"]
    by (intro peak_inv_move [OF assms(1) enter(2), where g = "Counted (pk_running s + 1)"])
      (auto simp: entered_def Let_def peak_inv_def insiders_update max_def)
next
  case (look i n)
  then show ?thesis
    using assms(1) by (intro peak_inv_move [OF assms(1) look(2), where g = "Looked n (pk_peak s)"]) (auto simp: peak_inv_def dest: spec [of _ i])
next
  case (enough i n p)
  then have "phase_ok (pk_peak s) (pk_most s) (Looked n p)"
    using assms(1) by (auto simp: peak_inv_def dest: spec [of _ i])
  then show ?thesis
    using assms(1) enough by (intro peak_inv_move [OF assms(1) enough(2), where g = Executing]) (auto simp: peak_inv_def)
next
  case (swap i n p)
  then have "phase_ok (pk_peak s) (pk_most s) (Looked n p)"
    using assms(1) by (auto simp: peak_inv_def dest: spec [of _ i])
  then show ?thesis
    using assms(1) swap by (intro peak_inv_move [OF assms(1) swap(2), where g = Executing]) (auto simp: peak_inv_def)
next
  case (again i n p)
  then have "phase_ok (pk_peak s) (pk_most s) (Looked n p)"
    using assms(1) by (auto simp: peak_inv_def dest: spec [of _ i])
  then show ?thesis
    using assms(1) again by (intro peak_inv_move [OF assms(1) again(2), where g = "Counted n"]) (auto simp: peak_inv_def)
next
  case (leave i)
  then show ?thesis
    using assms(1) by (intro peak_inv_move [OF assms(1) leave(2), where g = Left]) (auto simp: peak_inv_def)
qed

section \<open>The loop ends\<close>

text \<open>
  A compare-and-swap fails only when another session has raised the peak, and the peak is at most the number of sessions:
  what a session still has to do is measured by how far the peak it has seen can grow.
\<close>

fun phase_rank :: "nat \<Rightarrow> int \<Rightarrow> run_phase \<Rightarrow> nat" where
  "phase_rank m peak Idle = 2 * m + 4"
| "phase_rank m peak (Counted n) = 2 * (m - nat peak) + 3"
| "phase_rank m peak (Looked n p) = 2 * (m - nat p) + 2"
| "phase_rank m peak Executing = 1"
| "phase_rank m peak Left = 0"

definition peak_rank :: "peak_state \<Rightarrow> nat" where
  "peak_rank s = sum_list (map (phase_rank (length (pk_phases s)) (pk_peak s)) (pk_phases s))"

lemma phase_rank_mono: "a \<le> b \<Longrightarrow> phase_rank m b g \<le> phase_rank m a g"
  by (cases g) auto

lemma peak_rank_move:
  assumes "i < length (pk_phases s)" and "pk_phases t = (pk_phases s)[i := g]" and "pk_peak s \<le> pk_peak t"
    and "phase_rank (length (pk_phases s)) (pk_peak t) g < phase_rank (length (pk_phases s)) (pk_peak s) (pk_phases s ! i)"
  shows "peak_rank t < peak_rank s"
proof -
  let ?m = "length (pk_phases s)"
  let ?r = "\<lambda>a. map (phase_rank ?m a) (pk_phases s)"
  have "peak_rank t = sum_list ((?r (pk_peak t))[i := phase_rank ?m (pk_peak t) g])"
    by (simp add: peak_rank_def assms(2) map_update)
  also have "\<dots> \<le> sum_list ((?r (pk_peak s))[i := phase_rank ?m (pk_peak t) g])"
  proof (intro sum_list_mono2)
    fix j
    show "j < length ((?r (pk_peak t))[i := phase_rank ?m (pk_peak t) g]) \<longrightarrow> (?r (pk_peak t))[i := phase_rank ?m (pk_peak t) g] ! j \<le> (?r (pk_peak s))[i := phase_rank ?m (pk_peak t) g] ! j"
      using phase_rank_mono [OF assms(3)] by (cases "i = j") simp_all
  qed simp
  also have "\<dots> < peak_rank s"
    using assms(1,4) member_le_sum_list [of "?r (pk_peak s) ! i" "?r (pk_peak s)"]
    by (simp add: sum_list_update peak_rank_def)
  finally show ?thesis .
qed

lemma peak_rank_step:
  assumes "peak_inv s" and "peak_step s t"
  shows "peak_rank t < peak_rank s"
  using assms(2)
proof (cases rule: peak_step.cases)
  case (swap i n p)
  then show ?thesis
    using peak_rank_move [OF swap(2), where t = t and g = Executing] by simp
next
  case (again i n p)
  then have "phase_ok (pk_peak s) (pk_most s) (Looked n p)"
    using assms(1) by (auto simp: peak_inv_def dest: spec [of _ i])
  then have "nat p < nat (pk_peak s)" "nat (pk_peak s) \<le> length (pk_phases s)"
    using again assms(1) by (auto simp: peak_inv_def)
  then have "2 * (length (pk_phases s) - nat (pk_peak s)) + 3 < 2 * (length (pk_phases s) - nat p) + 2"
    by linarith
  then show ?thesis
    using again peak_rank_move [OF again(2), where t = t and g = "Counted n"] by simp
next
  case (enter i)
  then show ?thesis
    using peak_rank_move [OF enter(2), where t = t and g = "Counted (pk_running s + 1)"] by (simp add: entered_def Let_def)
next
  case (look i n)
  then show ?thesis
    using peak_rank_move [OF look(2), where t = t and g = "Looked n (pk_peak s)"] by simp
next
  case (enough i n p)
  then show ?thesis
    using peak_rank_move [OF enough(2), where t = t and g = Executing] by simp
next
  case (leave i)
  then show ?thesis
    using peak_rank_move [OF leave(2), where t = t and g = Left] by simp
qed

lemma peak_inv_init: "peak_init s \<Longrightarrow> peak_inv s"
proof -
  assume i: "peak_init s"
  have "insiders gs = 0" if "list_all (\<lambda>g. g = Idle) gs" for gs
    using that by (induction gs) (auto simp: insiders_def)
  then show ?thesis
    using i by (auto simp: peak_init_def peak_inv_def list_all_length)
qed

interpretation peak: terminating_system peak_init peak_step peak_inv peak_rank
  by unfold_locales (auto intro: peak_inv_init peak_inv_step peak_rank_step)

text \<open>A session that has not left \<open>run\<close> can always take a step: no session waits for another.\<close>

lemma peak_progress: "i < length (pk_phases s) \<Longrightarrow> pk_phases s ! i \<noteq> Left \<Longrightarrow> \<exists>t. peak_step s t \<and> pk_phases t ! i \<noteq> pk_phases s ! i"
proof (cases "pk_phases s ! i")
  case (Looked n p)
  moreover assume "i < length (pk_phases s)"
  ultimately show ?thesis
    using enough [of i s n p] swap [of i s n p] again [of i s n p] by fastforce
next
  case Idle
  moreover assume "i < length (pk_phases s)"
  ultimately show ?thesis
    using enter [of i s] by (fastforce simp: entered_def Let_def)
next
  case (Counted n)
  moreover assume "i < length (pk_phases s)"
  ultimately show ?thesis
    using look [of i s n] by fastforce
next
  case Executing
  moreover assume "i < length (pk_phases s)"
  ultimately show ?thesis
    using leave [of i s] by fastforce
qed simp

lemma peak_published:
  "peak_inv s \<Longrightarrow> \<forall>g \<in> set (pk_phases s). unpublished g = None \<Longrightarrow> pk_peak s = pk_most s"
  by (auto simp: peak_inv_def)

section \<open>Properties\<close>

text \<open>
  C31: \<open>PeakConcurrent\<close> is what its comment says, in every interleaving of the sessions: it never exceeds the largest number
  of commands that were running at the same time, and it is exactly that number whenever no session is between
  \<open>running.Add\<close> and the end of the loop; \<open>running\<close> is always the number of sessions inside \<open>run\<close>.
\<close>

theorem peak_exact:
  assumes "reachable peak_init peak_step s"
  shows "pk_running s = insiders (pk_phases s) \<and> pk_peak s \<le> pk_most s \<and>
         ((\<forall>g \<in> set (pk_phases s). unpublished g = None) \<longrightarrow> pk_peak s = pk_most s)"
  using peak.inv_reachable [OF assms] peak_published [OF peak.inv_reachable [OF assms]] by (simp add: peak_inv_def)

text \<open>
  C32: The loop ends without locks: however the sessions are interleaved, \<open>m\<close> of them take at most \<open>m * (2 * m + 4)\<close> atomic
  steps in all; a session that has not left can always take one, and when none can, every session has left, nothing
  is counted as running any more, and the peak is the largest number of commands that ran at the same time.
\<close>

theorem peak_loop_ends:
  assumes "peak_init s" and "(peak_step ^^ k) s t"
  shows "k \<le> length (pk_phases s) * (2 * length (pk_phases s) + 4) \<and>
         ((\<nexists>u. peak_step t u) \<longrightarrow> list_all (\<lambda>g. g = Left) (pk_phases t) \<and> pk_running t = 0 \<and> pk_peak t = pk_most t)"
proof -
  have i: "peak_inv s"
    by (rule peak_inv_init [OF assms(1)])
  have t: "peak_inv t"
    using peak.inv_steps [OF relpowp_imp_rtranclp [OF assms(2)] i] .
  have "sum_list (map (phase_rank m 0) gs) = length gs * (2 * m + 4)" if "list_all (\<lambda>g. g = Idle) gs" for m gs
    using that by (induction gs) auto
  then have "peak_rank s = length (pk_phases s) * (2 * length (pk_phases s) + 4)"
    using assms(1) by (simp add: peak_rank_def peak_init_def)
  moreover have "list_all (\<lambda>g. g = Left) (pk_phases t) \<and> pk_running t = 0 \<and> pk_peak t = pk_most t" if "\<nexists>u. peak_step t u"
  proof -
    have left: "list_all (\<lambda>g. g = Left) (pk_phases t)"
      using that peak_progress [of _ t] by (auto simp: list_all_length)
    moreover have "insiders gs = 0" if "list_all (\<lambda>g. g = Left) gs" for gs
      using that by (induction gs) (auto simp: insiders_def)
    moreover have "\<forall>g \<in> set (pk_phases t). unpublished g = None"
      using left by (auto simp: list_all_iff)
    then have "pk_peak t = pk_most t"
      by (rule peak_published [OF t])
    ultimately show ?thesis
      using t by (simp add: peak_inv_def)
  qed
  ultimately show ?thesis
    using peak.steps_bounded [OF assms(2) i] by auto
qed

text \<open>\<open>server_run\<close> is \<open>run\<close> of a session that no other one interrupts.\<close>

lemma server_run_steps:
  assumes "i < length (pk_phases s)" and "pk_phases s ! i = Idle" and "sv_running sv = pk_running s" and "sv_peak sv = pk_peak s"
  shows "\<exists>t. peak_step\<^sup>*\<^sup>* s t \<and> pk_phases t = (pk_phases s)[i := Left] \<and>
           pk_running t = sv_running (snd (server_run E sv reqs command)) \<and> pk_peak t = sv_peak (snd (server_run E sv reqs command))"
proof -
  let ?n = "pk_running s + 1"
  define a where "a = entered i s"
  define b where "b = at_phase i (Looked ?n (pk_peak s)) a"
  define c where "c = at_phase i Executing (if ?n \<le> pk_peak s then b else b\<lparr>pk_peak := ?n\<rparr>)"
  define d where "d = at_phase i Left (c\<lparr>pk_running := pk_running c - 1\<rparr>)"
  have a: "pk_running a = ?n" "pk_peak a = pk_peak s" "pk_phases a = (pk_phases s)[i := Counted ?n]"
    by (simp_all add: a_def entered_def Let_def)
  have "peak_step s a"
    unfolding a_def by (rule enter [OF assms(1,2)])
  moreover have "peak_step a b"
    using look [of i a ?n] assms(1) a by (simp add: b_def)
  moreover have "peak_step b c"
    using enough [of i b ?n "pk_peak s"] swap [of i b ?n "pk_peak s"] assms(1) a by (cases "?n \<le> pk_peak s") (simp_all add: b_def c_def)
  moreover have "peak_step c d"
    using leave [of i c] assms(1) a by (simp add: b_def c_def d_def)
  ultimately have "peak_step\<^sup>*\<^sup>* s d"
    by (meson converse_rtranclp_into_rtranclp rtranclp.rtrancl_refl)
  then show ?thesis
    using assms a by (intro exI [of _ d]) (auto simp: b_def c_def d_def server_run_def Let_def)
qed

section \<open>An example\<close>

text \<open>Two sessions, of which the second overtakes the first in the loop.\<close>

definition two_sessions :: "run_phase list \<Rightarrow> int \<Rightarrow> int \<Rightarrow> int \<Rightarrow> peak_state" where
  "two_sessions gs r p m = \<lparr>pk_running = r, pk_peak = p, pk_phases = gs, pk_most = m\<rparr>"

lemma two_sessions_init: "peak_init (two_sessions [Idle, Idle] 0 0 0)"
  by (simp add: peak_init_def two_sessions_def)

lemma overtaken: "(peak_step ^^ 8) (two_sessions [Idle, Idle] 0 0 0) (two_sessions [Executing, Executing] 2 2 2)"
proof -
  have s1: "peak_step (two_sessions [Idle, Idle] 0 0 0) (two_sessions [Counted 1, Idle] 1 0 1)"
    using enter [of 0 "two_sessions [Idle, Idle] 0 0 0"] by (simp add: two_sessions_def entered_def at_phase_def insiders_def)
  have s2: "peak_step (two_sessions [Counted 1, Idle] 1 0 1) (two_sessions [Looked 1 0, Idle] 1 0 1)"
    using look [of 0 "two_sessions [Counted 1, Idle] 1 0 1" 1] by (simp add: two_sessions_def at_phase_def)
  have s3: "peak_step (two_sessions [Looked 1 0, Idle] 1 0 1) (two_sessions [Looked 1 0, Counted 2] 2 0 2)"
    using enter [of 1 "two_sessions [Looked 1 0, Idle] 1 0 1"] by (simp add: two_sessions_def entered_def at_phase_def insiders_def)
  have s4: "peak_step (two_sessions [Looked 1 0, Counted 2] 2 0 2) (two_sessions [Looked 1 0, Looked 2 0] 2 0 2)"
    using look [of 1 "two_sessions [Looked 1 0, Counted 2] 2 0 2" 2] by (simp add: two_sessions_def at_phase_def)
  have s5: "peak_step (two_sessions [Looked 1 0, Looked 2 0] 2 0 2) (two_sessions [Looked 1 0, Executing] 2 2 2)"
    using swap [of 1 "two_sessions [Looked 1 0, Looked 2 0] 2 0 2" 2 0] by (simp add: two_sessions_def at_phase_def)
  have s6: "peak_step (two_sessions [Looked 1 0, Executing] 2 2 2) (two_sessions [Counted 1, Executing] 2 2 2)"
    using again [of 0 "two_sessions [Looked 1 0, Executing] 2 2 2" 1 0] by (simp add: two_sessions_def at_phase_def)
  have s7: "peak_step (two_sessions [Counted 1, Executing] 2 2 2) (two_sessions [Looked 1 2, Executing] 2 2 2)"
    using look [of 0 "two_sessions [Counted 1, Executing] 2 2 2" 1] by (simp add: two_sessions_def at_phase_def)
  have s8: "peak_step (two_sessions [Looked 1 2, Executing] 2 2 2) (two_sessions [Executing, Executing] 2 2 2)"
    using enough [of 0 "two_sessions [Looked 1 2, Executing] 2 2 2" 1 2] by (simp add: two_sessions_def at_phase_def)
  have eight: "8 = Suc (Suc (Suc (Suc (Suc (Suc (Suc (Suc 0)))))))"
    by simp
  note next_step = relpowp_Suc_I2 [where P = peak_step]
  show ?thesis
    unfolding eight by (intro next_step [OF s1] next_step [OF s2] next_step [OF s3] next_step [OF s4]
        next_step [OF s5] next_step [OF s6] next_step [OF s7] next_step [OF s8] relpowp_0_I)
qed

lemma overtaken_end: "(peak_step ^^ 10) (two_sessions [Idle, Idle] 0 0 0) (two_sessions [Left, Left] 0 2 2)"
proof -
  have "peak_step (two_sessions [Executing, Executing] 2 2 2) (two_sessions [Left, Executing] 1 2 2)"
    using leave [of 0 "two_sessions [Executing, Executing] 2 2 2"] by (simp add: two_sessions_def at_phase_def)
  moreover have "peak_step (two_sessions [Left, Executing] 1 2 2) (two_sessions [Left, Left] 0 2 2)"
    using leave [of 1 "two_sessions [Left, Executing] 1 2 2"] by (simp add: two_sessions_def at_phase_def)
  ultimately have "(peak_step ^^ Suc (Suc 8)) (two_sessions [Idle, Idle] 0 0 0) (two_sessions [Left, Left] 0 2 2)"
    using overtaken by (meson relpowp_Suc_I)
  then show ?thesis
    by simp
qed

lemma peak_reachable: "peak_init s \<Longrightarrow> (peak_step ^^ k) s t \<Longrightarrow> reachable peak_init peak_step t"
  by (induction k arbitrary: t) (auto intro: reachable.intros)

theorem peak_exact_witness:
  "pk_running (two_sessions [Executing, Executing] 2 2 2) = insiders [Executing, Executing] \<and>
   pk_peak (two_sessions [Executing, Executing] 2 2 2) = pk_most (two_sessions [Executing, Executing] 2 2 2)"
  using peak_exact [OF peak_reachable [OF two_sessions_init overtaken]] by (simp add: two_sessions_def)

theorem peak_loop_ends_witness:
  "(10 :: nat) \<le> 2 * (2 * 2 + 4) \<and> pk_running (two_sessions [Left, Left] 0 2 2) = 0 \<and>
   pk_peak (two_sessions [Left, Left] 0 2 2) = pk_most (two_sessions [Left, Left] 0 2 2)"
proof -
  have "\<nexists>u. peak_step (two_sessions [Left, Left] 0 2 2) u"
    by (auto simp: two_sessions_def less_Suc_eq elim!: peak_step.cases)
  then show ?thesis
    using peak_loop_ends [OF two_sessions_init overtaken_end] by (simp add: two_sessions_def)
qed

end
