(* ===== verification/Sudo_Run.thy ===== *)
theory Sudo_Run
  imports Test_Server Example_World
begin

text \<open>
  Sudo from the job to the server: what the runner sends for an action with \<open>sudo\<close> (\<open>needsSudoPassword\<close> and \<open>attempt\<close>
  of \<open>runner.go\<close>, \<open>Remote\<close> of \<open>build.go\<close>), read by a shell and by the \<open>sudo\<close> of the test server.
\<close>

section \<open>What runs under sudo\<close>

text \<open>The command line that \<open>Remote\<close> puts under \<open>sudo\<close>, and what follows it outside: the removal of the uploaded file.\<close>

definition under_sudo :: "Action \<Rightarrow> string \<Rightarrow> string" where
  "under_sudo a tmp =
     (if act_Kind a = KindScript then ''bash '' @ Quote tmp
      else if act_Kind a = KindCommand \<and> act_Content a \<noteq> None then ''sh '' @ Quote tmp
      else if act_FireAndForget a then ''(trap '' @ [sq, sq] @ '' HUP; '' @ act_Shell a @ '') </dev/null >/dev/null 2>&1 &''
      else if act_Kind a = KindCopy then copy_command (Quote (act_Dest a)) (Quote tmp) (act_Mode a)
      else act_Shell a)"

definition uploads :: "Action \<Rightarrow> bool" where
  "uploads a \<longleftrightarrow> act_Kind a = KindScript \<or> act_Kind a = KindCommand \<and> act_Content a \<noteq> None \<or>
     act_Kind a = KindCopy \<and> \<not> act_FireAndForget a"

lemma Remote_under_sudo:
  "Remote a tmp pw = (if uploads a then cleanup (wrap a pw (under_sudo a tmp)) tmp else wrap a pw (under_sudo a tmp))"
  by (auto simp: Remote_def under_sudo_def uploads_def kind_defs)

text \<open>The words after \<open>sudo\<close>.\<close>

definition sudo_words :: "bool \<Rightarrow> string \<Rightarrow> string list" where
  "sudo_words pw cmd = tl (sudo_args pw) @ [cmd]"

lemma sudo_words_flags:
  "sudo_flags '''' (sudo_words pw cmd) = Some (if pw then ''S'' else ''n'', [''sh'', ''-c'', cmd])"
  by (simp add: sudo_words_def sudo_args_def)

lemma fakeSudo_words:
  "fakeSudo password (sudo_words pw cmd) input =
     Some (if password = '''' then SudoExec [''sh'', ''-c'', cmd] input
           else if pw then (case read_line input of (l, rest) \<Rightarrow>
             if l \<noteq> password then SudoExit1 ''sudo: incorrect password attempt'' else SudoExec [''sh'', ''-c'', cmd] rest)
           else SudoExit1 ''sudo: a password is required'')"
  by (simp add: fakeSudo_def sudo_words_flags)

lemma read_line_line: "newline \<notin> set l \<Longrightarrow> read_line (l @ newline # rest) = (l, rest)"
  by (auto simp: read_line_def takeWhile_append dropWhile_append)

section \<open>The probe\<close>

text \<open>What the server's \<open>sudo\<close> makes of the probe \<open>sudo -n true\<close>, whose exit status is then 0 or 1.\<close>

definition probe_status :: "string \<Rightarrow> int" where
  "probe_status password =
     (case fakeSudo password [''-n'', ''true''] '''' of Some (SudoExec _ _) \<Rightarrow> 0 | _ \<Rightarrow> 1)"

lemma probe_status: "probe_status password = (if password = '''' then 0 else 1)"
  by (simp add: probe_status_def fakeSudo_def)

lemma probe_words: "sh_words ''sudo -n true'' = Some [''sudo'', ''-n'', ''true'']"
  by code_simp

text \<open>The standard input of a request; no input is empty input.\<close>

definition stdin_of :: "Request \<Rightarrow> string" where
  "stdin_of r = (case rq_Stdin r of None \<Rightarrow> '''' | Some i \<Rightarrow> i)"

text \<open>
  C22: An action with sudo, run on a server whose \<open>sudo\<close> asks for \<open>password\<close> (none when empty), after a probe that was
  answered: the shell reads one \<open>sudo\<close> command whose last word is everything that is to run as root. If the server asks for
  no password or the configured one is right, that command runs, and its standard input is empty: the password was
  read by \<open>sudo\<close> or not sent at all, so it never reaches the command. Otherwise nothing runs and \<open>sudo\<close> says why.
\<close>

theorem sudo_password_consumed:
  assumes "a \<in> set (pl_Actions p)" and "act_Sudo a" and "newline \<notin> set (sudo_password p)"
    and "do_exec T c (probe_request ''sudo -n true'') st = ((res, None), st')" and "rs_ExitCode res = Some (probe_status password)"
    and "needsSudoPassword T c p st = (pw, st'')"
  shows "\<exists>line. (rq_Command (run_request R p a pw tmp) = line \<or> rq_Command (run_request R p a pw tmp) = cleanup line tmp) \<and>
           sh_words line = Some (''sudo'' # sudo_words pw (under_sudo a tmp)) \<and>
           fakeSudo password (sudo_words pw (under_sudo a tmp)) (stdin_of (run_request R p a pw tmp)) =
             Some (if password = '''' \<or> sudo_password p = password then SudoExec [''sh'', ''-c'', under_sudo a tmp] ''''
                   else if sudo_password p = '''' then SudoExit1 ''sudo: a password is required''
                   else SudoExit1 ''sudo: incorrect password attempt'')"
proof (intro exI [of _ "wrap a pw (under_sudo a tmp)"] conjI)
  have pw: "pw \<longleftrightarrow> sudo_password p \<noteq> '''' \<and> password \<noteq> ''''"
    using assms(1,2,4-6) by (auto simp: needsSudoPassword_def probe_status split: if_splits)
  show "rq_Command (run_request R p a pw tmp) = wrap a pw (under_sudo a tmp) \<or>
      rq_Command (run_request R p a pw tmp) = cleanup (wrap a pw (under_sudo a tmp)) tmp"
    using assms(2) by (simp add: run_request_def Remote_under_sudo Let_def)
  show "sh_words (wrap a pw (under_sudo a tmp)) = Some (''sudo'' # sudo_words pw (under_sudo a tmp))"
    using sh_words_wrap [OF assms(2)] by (simp add: sudo_words_def sudo_args_def)
  show "fakeSudo password (sudo_words pw (under_sudo a tmp)) (stdin_of (run_request R p a pw tmp)) =
      Some (if password = '''' \<or> sudo_password p = password then SudoExec [''sh'', ''-c'', under_sudo a tmp] ''''
            else if sudo_password p = '''' then SudoExit1 ''sudo: a password is required''
            else SudoExit1 ''sudo: incorrect password attempt'')"
    using read_line_line [OF assms(3), of "[]"] assms(2) pw
    by (auto simp: fakeSudo_words stdin_of_def run_request_def Let_def)
qed

text \<open>
  C40: The probe is needed: when it is not answered (it times out, or its session is lost) on a server whose \<open>sudo\<close> asks for no
  password, the password is sent all the same, \<open>sudo\<close> leaves it on the standard input, and the command can read it.
\<close>

theorem sudo_probe_lost:
  assumes "a \<in> set (pl_Actions p)" and "act_Sudo a" and "sudo_password p \<noteq> ''''"
    and "do_exec T c (probe_request ''sudo -n true'') st = ((res, Some f), st')"
    and "needsSudoPassword T c p st = (pw, st'')"
  shows "fakeSudo '''' (sudo_words pw (under_sudo a tmp)) (stdin_of (run_request R p a pw tmp)) =
           Some (SudoExec [''sh'', ''-c'', under_sudo a tmp] (sudo_password p @ [newline]))"
proof -
  have pw
    using assms(1-5) by (auto simp: needsSudoPassword_def split: if_splits)
  then show ?thesis
    using assms(2) by (simp add: fakeSudo_words stdin_of_def run_request_def Let_def)
qed

section \<open>An example\<close>

text \<open>A server whose \<open>sudo\<close> asks for the password, or for none; the probe is answered, or times out.\<close>

definition sudo_world :: "string \<Rightarrow> race \<Rightarrow> (unit, int) transport" where
  "sudo_world password race = example_world\<lparr>tp_session := (\<lambda>c req w.
     (\<lparr>ss_open_race = Arrived, ss_open = Opened, ss_stdout = [], ss_stderr = [], ss_wait_race = race,
       ss_wait = (if probe_status password = 0 then WaitOK else WaitError (EExit (probe_status password)))\<rparr>, w + 1))\<rparr>"

definition sudo_plan :: "unit Plan" where
  "sudo_plan = example_plan\<lparr>pl_Actions := [example_action]\<rparr>"

lemma sudo_plan_simps:
  "example_action \<in> set (pl_Actions sudo_plan)" "act_Sudo example_action" "sudo_password sudo_plan = ''hunter2''"
  "newline \<notin> set (sudo_password sudo_plan)" "under_sudo example_action tmp = ''id; ls''"
  by (simp_all add: sudo_plan_def example_plan_def example_action_def sudo_password_def newline_def under_sudo_def kind_defs)

definition sudo_start :: "int rstate" where
  "sudo_start = \<lparr>rs_world = 0, rs_trace = []\<rparr>"

lemma probe_answers:
  "\<exists>res st'. do_exec (sudo_world ''hunter2'' Arrived) 0 (probe_request ''sudo -n true'') sudo_start = ((res, None), st') \<and>
     rs_ExitCode res = Some (probe_status ''hunter2'')"
  "\<exists>res f st'. do_exec (sudo_world '''' TimerFired) 0 (probe_request ''sudo -n true'') sudo_start = ((res, Some f), st')"
  by (simp_all add: do_exec_def sudo_world_def Exec_def race_failure_def probe_status exit_status_def sudo_start_def Let_def)

theorem sudo_password_consumed_witness:
  "\<exists>pw. fst (needsSudoPassword (sudo_world ''hunter2'' Arrived) 0 sudo_plan sudo_start) = pw \<and>
     fakeSudo ''hunter2'' (sudo_words pw ''id; ls'') (stdin_of (run_request example_runner sudo_plan example_action pw '''')) =
       Some (SudoExec [''sh'', ''-c'', ''id; ls''] '''')"
proof -
  obtain res st' where p: "do_exec (sudo_world ''hunter2'' Arrived) 0 (probe_request ''sudo -n true'') sudo_start = ((res, None), st')"
      "rs_ExitCode res = Some (probe_status ''hunter2'')"
    using probe_answers(1) by blast
  obtain pw st'' where n: "needsSudoPassword (sudo_world ''hunter2'' Arrived) 0 sudo_plan sudo_start = (pw, st'')"
    by fastforce
  show ?thesis
    using sudo_password_consumed [OF sudo_plan_simps(1,2,4) p n, of example_runner "[]"] n by (auto simp: sudo_plan_simps)
qed

theorem sudo_probe_lost_witness:
  "\<exists>pw. fst (needsSudoPassword (sudo_world '''' TimerFired) 0 sudo_plan sudo_start) = pw \<and>
     fakeSudo '''' (sudo_words pw ''id; ls'') (stdin_of (run_request example_runner sudo_plan example_action pw '''')) =
       Some (SudoExec [''sh'', ''-c'', ''id; ls''] (''hunter2'' @ [newline]))"
proof -
  obtain res f st' where p: "do_exec (sudo_world '''' TimerFired) 0 (probe_request ''sudo -n true'') sudo_start = ((res, Some f), st')"
    using probe_answers(2) by blast
  obtain pw st'' where n: "needsSudoPassword (sudo_world '''' TimerFired) 0 sudo_plan sudo_start = (pw, st'')"
    by fastforce
  show ?thesis
    using sudo_probe_lost [OF sudo_plan_simps(1,2) _ p n, of "[]" example_runner] n by (simp add: sudo_plan_simps)
qed

end
